(* ===== verification/Go_Prelude.thy ===== *)
theory Go_Prelude
  imports Main "HOL-Library.Word" "HOL-Library.Signed_Division"
begin

text \<open>
  What the models of the control plane share: Go's error values and the
  \<^verbatim>\<open>(T, error)\<close> results, Go's \<^verbatim>\<open>int64\<close> arithmetic (wrap-around addition and
  multiplication, truncating division) on \<^typ>\<open>64 word\<close>, the few functions of the
  package \<^verbatim>\<open>strings\<close> the modelled code calls, and the two generic interfaces the
  components are instances of: a state machine with an invariant and an accumulator
  that conserves what is fed to it.
\<close>

named_theorems i64 \<open>signed 64-bit arithmetic read as integers\<close>
named_theorems go_defs \<open>definitions unfolded in the functional proofs\<close>

section \<open>Errors and results\<close>

text \<open>
  \<^verbatim>\<open>Sentinel\<close> is a package-level \<^verbatim>\<open>errors.New\<close> value, named by its variable;
  \<^verbatim>\<open>Msg\<close> is an anonymous \<^verbatim>\<open>errors.New\<close> or \<^verbatim>\<open>fmt.Errorf\<close> without \<^verbatim>\<open>%w\<close>, identified by
  a short form of its text; \<^verbatim>\<open>Wrap\<close> is \<^verbatim>\<open>fmt.Errorf\<close> with \<^verbatim>\<open>%w\<close>.
\<close>

datatype go_error = Sentinel string | Msg string | Wrap string go_error

fun errors_Is :: "go_error \<Rightarrow> go_error \<Rightarrow> bool" where
  "errors_Is (Wrap m e) target = (Wrap m e = target \<or> errors_Is e target)"
| "errors_Is e target = (e = target)"

type_synonym 'a result = "go_error + 'a"

definition bind_result :: "'a result \<Rightarrow> ('a \<Rightarrow> 'b result) \<Rightarrow> 'b result" where
  "bind_result r f = (case r of Inl e \<Rightarrow> Inl e | Inr x \<Rightarrow> f x)"

definition wrap_result :: "string \<Rightarrow> 'a result \<Rightarrow> 'a result" where
  "wrap_result m r = (case r of Inl e \<Rightarrow> Inl (Wrap m e) | Inr x \<Rightarrow> Inr x)"

definition isOK :: "'a result \<Rightarrow> bool" where
  "isOK r = (case r of Inl _ \<Rightarrow> False | Inr _ \<Rightarrow> True)"

lemma bind_result_simps [simp]:
  "bind_result (Inl e) f = Inl e"
  "bind_result (Inr x) f = f x"
  by (simp_all add: bind_result_def)

lemma bind_result_eq_Inr [simp]:
  "bind_result r f = Inr y \<longleftrightarrow> (\<exists>x. r = Inr x \<and> f x = Inr y)"
  by (cases r) auto

lemma bind_result_eq_Inl:
  "bind_result r f = Inl e \<longleftrightarrow> r = Inl e \<or> (\<exists>x. r = Inr x \<and> f x = Inl e)"
  by (cases r) auto

lemma wrap_result_simps [simp]:
  "wrap_result m (Inl e) = Inl (Wrap m e)"
  "wrap_result m (Inr x) = Inr x"
  by (simp_all add: wrap_result_def)

lemma wrap_result_eq_Inr [simp]: "wrap_result m r = Inr x \<longleftrightarrow> r = Inr x"
  by (cases r) auto

lemma isOK_simps [simp]: "isOK (Inr x)" "\<not> isOK (Inl e)"
  by (simp_all add: isOK_def)

lemma isOK_iff: "isOK r \<longleftrightarrow> (\<exists>x. r = Inr x)"
  by (cases r) auto

lemma errors_Is_refl [simp]: "errors_Is e e"
  by (cases e) auto

section \<open>Signed 64-bit integers\<close>

type_synonym int64 = "64 word"

abbreviation maxInt64 :: int where "maxInt64 \<equiv> 9223372036854775807"
abbreviation minInt64 :: int where "minInt64 \<equiv> - 9223372036854775808"

definition in64 :: "int \<Rightarrow> bool" where
  "in64 k \<longleftrightarrow> minInt64 \<le> k \<and> k \<le> maxInt64"

definition wrap64 :: "int \<Rightarrow> int" where
  "wrap64 k = (k + 9223372036854775808) mod 18446744073709551616 - 9223372036854775808"

text \<open>
  Go's integer division truncates towards zero; the remainder has the sign of the
  dividend. The divisor of every division of the modelled code is a non-zero constant or
  has been tested, so the run-time panic of a zero divisor is not reached.
\<close>

definition go_div :: "int64 \<Rightarrow> int64 \<Rightarrow> int64" where
  "go_div a b = word_of_int (sint a sdiv sint b)"

definition go_rem :: "int64 \<Rightarrow> int64 \<Rightarrow> int64" where
  "go_rem a b = word_of_int (sint a smod sint b)"

lemma sint64_bounds: "minInt64 \<le> sint (a :: int64)" "sint (a :: int64) \<le> maxInt64"
  using sint_ge [of a] sint_lt [of a] by simp_all

lemma in64_sint [simp, intro]: "in64 (sint (a :: int64))"
  using sint64_bounds [of a] by (simp add: in64_def)

lemma wrap64_signed_take_bit: "wrap64 k = signed_take_bit 63 k"
  by (simp add: wrap64_def signed_take_bit_eq_take_bit_shift take_bit_eq_mod)

lemma wrap64_id: "in64 k \<Longrightarrow> wrap64 k = k"
  by (simp add: wrap64_def in64_def)

lemma in64_wrap64 [simp]: "in64 (wrap64 k)"
proof -
  have "0 \<le> (k + 9223372036854775808) mod 18446744073709551616"
    "(k + 9223372036854775808) mod 18446744073709551616 < 18446744073709551616"
    by simp_all
  then show ?thesis by (simp only: wrap64_def in64_def) linarith
qed

lemma wrap64_once:
  assumes "- 27670116110564327424 \<le> k" and "k < 27670116110564327424"
  shows "wrap64 k =
    (if k < minInt64 then k + 18446744073709551616
     else if maxInt64 < k then k - 18446744073709551616 else k)"
proof -
  consider "k < minInt64" | "maxInt64 < k" | "in64 k"
    by (cases "k < minInt64"; cases "maxInt64 < k") (auto simp: in64_def)
  then show ?thesis
  proof cases
    case 1
    with assms have "(k + 9223372036854775808) mod 18446744073709551616 = k + 27670116110564327424"
      using mod_add_self2 [of "k + 9223372036854775808" 18446744073709551616]
      by (simp del: mod_add_self2 add: mod_pos_pos_trivial)
    with 1 show ?thesis by (simp add: wrap64_def)
  next
    case 2
    with assms have "(k + 9223372036854775808) mod 18446744073709551616 = k - 9223372036854775808"
      using mod_add_self2 [of "k - 9223372036854775808" 18446744073709551616]
      by (simp del: mod_add_self2 add: add.commute)
    with 2 show ?thesis by (simp add: wrap64_def)
  next
    case 3
    then show ?thesis by (simp add: wrap64_id in64_def)
  qed
qed


lemma sint_word_of_int64 [i64]: "sint (word_of_int k :: int64) = wrap64 k"
  by (simp add: wrap64_signed_take_bit sint_sbintrunc')

lemma sint64_add [i64]: "sint (a + b :: int64) = wrap64 (sint a + sint b)"
  by (simp add: wrap64_signed_take_bit sint_word_ariths)

lemma sint64_diff [i64]: "sint (a - b :: int64) = wrap64 (sint a - sint b)"
  by (simp add: wrap64_signed_take_bit sint_word_ariths)

lemma sint64_uminus [i64]: "sint (- a :: int64) = wrap64 (- sint a)"
  by (simp add: wrap64_signed_take_bit sint_word_ariths)

lemma sint64_mult [i64]: "sint (a * b :: int64) = wrap64 (sint a * sint b)"
  by (simp add: wrap64_signed_take_bit sint_word_ariths)

lemmas sless64 [i64] = word_sless_alt [where 'a = 64]
lemmas sle64 [i64] = word_sle_eq [where 'a = 64]

lemma sint64_inject: "sint a = sint b \<longleftrightarrow> (a :: int64) = b"
  by (auto intro: signed_word_eqI)

lemma word_of_int_sint64 [simp]: "word_of_int (sint a) = (a :: int64)"
  by simp

lemma sint64_of_int_in64: "in64 k \<Longrightarrow> sint (word_of_int k :: int64) = k"
  by (simp add: sint_word_of_int64 wrap64_id)

lemma sint64_numerals [simp]:
  "sint (0 :: int64) = 0" "sint (1 :: int64) = 1"
  by simp_all

text \<open>
  The overflow test of the checked additions and subtractions of the control plane is
  exact: it fires just when the mathematical result leaves the range of \<^verbatim>\<open>int64\<close>.
\<close>

lemma add_overflow_test:
  "((0 :: int64) <s b \<and> a + b <s a) \<or> (b <s 0 \<and> a <s a + b) \<longleftrightarrow> \<not> in64 (sint a + sint b)"
  using sint64_bounds [of a] sint64_bounds [of b]
  by (simp add: i64 wrap64_once in64_def)

lemma sub_overflow_test:
  "(b <s (0 :: int64) \<and> a - b <s a) \<or> (0 <s b \<and> a <s a - b) \<longleftrightarrow> \<not> in64 (sint a - sint b)"
  using sint64_bounds [of a] sint64_bounds [of b]
  by (simp add: i64 wrap64_once in64_def)

lemma sint64_add_in64: "in64 (sint a + sint b) \<Longrightarrow> sint (a + b :: int64) = sint a + sint b"
  by (simp add: i64 wrap64_id)

lemma sint64_diff_in64: "in64 (sint a - sint b) \<Longrightarrow> sint (a - b :: int64) = sint a - sint b"
  by (simp add: i64 wrap64_id)

lemma sint64_mult_in64: "in64 (sint a * sint b) \<Longrightarrow> sint (a * b :: int64) = sint a * sint b"
  by (simp add: i64 wrap64_id)

lemma sint64_add_iff: "in64 (sint a + sint b) \<and> c = a + b \<longleftrightarrow> sint (c :: int64) = sint a + sint b"
  by (metis in64_sint sint64_add_in64 sint64_inject)

lemma sint64_diff_iff: "in64 (sint a - sint b) \<and> c = a - b \<longleftrightarrow> sint (c :: int64) = sint a - sint b"
  by (metis in64_sint sint64_diff_in64 sint64_inject)

lemma sint64_mult_iff: "in64 (sint a * sint b) \<and> c = a * b \<longleftrightarrow> sint (c :: int64) = sint a * sint b"
  by (metis in64_sint sint64_mult_in64 sint64_inject)

lemma uint64_nonneg: "0 \<le> sint (a :: int64) \<Longrightarrow> uint a = sint a"
  using uint_word_of_int [of "sint a", where 'a = 64] sint64_bounds [of a]
  by (simp add: take_bit_eq_mod)

text \<open>Truncating division by a positive constant of a non-negative value is floor division.\<close>

lemma sdiv_nonneg: "0 \<le> (a :: int) \<Longrightarrow> 0 < b \<Longrightarrow> a sdiv b = a div b"
  by (simp add: signed_divide_int_def sgn_if)

lemma smod_nonneg: "0 \<le> (a :: int) \<Longrightarrow> 0 < b \<Longrightarrow> a smod b = a mod b"
  by (simp add: signed_modulo_int_def sgn_if)

lemma int_div_less_self_le: "0 \<le> (a :: int) \<Longrightarrow> 0 < b \<Longrightarrow> a div b \<le> a"
  using zdiv_mono2 [of a 1 b] by simp

lemma int_div_less_iff:
  fixes q :: int
  assumes "0 < q"
  shows "m div q < n \<longleftrightarrow> m < n * q"
proof
  assume "m div q < n"
  then have "(m div q + 1) * q \<le> n * q" using assms by (intro mult_right_mono) simp_all
  moreover have "m < (m div q + 1) * q"
    using mult_div_mod_eq [of q m] pos_mod_bound [OF assms, of m]
    by (simp only: distrib_right mult.commute [of q] mult_1)
  ultimately show "m < n * q" by linarith
next
  assume "m < n * q"
  moreover have "m div q * q \<le> m"
    using minus_mod_eq_div_mult [of m q] pos_mod_sign [OF assms, of m] by linarith
  ultimately have "m div q * q < n * q" by linarith
  then show "m div q < n" using assms by (simp add: mult_less_cancel_right)
qed

lemma sint_go_div:
  assumes "0 \<le> sint a" and "0 < sint b"
  shows "sint (go_div a b) = sint a div sint b"
proof -
  have "sint a div sint b \<le> sint a" "0 \<le> sint a div sint b"
    using assms by (simp_all add: pos_imp_zdiv_nonneg_iff int_div_less_self_le)
  then show ?thesis
    using assms sint64_bounds [of a]
    by (simp add: go_div_def sdiv_nonneg i64 wrap64_id in64_def)
qed

lemma sint_go_rem:
  assumes "0 \<le> sint a" and "0 < sint b"
  shows "sint (go_rem a b) = sint a mod sint b"
proof -
  have "sint a mod sint b \<le> sint a" "0 \<le> sint a mod sint b"
    using assms by (simp_all add: zmod_le_nonneg_dividend)
  then have "in64 (sint a mod sint b)"
    using sint64_bounds [of a] by (simp only: in64_def) linarith
  then show ?thesis
    using assms by (simp add: go_rem_def smod_nonneg i64 wrap64_id)
qed

section \<open>Strings\<close>

text \<open>
  Strings are byte strings. \<^verbatim>\<open>TrimSpace\<close> and \<^verbatim>\<open>ToLower\<close> are given on the ASCII range:
  the two-byte encodings of the Unicode spaces U+0085 and U+00A0 and the multi-byte
  spaces are ordinary characters here.
\<close>

definition is_space :: "char \<Rightarrow> bool" where
  "is_space c = (c \<in> set [CHR 0x09, CHR 0x0A, CHR 0x0B, CHR 0x0C, CHR 0x0D, CHR '' ''])"

definition TrimSpace :: "string \<Rightarrow> string" where
  "TrimSpace s = rev (dropWhile is_space (rev (dropWhile is_space s)))"

definition lower_char :: "char \<Rightarrow> char" where
  "lower_char c = (let n = of_char c :: nat in
     if 65 \<le> n \<and> n \<le> 90 then char_of (n + 32) else c)"

definition ToLower :: "string \<Rightarrow> string" where
  "ToLower s = map lower_char s"

definition ToUpper :: "string \<Rightarrow> string" where
  "ToUpper s = map (\<lambda>c. let n = of_char c :: nat in
     if 97 \<le> n \<and> n \<le> 122 then char_of (n - 32) else c) s"

lemma lower_char_idem [simp]: "lower_char (lower_char c) = lower_char c"
  by (auto simp: lower_char_def Let_def)

lemma ToLower_idem [simp]: "ToLower (ToLower s) = ToLower s"
  by (simp add: ToLower_def)

lemma dropWhile_idem_rev:
  "dropWhile P (rev (dropWhile P (rev (dropWhile P s)))) = rev (dropWhile P (rev (dropWhile P s)))"
proof (cases "dropWhile P s")
  case Nil
  show ?thesis unfolding Nil by simp
next
  case (Cons x xs)
  then have x: "\<not> P x"
    using hd_dropWhile [of P s] by (simp only: list.distinct list.sel not_False_eq_True)
  have "dropWhile P (rev xs @ [x]) = dropWhile P (rev xs) @ [x]"
    by (rule dropWhile_append3 [of P, OF x])
  then show ?thesis
    unfolding Cons using x by (simp only: rev.simps rev_append append.simps) simp
qed

lemma TrimSpace_idem [simp]: "TrimSpace (TrimSpace s) = TrimSpace s"
  by (simp add: TrimSpace_def dropWhile_idem_rev)

section \<open>Interfaces shared by the components\<close>

text \<open>
  A component whose operations are functions on its state: every operation keeps the
  component's invariant, hence so does any sequence of operations, in any order.
\<close>

locale invariant_machine =
  fixes step :: "'op \<Rightarrow> 's \<Rightarrow> 's"
    and inv :: "'s \<Rightarrow> bool"
  assumes step_inv: "inv s \<Longrightarrow> inv (step e s)"
begin

lemma run_inv: "inv s \<Longrightarrow> inv (fold step es s)"
  by (induction es arbitrary: s) (simp_all add: step_inv)

lemma run_inv_everywhere: "inv s \<Longrightarrow> inv (fold step (take n es) s)"
  by (rule run_inv)

end

text \<open>
  A component that several transactions advance: the states reached from an initial state
  by any interleaving of its steps.
\<close>

inductive reach :: "('s \<Rightarrow> bool) \<Rightarrow> ('s \<Rightarrow> 's \<Rightarrow> bool) \<Rightarrow> 's \<Rightarrow> bool"
  for init :: "'s \<Rightarrow> bool" and step :: "'s \<Rightarrow> 's \<Rightarrow> bool" where
  reach_init: "init s \<Longrightarrow> reach init step s"
| reach_step: "reach init step s \<Longrightarrow> step s t \<Longrightarrow> reach init step t"

locale safe_system =
  fixes init :: "'s \<Rightarrow> bool"
    and step :: "'s \<Rightarrow> 's \<Rightarrow> bool"
    and inv :: "'s \<Rightarrow> bool"
  assumes init_inv: "init s \<Longrightarrow> inv s"
    and step_inv: "inv s \<Longrightarrow> step s t \<Longrightarrow> inv t"
begin

lemma reach_inv: "reach init step s \<Longrightarrow> inv s"
  by (induction rule: reach.induct) (auto intro: init_inv step_inv)

end

text \<open>
  An accumulator that pays out whole units and carries the rest. \<^verbatim>\<open>accrue a s\<close> absorbs
  the amount \<^verbatim>\<open>a\<close> and returns the number of units payable now. The provider promises that
  one step neither loses nor creates anything and keeps the carry below one unit; the
  client gets the same for a whole history, and that the units paid depend on the total
  absorbed only, not on how it was cut into steps.
\<close>

fun accrue_all :: "('a \<Rightarrow> 's \<Rightarrow> (int \<times> 's) result) \<Rightarrow> 'a list \<Rightarrow> 's \<Rightarrow> (int \<times> 's) result" where
  "accrue_all f [] s = Inr (0, s)"
| "accrue_all f (a # as) s =
     bind_result (f a s) (\<lambda>(p, s').
       bind_result (accrue_all f as s') (\<lambda>(q, s''). Inr (p + q, s'')))"

locale conserving_carry =
  fixes accrue :: "'a \<Rightarrow> 's \<Rightarrow> (int \<times> 's) result"
    and worth :: "'a \<Rightarrow> int"
    and carried :: "'s \<Rightarrow> int"
    and unit_size :: int
    and ok :: "'s \<Rightarrow> bool"
  assumes unit_pos: "0 < unit_size"
    and carried_bounds: "ok s \<Longrightarrow> 0 \<le> carried s \<and> carried s < unit_size"
    and accrue_ok: "ok s \<Longrightarrow> accrue a s = Inr (p, s') \<Longrightarrow> ok s'"
    and accrue_conserves:
      "ok s \<Longrightarrow> accrue a s = Inr (p, s') \<Longrightarrow> carried s + worth a = unit_size * p + carried s'"
begin

lemma accrue_all_ok: "ok s \<Longrightarrow> accrue_all accrue as s = Inr (p, s') \<Longrightarrow> ok s'"
  by (induction as arbitrary: s p) (auto dest: accrue_ok)

lemma accrue_all_conserves:
  "ok s \<Longrightarrow> accrue_all accrue as s = Inr (p, s') \<Longrightarrow>
     carried s + sum_list (map worth as) = unit_size * p + carried s'"
proof (induction as arbitrary: s p)
  case Nil
  then show ?case by simp
next
  case (Cons a as)
  from Cons.prems(2) obtain p1 s1 p2
    where step: "accrue a s = Inr (p1, s1)"
      and rest: "accrue_all accrue as s1 = Inr (p2, s')" and p: "p = p1 + p2"
    by auto
  from Cons.prems(1) step have "ok s1" by (rule accrue_ok)
  from Cons.IH [OF this rest] accrue_conserves [OF Cons.prems(1) step] p
  show ?case by (simp add: distrib_left)
qed

lemma accrue_all_cadence:
  assumes "ok s" and "accrue_all accrue as s = Inr (p, s')"
  shows "p = (carried s + sum_list (map worth as)) div unit_size"
    and "carried s' = (carried s + sum_list (map worth as)) mod unit_size"
proof -
  have eq: "carried s + sum_list (map worth as) = unit_size * p + carried s'"
    using assms by (rule accrue_all_conserves)
  moreover have "0 \<le> carried s' \<and> carried s' < unit_size"
    using accrue_all_ok [OF assms] by (rule carried_bounds)
  ultimately show "p = (carried s + sum_list (map worth as)) div unit_size"
    "carried s' = (carried s + sum_list (map worth as)) mod unit_size"
    using unit_pos by simp_all
qed

end

text \<open>
  Currency-bound amounts with checked addition and subtraction. \<^verbatim>\<open>amount\<close> reads the
  number, \<^verbatim>\<open>compatible\<close> is the currency test. The client's lemmas: a list of amounts added
  up one by one either gives the exact mathematical sum or an error, never a wrapped sum.
\<close>

fun sum_checked :: "('m \<Rightarrow> 'm \<Rightarrow> 'm result) \<Rightarrow> 'm \<Rightarrow> 'm list \<Rightarrow> 'm result" where
  "sum_checked add m [] = Inr m"
| "sum_checked add m (x # xs) = bind_result (add m x) (\<lambda>s. sum_checked add s xs)"

locale checked_money =
  fixes add :: "'m \<Rightarrow> 'm \<Rightarrow> 'm result"
    and amount :: "'m \<Rightarrow> int"
    and compatible :: "'m \<Rightarrow> 'm \<Rightarrow> bool"
  assumes add_defined: "isOK (add m n) \<longleftrightarrow> compatible m n \<and> in64 (amount m + amount n)"
    and add_exact: "add m n = Inr s \<Longrightarrow> amount s = amount m + amount n"
    and add_compatible: "add m n = Inr s \<Longrightarrow> compatible s x = compatible m x"
begin

lemma sum_exact: "sum_checked add m xs = Inr s \<Longrightarrow> amount s = amount m + sum_list (map amount xs)"
  by (induction xs arbitrary: m) (auto dest!: add_exact)

lemma sum_defined:
  assumes "\<forall>x\<in>set xs. compatible m x"
    and "\<forall>k\<le>length xs. in64 (amount m + sum_list (map amount (take k xs)))"
  shows "isOK (sum_checked add m xs)"
  using assms
proof (induction xs arbitrary: m)
  case Nil
  then show ?case by simp
next
  case (Cons x xs)
  from Cons.prems(2) [rule_format, of 1] have "in64 (amount m + amount x)" by simp
  with Cons.prems(1) have "isOK (add m x)" by (simp add: add_defined)
  then obtain s where s: "add m x = Inr s" by (auto simp: isOK_iff)
  have "\<forall>k\<le>length xs. in64 (amount s + sum_list (map amount (take k xs)))"
  proof (intro allI impI)
    fix k assume "k \<le> length xs"
    with Cons.prems(2) [rule_format, of "Suc k"]
    show "in64 (amount s + sum_list (map amount (take k xs)))"
      by (simp add: add_exact [OF s] add.assoc)
  qed
  then have "isOK (sum_checked add s xs)"
    using Cons.prems(1) s by (intro Cons.IH) (simp_all add: add_compatible)
  with s show ?case by simp
qed

end

end
