(* ===== verification/Sql_Tx.thy ===== *)
theory Sql_Tx
  imports Go_Prelude
begin

text \<open>
  What the stores of the control plane use of PostgreSQL through pgx: \<^verbatim>\<open>bigint\<close> columns whose
  arithmetic raises an error instead of wrapping, tables as lists of rows with
  \<^verbatim>\<open>UPDATE ... WHERE\<close> and its affected-row count, and transactions. A statement that fails
  puts its transaction in the aborted state, in which every further statement fails; a
  function that returns an error, and a commit of an aborted transaction, leave the database
  as it was.
\<close>

section \<open>Columns\<close>

type_synonym uuid = "128 word"

abbreviation uuid_Nil :: uuid where "uuid_Nil \<equiv> 0"

abbreviation "errOutOfRange \<equiv> Sentinel ''SQLSTATE 22003''"
abbreviation "errUniqueViolation \<equiv> Sentinel ''SQLSTATE 23505''"
abbreviation "errInFailedTransaction \<equiv> Sentinel ''SQLSTATE 25P02''"

definition sql_bigint :: "int \<Rightarrow> int64 result" where
  "sql_bigint k = (if in64 k then Inr (word_of_int k) else Inl errOutOfRange)"

definition sql_add :: "int64 \<Rightarrow> int64 \<Rightarrow> int64 result" where
  "sql_add a b = sql_bigint (sint a + sint b)"

definition sql_sub :: "int64 \<Rightarrow> int64 \<Rightarrow> int64 result" where
  "sql_sub a b = sql_bigint (sint a - sint b)"

lemma sql_bigint_Inr [simp]: "sql_bigint k = Inr c \<longleftrightarrow> sint c = k"
  by (auto simp: sql_bigint_def sint64_of_int_in64)

lemma sql_add_Inr [simp]: "sql_add a b = Inr c \<longleftrightarrow> sint c = sint a + sint b"
  by (simp add: sql_add_def)

lemma sql_sub_Inr [simp]: "sql_sub a b = Inr c \<longleftrightarrow> sint c = sint a - sint b"
  by (simp add: sql_sub_def)

lemma sql_add_defined: "in64 (sint a + sint b) \<Longrightarrow> \<exists>c. sql_add a b = Inr c \<and> sint c = sint a + sint b"
  by (metis sint64_of_int_in64 sql_add_Inr)

lemma sql_sub_defined: "in64 (sint a - sint b) \<Longrightarrow> \<exists>c. sql_sub a b = Inr c \<and> sint c = sint a - sint b"
  by (metis sint64_of_int_in64 sql_sub_Inr)

section \<open>Tables\<close>

text \<open>\<^verbatim>\<open>UPDATE t SET set WHERE cond\<close>: the number of rows updated and the new table.\<close>

fun update_where :: "('r \<Rightarrow> bool result) \<Rightarrow> ('r \<Rightarrow> 'r result) \<Rightarrow> 'r list \<Rightarrow> (nat \<times> 'r list) result" where
  "update_where cond upd [] = Inr (0, [])"
| "update_where cond upd (r # rs) =
     bind_result (cond r) (\<lambda>hit.
     bind_result (if hit then upd r else Inr r) (\<lambda>r'.
     bind_result (update_where cond upd rs) (\<lambda>(n, rs').
       Inr ((if hit then n + 1 else n), r' # rs'))))"

definition replace_row :: "('r \<Rightarrow> 'k) \<Rightarrow> 'r \<Rightarrow> 'r list \<Rightarrow> 'r list" where
  "replace_row key r' rs = map (\<lambda>r. if key r = key r' then r' else r) rs"

text \<open>An update addressed by a primary key touches at most one row.\<close>

lemma update_where_other:
  "\<forall>r\<in>set rs. cond r = Inr False \<Longrightarrow> update_where cond upd rs = Inr (0, rs)"
  by (induction rs) auto

lemma replace_row_other: "\<forall>r\<in>set rs. key r \<noteq> key r' \<Longrightarrow> replace_row key r' rs = rs"
  by (induction rs) (auto simp: replace_row_def)

lemma update_where_key:
  assumes "distinct (map key rs)" and "r \<in> set rs"
    and off: "\<And>s. s \<in> set rs \<Longrightarrow> key s \<noteq> key r \<Longrightarrow> cond s = Inr False"
    and same: "\<And>r'. upd r = Inr r' \<Longrightarrow> key r' = key r"
  shows "update_where cond upd rs =
    bind_result (cond r) (\<lambda>hit. if hit
      then bind_result (upd r) (\<lambda>r'. Inr (1, replace_row key r' rs)) else Inr (0, rs))"
  using assms(1,2) off
proof (induction rs)
  case Nil
  then show ?case by simp
next
  case (Cons x xs)
  show ?case
  proof (cases "x = r")
    case True
    with Cons.prems(1) have other: "\<forall>s\<in>set xs. key s \<noteq> key r" by (auto simp: image_iff dest: sym)
    with Cons.prems(3) have "update_where cond upd xs = Inr (0, xs)"
      by (intro update_where_other) auto
    moreover have "replace_row key r' (r # xs) = r' # xs" if "upd r = Inr r'" for r'
      using replace_row_other [of xs key r'] other same [OF that] by (simp add: replace_row_def)
    ultimately show ?thesis
      unfolding True by (cases "cond r"; cases "upd r") simp_all
  next
    case False
    with Cons.prems have r: "r \<in> set xs" and k: "key x \<noteq> key r" by (auto simp: distinct_map dest: inj_onD)
    then have "cond x = Inr False" using Cons.prems(3) by simp
    moreover have "update_where cond upd xs =
        bind_result (cond r) (\<lambda>hit. if hit
          then bind_result (upd r) (\<lambda>r'. Inr (1, replace_row key r' xs)) else Inr (0, xs))"
      using Cons.prems r by (intro Cons.IH) simp_all
    moreover have "replace_row key r' (x # xs) = x # replace_row key r' xs" if "upd r = Inr r'" for r'
      using k same [OF that] by (simp add: replace_row_def)
    ultimately show ?thesis by (cases "cond r"; cases "upd r") simp_all
  qed
qed

lemma update_where_missing:
  assumes "\<And>s. s \<in> set rs \<Longrightarrow> cond s = Inr False"
  shows "update_where cond upd rs = Inr (0, rs)"
  using assms by (intro update_where_other) blast

lemma update_where_keyed_cases:
  assumes "distinct (map key rs)"
    and off: "\<And>s. key s \<noteq> k \<Longrightarrow> cond s = Inr False"
    and same: "\<And>r r'. upd r = Inr r' \<Longrightarrow> key r' = key r"
    and "update_where cond upd rs = Inr (n, rs')"
  obtains (none) "n = 0" "rs' = rs" "\<And>r. r \<in> set rs \<Longrightarrow> cond r = Inr False"
  | (one) r r' where "r \<in> set rs" "key r = k" "cond r = Inr True" "upd r = Inr r'" "key r' = k" "n = 1"
      "rs' = replace_row key r' rs"
proof (cases "\<exists>r\<in>set rs. key r = k")
  case False
  then have "\<And>r. r \<in> set rs \<Longrightarrow> cond r = Inr False" using off by blast
  with assms(4) show ?thesis using none by (simp add: update_where_missing)
next
  case True
  then obtain r where r: "r \<in> set rs" "key r = k" by blast
  have "update_where cond upd rs =
    bind_result (cond r) (\<lambda>hit. if hit
      then bind_result (upd r) (\<lambda>r'. Inr (1, replace_row key r' rs)) else Inr (0, rs))"
    using assms(1) r off same by (intro update_where_key) auto
  with assms(4) consider (no) "cond r = Inr False" "n = 0" "rs' = rs"
    | (yes) r' where "cond r = Inr True" "upd r = Inr r'" "n = 1" "rs' = replace_row key r' rs"
    by (auto split: if_splits)
  then show ?thesis
  proof cases
    case no
    have "x = r" if "x \<in> set rs" "key x = k" for x
      using assms(1) r that by (auto simp: distinct_map dest: inj_onD)
    with no off have "\<And>x. x \<in> set rs \<Longrightarrow> cond x = Inr False" by metis
    with no show ?thesis using none by blast
  next
    case yes
    with r same show ?thesis using one by blast
  qed
qed

lemma map_key_replace_row [simp]: "map key (replace_row key r' rs) = map key rs"
  by (simp add: replace_row_def cong: map_cong)

lemma length_replace_row [simp]: "length (replace_row key r' rs) = length rs"
  by (simp add: replace_row_def)

lemma in_replace_row:
  assumes "distinct (map key rs)" and "r \<in> set rs" and "key r' = key r"
  shows "x \<in> set (replace_row key r' rs) \<longleftrightarrow> x = r' \<or> (x \<in> set rs \<and> x \<noteq> r)"
proof -
  have "s = r" if "s \<in> set rs" "key s = key r" for s
    using assms(1,2) that by (auto simp: distinct_map dest: inj_onD)
  with assms(2,3) show ?thesis by (auto simp: replace_row_def image_iff)
qed

lemma sum_replace_row:
  fixes w :: "'r \<Rightarrow> int"
  assumes "distinct (map key rs)" and "r \<in> set rs" and "key r' = key r"
  shows "(\<Sum>x\<leftarrow>replace_row key r' rs. w x) = (\<Sum>x\<leftarrow>rs. w x) - w r + w r'"
  using assms
proof (induction rs)
  case Nil
  then show ?case by simp
next
  case (Cons x xs)
  show ?case
  proof (cases "x = r")
    case True
    with Cons.prems have "\<forall>s\<in>set xs. key s \<noteq> key r'" by (auto simp: image_iff dest: sym)
    then have "replace_row key r' xs = xs" by (rule replace_row_other)
    with True Cons.prems show ?thesis by (simp add: replace_row_def)
  next
    case False
    with Cons.prems have "r \<in> set xs" "key x \<noteq> key r" by auto
    with Cons show ?thesis by (simp add: replace_row_def)
  qed
qed

lemma set_map_filter: "set (List.map_filter f xs) = {y. \<exists>x\<in>set xs. f x = Some y}"
  by (induction xs) (auto simp: map_filter_simps split: option.split)

lemma find_unique_index:
  "distinct (List.map_filter f xs) \<Longrightarrow> s \<in> set xs \<Longrightarrow> f s = Some c \<Longrightarrow>
     find (\<lambda>r. f r = Some c) xs = Some s"
  by (induction xs) (auto simp: map_filter_simps set_map_filter split: option.splits)

text \<open>A unique index over a nullable column: filling one null with a fresh value.\<close>

lemma distinct_map_filter_replace_row:
  assumes "distinct (map key rs)" and "r \<in> set rs" and "key r' = key r" and "f r = None" and "f r' = Some c"
    and "\<forall>x\<in>set rs. f x \<noteq> Some c" and "distinct (List.map_filter f rs)"
  shows "distinct (List.map_filter f (replace_row key r' rs))"
  using assms
proof (induction rs)
  case Nil
  then show ?case by simp
next
  case (Cons x xs)
  show ?case
  proof (cases "x = r")
    case True
    with Cons.prems have "\<forall>s\<in>set xs. key s \<noteq> key r'" by (auto simp: image_iff dest: sym)
    then have "replace_row key r' (x # xs) = r' # xs"
      using True Cons.prems(3) by (simp add: replace_row_def cong: map_cong)
    then show ?thesis
      using True Cons.prems by (auto simp: map_filter_simps set_map_filter)
  next
    case False
    with Cons.prems(1-3) have r: "r \<in> set xs" and "key x \<noteq> key r'" by (auto simp: image_iff)
    then have eq: "replace_row key r' (x # xs) = x # replace_row key r' xs" by (simp add: replace_row_def)
    have "distinct (List.map_filter f (replace_row key r' xs))"
      using Cons.prems r by (intro Cons.IH) (auto simp: map_filter_simps split: option.splits)
    then show ?thesis
      unfolding eq using Cons.prems r
      by (auto simp: map_filter_simps set_map_filter in_replace_row split: option.splits)
  qed
qed

lemma sum_list_all_zero: "(\<And>x. x \<in> set xs \<Longrightarrow> f x = 0) \<Longrightarrow> (\<Sum>x\<leftarrow>xs. f x) = (0 :: int)"
  by (induction xs) auto

lemma sum_list_member_le:
  fixes w :: "'r \<Rightarrow> int"
  shows "r \<in> set rs \<Longrightarrow> (\<And>x. x \<in> set rs \<Longrightarrow> 0 \<le> w x) \<Longrightarrow> w r \<le> (\<Sum>x\<leftarrow>rs. w x)"
proof (induction rs)
  case (Cons x xs)
  have "0 \<le> (\<Sum>x\<leftarrow>xs. w x)" using Cons.prems by (intro sum_list_nonneg) auto
  with Cons show ?case by force
qed simp

section \<open>Transactions\<close>

record 'db tx =
  tx_db :: 'db
  tx_aborted :: bool

type_synonym ('db, 'a) txop = "'db tx \<Rightarrow> 'a result \<times> 'db tx"

definition tx_return :: "'a \<Rightarrow> ('db, 'a) txop" where
  "tx_return a t = (Inr a, t)"

definition tx_fail :: "go_error \<Rightarrow> ('db, 'a) txop" where
  "tx_fail e t = (Inl e, t)"

definition tx_bind :: "('db, 'a) txop \<Rightarrow> ('a \<Rightarrow> ('db, 'b) txop) \<Rightarrow> ('db, 'b) txop" where
  "tx_bind m f t = (case m t of (Inl e, t') \<Rightarrow> (Inl e, t') | (Inr a, t') \<Rightarrow> f a t')"

text \<open>The code looks at the error of a call before it goes on.\<close>

definition tx_handle :: "('db, 'a) txop \<Rightarrow> (go_error \<Rightarrow> ('db, 'b) txop) \<Rightarrow> ('a \<Rightarrow> ('db, 'b) txop) \<Rightarrow> ('db, 'b) txop" where
  "tx_handle m h f t = (case m t of (Inl e, t') \<Rightarrow> h e t' | (Inr a, t') \<Rightarrow> f a t')"

definition tx_stmt :: "('db \<Rightarrow> ('a \<times> 'db) result) \<Rightarrow> ('db, 'a) txop" where
  "tx_stmt st t =
     (if tx_aborted t then (Inl errInFailedTransaction, t)
      else case st (tx_db t) of
          Inl e \<Rightarrow> (Inl e, t\<lparr>tx_aborted := True\<rparr>)
        | Inr (a, d) \<Rightarrow> (Inr a, t\<lparr>tx_db := d\<rparr>))"

definition tx_query :: "('db \<Rightarrow> 'a) \<Rightarrow> ('db, 'a) txop" where
  "tx_query q = tx_stmt (\<lambda>d. Inr (q d, d))"

text \<open>\<^verbatim>\<open>Begin\<close>, the body, then \<^verbatim>\<open>Commit\<close>, or the deferred \<^verbatim>\<open>Rollback\<close>.\<close>

definition run_tx :: "('db, 'a) txop \<Rightarrow> 'db \<Rightarrow> 'a result \<times> 'db" where
  "run_tx m d =
     (case m \<lparr>tx_db = d, tx_aborted = False\<rparr> of
        (Inl e, _) \<Rightarrow> (Inl e, d)
      | (Inr a, t) \<Rightarrow>
          if tx_aborted t then (Inl (Sentinel ''pgx.ErrTxCommitRollback''), d) else (Inr a, tx_db t))"

fun tx_foldM :: "('x \<Rightarrow> 'a \<Rightarrow> ('db, 'a) txop) \<Rightarrow> 'x list \<Rightarrow> 'a \<Rightarrow> ('db, 'a) txop" where
  "tx_foldM f [] a = tx_return a"
| "tx_foldM f (x # xs) a = tx_bind (f x a) (\<lambda>b. tx_foldM f xs b)"

named_theorems tx_simps \<open>symbolic execution of transactions\<close>

lemma tx_exec [tx_simps]:
  "tx_return a t = (Inr a, t)"
  "tx_fail e t = (Inl e, t)"
  "tx_bind m f t = (case m t of (Inl e, t') \<Rightarrow> (Inl e, t') | (Inr a, t') \<Rightarrow> f a t')"
  "tx_handle m h g t = (case m t of (Inl e, t') \<Rightarrow> h e t' | (Inr a, t') \<Rightarrow> g a t')"
  by (simp_all add: tx_return_def tx_fail_def tx_bind_def tx_handle_def)

lemma tx_bind_ok:
  "tx_bind m f t = (Inr b, t') \<longleftrightarrow> (\<exists>a t1. m t = (Inr a, t1) \<and> f a t1 = (Inr b, t'))"
  by (auto simp: tx_bind_def split: prod.splits sum.splits)

lemma tx_stmt_ok:
  "tx_stmt st t = (Inr a, t') \<longleftrightarrow>
     \<not> tx_aborted t \<and> (\<exists>d. st (tx_db t) = Inr (a, d) \<and> t' = t\<lparr>tx_db := d\<rparr>)"
  by (auto simp: tx_stmt_def split: sum.splits prod.splits)

lemma tx_query_ok:
  "tx_query q t = (Inr a, t') \<longleftrightarrow> \<not> tx_aborted t \<and> a = q (tx_db t) \<and> t' = t"
  by (auto simp: tx_query_def tx_stmt_ok)

lemma tx_return_ok: "tx_return a t = (Inr b, t') \<longleftrightarrow> b = a \<and> t' = t"
  by (auto simp: tx_return_def)

lemma tx_fail_ok: "tx_fail e t = (Inr b, t') \<longleftrightarrow> False"
  by (simp add: tx_fail_def)

lemmas tx_oks = tx_bind_ok tx_stmt_ok tx_query_ok tx_return_ok tx_fail_ok

lemma run_tx_ok:
  "run_tx m d = (Inr a, d') \<longleftrightarrow>
     (\<exists>t. m \<lparr>tx_db = d, tx_aborted = False\<rparr> = (Inr a, t) \<and> \<not> tx_aborted t \<and> d' = tx_db t)"
  by (auto simp: run_tx_def split: prod.splits sum.splits if_splits)

lemma run_tx_error: "run_tx m d = (Inl e, d') \<Longrightarrow> d' = d"
  by (auto simp: run_tx_def split: prod.splits sum.splits if_splits)

text \<open>
  What no statement undoes: an operation moves the tables along the preorder \<open>R\<close>, whether it
  succeeds or not.
\<close>

definition tx_mono :: "('db \<Rightarrow> 'db \<Rightarrow> bool) \<Rightarrow> ('db, 'a) txop \<Rightarrow> bool" where
  "tx_mono R m = (\<forall>t r t'. m t = (r, t') \<longrightarrow> R (tx_db t) (tx_db t'))"

lemma tx_monoI: "(\<And>t r t'. m t = (r, t') \<Longrightarrow> R (tx_db t) (tx_db t')) \<Longrightarrow> tx_mono R m"
  by (simp add: tx_mono_def)

lemma tx_monoD: "tx_mono R m \<Longrightarrow> m t = (r, t') \<Longrightarrow> R (tx_db t) (tx_db t')"
  by (simp add: tx_mono_def)

named_theorems tx_monos \<open>composition rules for operations along a preorder\<close>

lemma tx_mono_stmt [tx_monos]:
  "reflp R \<Longrightarrow> (\<And>d a d'. st d = Inr (a, d') \<Longrightarrow> R d d') \<Longrightarrow> tx_mono R (tx_stmt st)"
  by (auto simp: tx_mono_def tx_stmt_def reflp_def split: if_splits sum.splits prod.splits)

lemma tx_mono_query [tx_monos]: "reflp R \<Longrightarrow> tx_mono R (tx_query q)"
  unfolding tx_query_def by (rule tx_mono_stmt) (auto dest: reflpD)

lemma tx_mono_return [tx_monos]: "reflp R \<Longrightarrow> tx_mono R (tx_return a)"
  by (auto simp: tx_mono_def tx_return_def reflp_def)

lemma tx_mono_fail [tx_monos]: "reflp R \<Longrightarrow> tx_mono R (tx_fail e)"
  by (auto simp: tx_mono_def tx_fail_def reflp_def)

lemma tx_mono_handle [tx_monos]:
  assumes "transp R" and m: "tx_mono R m" and h: "\<And>e. tx_mono R (h e)" and f: "\<And>a. tx_mono R (f a)"
  shows "tx_mono R (tx_handle m h f)"
proof (rule tx_monoI)
  fix t r t' assume ok: "tx_handle m h f t = (r, t')"
  obtain x t1 where x: "m t = (x, t1)" by (cases "m t")
  have "R (tx_db t1) (tx_db t')"
    using ok x by (cases x) (auto simp: tx_handle_def intro: tx_monoD [OF h] tx_monoD [OF f])
  then show "R (tx_db t) (tx_db t')" using tx_monoD [OF m x] assms(1) by (auto dest: transpD)
qed

lemma tx_bind_as_handle: "tx_bind m f = tx_handle m tx_fail f"
  by (simp add: fun_eq_iff tx_bind_def tx_handle_def tx_fail_def split: prod.split sum.split)

lemma tx_mono_bind [tx_monos]:
  "reflp R \<Longrightarrow> transp R \<Longrightarrow> tx_mono R m \<Longrightarrow> (\<And>a. tx_mono R (f a)) \<Longrightarrow> tx_mono R (tx_bind m f)"
  unfolding tx_bind_as_handle by (intro tx_mono_handle tx_mono_fail)

lemma tx_mono_if [tx_monos]:
  "(b \<Longrightarrow> tx_mono R m) \<Longrightarrow> (\<not> b \<Longrightarrow> tx_mono R n) \<Longrightarrow> tx_mono R (if b then m else n)"
  by simp

lemma tx_mono_option [tx_monos]:
  "tx_mono R m \<Longrightarrow> (\<And>x. tx_mono R (f x)) \<Longrightarrow> tx_mono R (case x of None \<Rightarrow> m | Some y \<Rightarrow> f y)"
  by (cases x) simp_all

lemma tx_mono_sum [tx_monos]:
  "(\<And>e. tx_mono R (f e)) \<Longrightarrow> (\<And>x. tx_mono R (g x)) \<Longrightarrow> tx_mono R (case x of Inl e \<Rightarrow> f e | Inr y \<Rightarrow> g y)"
  by (cases x) simp_all

lemma tx_mono_foldM [tx_monos]:
  "reflp R \<Longrightarrow> transp R \<Longrightarrow> (\<And>x a. tx_mono R (f x a)) \<Longrightarrow> tx_mono R (tx_foldM f xs a)"
  by (induction xs arbitrary: a) (simp_all add: tx_mono_return tx_mono_bind)

lemma run_tx_mono:
  assumes "reflp R" and "tx_mono R m"
  shows "R d (snd (run_tx m d))"
proof -
  obtain r t where m: "m \<lparr>tx_db = d, tx_aborted = False\<rparr> = (r, t)" by (cases "m \<lparr>tx_db = d, tx_aborted = False\<rparr>")
  have "R d d" using assms(1) by (rule reflpD)
  moreover have "R d (tx_db t)" using tx_monoD [OF assms(2) m] by simp
  ultimately show ?thesis by (cases r) (simp_all add: run_tx_def m)
qed

lemma update_where_map:
  assumes "\<And>r r'. upd r = Inr r' \<Longrightarrow> f r' = f r" and "update_where cond upd rs = Inr (n, rs')"
  shows "map f rs' = map f rs"
  using assms(2)
proof (induction rs arbitrary: n rs')
  case Nil
  then show ?case by simp
next
  case (Cons r rs)
  then obtain hit r1 m rs1 where "(if hit then upd r else Inr r) = Inr r1"
    and rest: "update_where cond upd rs = Inr (m, rs1)" and rs': "rs' = r1 # rs1"
    by auto
  then have "f r1 = f r" by (cases hit) (simp_all add: assms(1))
  with Cons.IH [OF rest] rs' show ?case by simp
qed

text \<open>
  The interface of the stores: an operation is a transaction, and what the client needs to
  know of it is that a committed run keeps the consistency of the tables; refused runs keep
  it because they are rolled back.
\<close>

locale consistent_store =
  fixes body :: "'op \<Rightarrow> ('db, 'a) txop"
    and consistent :: "'db \<Rightarrow> bool"
  assumes commit_consistent:
    "consistent d \<Longrightarrow> body e \<lparr>tx_db = d, tx_aborted = False\<rparr> = (Inr a, t) \<Longrightarrow>
       \<not> tx_aborted t \<Longrightarrow> consistent (tx_db t)"
begin

lemma run_consistent: "consistent d \<Longrightarrow> consistent (snd (run_tx (body e) d))"
proof (cases "run_tx (body e) d")
  case (Pair r d')
  assume d: "consistent d"
  have "consistent d'"
  proof (cases r)
    case (Inl x)
    with Pair d show ?thesis by (auto dest: run_tx_error)
  next
    case (Inr a)
    with Pair d show ?thesis by (auto simp: run_tx_ok dest: commit_consistent)
  qed
  with Pair show ?thesis by simp
qed

lemma history_mono:
  assumes "reflp R" and "transp R" and "\<And>e. tx_mono R (body e)"
  shows "R d (fold (\<lambda>e d. snd (run_tx (body e) d)) es d)"
proof (induction es arbitrary: d)
  case Nil
  with assms(1) show ?case by (simp add: reflpD)
next
  case (Cons e es)
  have "R d (snd (run_tx (body e) d))" using assms(1,3) by (rule run_tx_mono)
  from transpD [OF assms(2) this Cons] show ?case by simp
qed

lemma history_consistent: "consistent d \<Longrightarrow> consistent (fold (\<lambda>e d. snd (run_tx (body e) d)) es d)"
  by (induction es arbitrary: d) (simp_all add: run_consistent)

end

end
