(* ===== verification/Currency.thy ===== *)
theory Currency
  imports Go_Prelude "HOL-Library.Char_ord" "HOL-Library.List_Lexorder" "HOL-Library.Multiset"
begin

text \<open>
  \<^verbatim>\<open>src/src/control/currency.go\<close>: the closed registry of settlement currencies, the
  conversions between ISO minor units and the ledger's micro-units, the exact decimal
  parser of the cash boundary, currency-tagged minor amounts, and the process-wide
  settlement currency. The float conversion \<^verbatim>\<open>MajorToMinor\<close> is not modelled.
\<close>

section \<open>Currencies\<close>

record Currency =
  cur_code :: string
  cur_exponent :: int

definition zeroCurrency :: Currency where
  "zeroCurrency = \<lparr>cur_code = [], cur_exponent = 0\<rparr>"

abbreviation "errCurrencyMismatch \<equiv> Sentinel ''errCurrencyMismatch''"
abbreviation "errInvalidCurrency \<equiv> Sentinel ''errInvalidCurrency''"
abbreviation "errSettlementCurrency \<equiv> Sentinel ''errSettlementCurrency''"

definition ledgerDecimalPlaces :: int where "ledgerDecimalPlaces = 6"

definition supportedCurrencies :: "(string \<times> Currency) list" where
  "supportedCurrencies =
    [(''usd'', \<lparr>cur_code = ''usd'', cur_exponent = 2\<rparr>),
     (''cad'', \<lparr>cur_code = ''cad'', cur_exponent = 2\<rparr>),
     (''jpy'', \<lparr>cur_code = ''jpy'', cur_exponent = 0\<rparr>)]"

text \<open>
  \<^verbatim>\<open>SupportedCurrencyCodes\<close> collects the keys in Go's unspecified map order, which is the
  argument here, and sorts them with two nested loops: for each \<^verbatim>\<open>i\<close> the inner loop runs
  over the later positions and exchanges \<^verbatim>\<open>out[j]\<close> with \<^verbatim>\<open>out[i]\<close> whenever it is smaller.
  \<^verbatim>\<open>exchange_pass\<close> is the inner loop, returning the final \<^verbatim>\<open>out[i]\<close> and the later positions.
\<close>

fun exchange_pass :: "'a::linorder \<Rightarrow> 'a list \<Rightarrow> 'a \<times> 'a list" where
  "exchange_pass x [] = (x, [])"
| "exchange_pass x (y # ys) =
     (if y < x then (let (m, r) = exchange_pass y ys in (m, x # r))
      else (let (m, r) = exchange_pass x ys in (m, y # r)))"

lemma length_exchange_pass: "exchange_pass x ys = (m, r) \<Longrightarrow> length r = length ys"
  by (induction ys arbitrary: x m r) (auto split: if_splits prod.splits)

function exchange_sort :: "'a::linorder list \<Rightarrow> 'a list" where
  "exchange_sort [] = []"
| "exchange_sort (x # xs) = (case exchange_pass x xs of (m, r) \<Rightarrow> m # exchange_sort r)"
  by pat_completeness auto
termination
  by (relation "measure length") (auto dest: length_exchange_pass [OF sym])

definition SupportedCurrencyCodes :: "string list \<Rightarrow> string list" where
  "SupportedCurrencyCodes map_order = exchange_sort map_order"

definition ParseCurrency :: "string \<Rightarrow> Currency result" where
  "ParseCurrency raw = (let code = ToLower (TrimSpace raw) in
     if code = [] then Inl (Msg ''currency is required'')
     else case map_of supportedCurrencies code of
         None \<Rightarrow> Inl (Msg ''unsupported currency'')
       | Some c \<Rightarrow> Inr c)"

text \<open>\<^verbatim>\<open>MustParseCurrency\<close> panics on an error: \<^const>\<open>None\<close>.\<close>

definition MustParseCurrency :: "string \<Rightarrow> Currency option" where
  "MustParseCurrency raw = (case ParseCurrency raw of Inl _ \<Rightarrow> None | Inr c \<Rightarrow> Some c)"

definition Currency_Valid :: "Currency \<Rightarrow> bool" where
  "Currency_Valid c =
     (if cur_code c = [] then False
      else case map_of supportedCurrencies (cur_code c) of
          None \<Rightarrow> False
        | Some known \<Rightarrow> cur_exponent known = cur_exponent c)"

definition Currency_Code :: "Currency \<Rightarrow> string" where
  "Currency_Code c = cur_code c"

definition Currency_Exponent :: "Currency \<Rightarrow> int" where
  "Currency_Exponent c = cur_exponent c"

definition Currency_Equal :: "Currency \<Rightarrow> Currency \<Rightarrow> bool" where
  "Currency_Equal c other =
     (Currency_Valid c \<and> Currency_Valid other \<and> cur_code c = cur_code other
      \<and> cur_exponent c = cur_exponent other)"

definition Currency_String :: "Currency \<Rightarrow> string" where
  "Currency_String c = (if \<not> Currency_Valid c then ''<invalid-currency>'' else cur_code c)"

text \<open>The loop \<^verbatim>\<open>for i := 0; i < n; i++ { f *= 10 }\<close> started at \<^verbatim>\<open>f = 1\<close>.\<close>

fun times_ten_loop :: "nat \<Rightarrow> int64 \<Rightarrow> int64" where
  "times_ten_loop 0 f = f"
| "times_ten_loop (Suc n) f = times_ten_loop n (f * 10)"

definition MinorUnitsPerMajor :: "Currency \<Rightarrow> int64 result" where
  "MinorUnitsPerMajor c =
     (if \<not> Currency_Valid c then Inl (Msg ''invalid currency'')
      else if cur_exponent c < 0 \<or> cur_exponent c > 6 then Inl (Msg ''unsupported exponent'')
      else Inr (times_ten_loop (nat (cur_exponent c)) 1))"

definition MicrosPerMinorUnit :: "Currency \<Rightarrow> int64 result" where
  "MicrosPerMinorUnit c =
     (if \<not> Currency_Valid c then Inl (Msg ''invalid currency'')
      else if cur_exponent c < 0 \<or> cur_exponent c > ledgerDecimalPlaces
        then Inl (Msg ''exponent exceeds ledger scale'')
      else Inr (times_ten_loop (nat (ledgerDecimalPlaces - cur_exponent c)) 1))"

definition MinorToMicros :: "Currency \<Rightarrow> int64 \<Rightarrow> int64 result" where
  "MinorToMicros c minor = bind_result (MicrosPerMinorUnit c) (\<lambda>factor.
     let maxI = word_of_int maxInt64; minI = - maxI - 1 in
     if (0 <s minor \<and> go_div maxI factor <s minor) \<or> (minor <s 0 \<and> minor <s go_div minI factor)
     then Inl (Msg ''minor amount is outside the ledger range'')
     else Inr (minor * factor))"

section \<open>Exact decimal parsing at the cash boundary\<close>

text \<open>\<^verbatim>\<open>strings.Cut(raw, ".")\<close>: the parts before and after the first dot, and whether there is one.\<close>

fun cut_dot :: "string \<Rightarrow> string \<times> string \<times> bool" where
  "cut_dot [] = ([], [], False)"
| "cut_dot (c # cs) =
     (if c = CHR ''.'' then ([], cs, True)
      else (case cut_dot cs of (before, after, found) \<Rightarrow> (c # before, after, found)))"

definition is_digit :: "char \<Rightarrow> bool" where
  "is_digit c = (48 \<le> (of_char c :: nat) \<and> (of_char c :: nat) \<le> 57)"

definition digit_value :: "char \<Rightarrow> int" where
  "digit_value c = of_nat (of_char c :: nat) - 48"

fun decimal_value :: "int \<Rightarrow> string \<Rightarrow> int" where
  "decimal_value acc [] = acc"
| "decimal_value acc (c # cs) = decimal_value (10 * acc + digit_value c) cs"

text \<open>
  \<^verbatim>\<open>strconv.ParseInt(s, 10, 64)\<close> on a non-empty string of decimal digits, the only
  strings the parser hands it: the value, or a range error above the largest \<^verbatim>\<open>int64\<close>.
\<close>

definition ParseInt_digits :: "string \<Rightarrow> int64 result" where
  "ParseInt_digits s =
     (let v = decimal_value 0 s in
      if maxInt64 < v then Inl (Sentinel ''strconv.ErrRange'') else Inr (word_of_int v))"

text \<open>The second half of the parser: the digits before and after the dot have been accepted.\<close>

definition scaleMajorDigits :: "Currency \<Rightarrow> string \<Rightarrow> string \<Rightarrow> int64 result" where
  "scaleMajorDigits c wholeRaw fractionRaw =
     (case ParseInt_digits wholeRaw of
        Inl _ \<Rightarrow> Inl (Msg ''outside the supported range'')
      | Inr whole \<Rightarrow> bind_result (MinorUnitsPerMajor c) (\<lambda>factor.
          let padded = fractionRaw @ replicate (nat (cur_exponent c) - length fractionRaw) (CHR ''0'')
          in case (if padded \<noteq> [] then ParseInt_digits padded else Inr 0) of
            Inl _ \<Rightarrow> Inl (Msg ''outside the supported range'')
          | Inr fraction \<Rightarrow>
              if go_div (word_of_int maxInt64 - fraction) factor <s whole
              then Inl (Msg ''outside the supported range'')
              else Inr (whole * factor + fraction)))"

definition ParseMajorToMinorExact :: "Currency \<Rightarrow> string \<Rightarrow> int64 result" where
  "ParseMajorToMinorExact c raw0 =
     (if \<not> Currency_Valid c then Inl (Msg ''invalid currency'')
      else let raw = TrimSpace raw0 in
      if raw = [] then Inl (Msg ''amount is required'')
      else case cut_dot raw of (wholeRaw, fractionRaw, hasFraction) \<Rightarrow>
      if wholeRaw = [] \<or> (hasFraction \<and> fractionRaw = []) \<or> CHR ''.'' \<in> set fractionRaw
        then Inl (Msg ''not a decimal major-unit amount'')
      else if \<not> list_all is_digit wholeRaw \<or> \<not> list_all is_digit fractionRaw
        then Inl (Msg ''not a decimal major-unit amount'')
      else if int (length fractionRaw) > cur_exponent c then Inl (Msg ''too many decimal places'')
      else scaleMajorDigits c wholeRaw fractionRaw)"

section \<open>Minor amounts\<close>

record MinorAmount =
  ma_amount :: int64
  ma_currency :: Currency

definition zeroMinorAmount :: MinorAmount where
  "zeroMinorAmount = \<lparr>ma_amount = 0, ma_currency = zeroCurrency\<rparr>"

definition NewMinorAmount :: "int64 \<Rightarrow> Currency \<Rightarrow> MinorAmount result" where
  "NewMinorAmount amount currency =
     (if \<not> Currency_Valid currency then Inl errInvalidCurrency
      else Inr \<lparr>ma_amount = amount, ma_currency = currency\<rparr>)"

definition MustMinorAmount :: "int64 \<Rightarrow> Currency \<Rightarrow> MinorAmount option" where
  "MustMinorAmount amount currency =
     (case NewMinorAmount amount currency of Inl _ \<Rightarrow> None | Inr m \<Rightarrow> Some m)"

definition MinorAmount_Valid :: "MinorAmount \<Rightarrow> bool" where
  "MinorAmount_Valid m = Currency_Valid (ma_currency m)"

definition MinorAmount_Add :: "MinorAmount \<Rightarrow> MinorAmount \<Rightarrow> MinorAmount result" where
  "MinorAmount_Add m other =
     (if \<not> MinorAmount_Valid m \<or> \<not> MinorAmount_Valid other then Inl errInvalidCurrency
      else if \<not> Currency_Equal (ma_currency m) (ma_currency other)
        then Inl (Wrap ''have vs other'' errCurrencyMismatch)
      else let sum = ma_amount m + ma_amount other in
        if (0 <s ma_amount other \<and> sum <s ma_amount m)
           \<or> (ma_amount other <s 0 \<and> ma_amount m <s sum)
        then Inl (Msg ''minor-amount add overflow'')
        else Inr \<lparr>ma_amount = sum, ma_currency = ma_currency m\<rparr>)"

definition MinorAmount_Sub :: "MinorAmount \<Rightarrow> MinorAmount \<Rightarrow> MinorAmount result" where
  "MinorAmount_Sub m other =
     bind_result (NewMinorAmount (- ma_amount other) (ma_currency other))
       (\<lambda>neg. MinorAmount_Add m neg)"

definition SameCurrency :: "MinorAmount \<Rightarrow> MinorAmount \<Rightarrow> bool" where
  "SameCurrency m other =
     (MinorAmount_Valid m \<and> MinorAmount_Valid other
      \<and> Currency_Equal (ma_currency m) (ma_currency other))"

definition RequireCurrency :: "MinorAmount \<Rightarrow> Currency \<Rightarrow> unit result" where
  "RequireCurrency m want =
     (if \<not> MinorAmount_Valid m then Inl errInvalidCurrency
      else if \<not> Currency_Valid want then Inl errInvalidCurrency
      else if \<not> Currency_Equal (ma_currency m) want
        then Inl (Wrap ''have want'' errCurrencyMismatch)
      else Inr ())"

section \<open>The process-wide settlement currency\<close>

text \<open>
  The package variables \<^verbatim>\<open>settlementLoaded\<close> and \<^verbatim>\<open>settlementCurrency\<close>. Every access to the
  pair holds \<^verbatim>\<open>settlementMu\<close>, so each function is one atomic step on the record. The
  environment variable \<^verbatim>\<open>MERC_SETTLEMENT_CURRENCY\<close> is the argument \<^verbatim>\<open>env\<close>, empty when unset.
\<close>

record settlement =
  settlementLoaded :: bool
  settlementCurrency :: Currency

definition initialSettlement :: settlement where
  "initialSettlement = \<lparr>settlementLoaded = False, settlementCurrency = zeroCurrency\<rparr>"

definition setSettlementCurrency :: "Currency \<Rightarrow> settlement \<Rightarrow> settlement" where
  "setSettlementCurrency c st = st\<lparr>settlementCurrency := c, settlementLoaded := True\<rparr>"

definition LoadSettlementCurrencyFromEnv ::
    "string \<Rightarrow> settlement \<Rightarrow> Currency result \<times> settlement" where
  "LoadSettlementCurrencyFromEnv env st =
     (let raw = TrimSpace env in
      if raw = [] then (Inl (Msg ''settlement currency is required''), st)
      else case ParseCurrency raw of
          Inl e \<Rightarrow> (Inl (Wrap ''not a supported settlement currency'' e), st)
        | Inr c \<Rightarrow> (Inr c, setSettlementCurrency c st))"

definition SettlementCurrency :: "settlement \<Rightarrow> Currency result" where
  "SettlementCurrency st =
     (if \<not> settlementLoaded st then Inl errSettlementCurrency
      else if \<not> Currency_Valid (settlementCurrency st) then Inl errSettlementCurrency
      else Inr (settlementCurrency st))"

definition MustSettlementCurrency :: "settlement \<Rightarrow> Currency option" where
  "MustSettlementCurrency st = (case SettlementCurrency st of Inl _ \<Rightarrow> None | Inr c \<Rightarrow> Some c)"

definition SettlementCurrencyCode :: "settlement \<Rightarrow> string" where
  "SettlementCurrencyCode st = (case SettlementCurrency st of Inl _ \<Rightarrow> [] | Inr c \<Rightarrow> Currency_Code c)"

definition RequireSettlementCurrency :: "settlement \<Rightarrow> string \<Rightarrow> unit result" where
  "RequireSettlementCurrency st raw =
     bind_result (SettlementCurrency st) (\<lambda>want.
     bind_result (ParseCurrency raw) (\<lambda>got.
       if \<not> Currency_Equal got want
       then Inl (Wrap ''have want settlement currency'' errCurrencyMismatch) else Inr ()))"

definition IsSettlementCurrency :: "settlement \<Rightarrow> string \<Rightarrow> bool" where
  "IsSettlementCurrency st raw = isOK (RequireSettlementCurrency st raw)"

definition resetSettlementCurrencyForTest :: "settlement \<Rightarrow> settlement" where
  "resetSettlementCurrencyForTest st =
     st\<lparr>settlementCurrency := zeroCurrency, settlementLoaded := False\<rparr>"

section \<open>The registry\<close>

lemma map_of_supported_cases:
  "map_of supportedCurrencies k = Some c \<Longrightarrow>
     cur_code c = k \<and>
     (k = ''usd'' \<and> cur_exponent c = 2 \<or> k = ''cad'' \<and> cur_exponent c = 2 \<or>
      k = ''jpy'' \<and> cur_exponent c = 0)"
  by (auto simp: supportedCurrencies_def split: if_splits)

lemma Currency_Valid_iff:
  "Currency_Valid c \<longleftrightarrow> map_of supportedCurrencies (cur_code c) = Some c"
  by (cases c) (auto simp: Currency_Valid_def supportedCurrencies_def)

lemma Currency_Valid_cases:
  assumes "Currency_Valid c"
  obtains "c = \<lparr>cur_code = ''usd'', cur_exponent = 2\<rparr>"
    | "c = \<lparr>cur_code = ''cad'', cur_exponent = 2\<rparr>"
    | "c = \<lparr>cur_code = ''jpy'', cur_exponent = 0\<rparr>"
  using assms by (auto simp: Currency_Valid_iff supportedCurrencies_def split: if_splits)

lemma Currency_Valid_simps [simp]:
  "Currency_Valid \<lparr>cur_code = ''usd'', cur_exponent = 2\<rparr>"
  "Currency_Valid \<lparr>cur_code = ''cad'', cur_exponent = 2\<rparr>"
  "Currency_Valid \<lparr>cur_code = ''jpy'', cur_exponent = 0\<rparr>"
  "\<not> Currency_Valid zeroCurrency"
  by (simp_all add: Currency_Valid_def supportedCurrencies_def zeroCurrency_def)

lemma Currency_Equal_iff: "Currency_Equal c d \<longleftrightarrow> Currency_Valid c \<and> c = d"
  by (cases c; cases d) (auto simp: Currency_Equal_def)

lemma map_of_supported_iff:
  "map_of supportedCurrencies k = Some c \<longleftrightarrow> Currency_Valid c \<and> k = cur_code c"
proof
  assume k: "map_of supportedCurrencies k = Some c"
  then have "cur_code c = k"
    by (rule map_of_supported_cases [THEN conjunct1])
  with k show "Currency_Valid c \<and> k = cur_code c" by (simp add: Currency_Valid_iff)
qed (simp add: Currency_Valid_iff)

lemma ParseCurrency_Inr:
  "ParseCurrency raw = Inr c \<longleftrightarrow> Currency_Valid c \<and> ToLower (TrimSpace raw) = cur_code c"
proof (cases "ToLower (TrimSpace raw) = []")
  case True
  then show ?thesis by (simp add: ParseCurrency_def Currency_Valid_def)
next
  case False
  then have "ParseCurrency raw = Inr c \<longleftrightarrow> map_of supportedCurrencies (ToLower (TrimSpace raw)) = Some c"
    by (simp add: ParseCurrency_def Let_def split: option.splits)
  then show ?thesis by (simp only: map_of_supported_iff)
qed

text \<open>
  \<^verbatim>\<open>ParseCurrency\<close> and the registry agree: it returns a currency just when the trimmed,
  lower-cased input is the code of a currency the registry holds with that exponent, and
  the code of every valid currency parses back to it.
\<close>

theorem ParseCurrency_correct:
  "(ParseCurrency raw = Inr c \<longleftrightarrow> Currency_Valid c \<and> ToLower (TrimSpace raw) = Currency_Code c)
   \<and> (ParseCurrency (Currency_Code d) = Inr d \<longleftrightarrow> Currency_Valid d)"
proof -
  have "ToLower (TrimSpace (cur_code d)) = cur_code d" if "Currency_Valid d"
    using that
    by (cases rule: Currency_Valid_cases)
      (simp_all add: ToLower_def TrimSpace_def is_space_def lower_char_def Let_def)
  then show ?thesis
    by (auto simp: ParseCurrency_Inr Currency_Code_def)
qed

lemma exchange_pass_spec:
  "exchange_pass x ys = (m, r) \<Longrightarrow>
     mset (m # r) = mset (x # ys) \<and> m \<le> x \<and> (\<forall>z\<in>set r. m \<le> z)"
proof (induction ys arbitrary: x m r)
  case Nil
  then show ?case by simp
next
  case (Cons y ys)
  show ?case
  proof (cases "y < x")
    case True
    with Cons.prems obtain r' where "exchange_pass y ys = (m, r')" and "r = x # r'"
      by (auto split: prod.splits)
    with Cons.IH [of y m r'] True show ?thesis by auto
  next
    case False
    with Cons.prems obtain r' where "exchange_pass x ys = (m, r')" and "r = y # r'"
      by (auto split: prod.splits)
    with Cons.IH [of x m r'] False show ?thesis by auto
  qed
qed

lemma mset_exchange_sort: "mset (exchange_sort xs) = mset xs"
proof (induction xs rule: exchange_sort.induct)
  case 1
  then show ?case by simp
next
  case (2 x xs)
  obtain m r where p: "exchange_pass x xs = (m, r)" by (cases "exchange_pass x xs")
  with 2 [OF p [symmetric]] exchange_pass_spec [OF p] show ?case by simp
qed

lemma sorted_exchange_sort: "sorted (exchange_sort xs)"
proof (induction xs rule: exchange_sort.induct)
  case 1
  then show ?case by simp
next
  case (2 x xs)
  obtain m r where p: "exchange_pass x xs = (m, r)" by (cases "exchange_pass x xs")
  have "set (exchange_sort r) = set r"
    using mset_exchange_sort [of r] by (rule mset_eq_setD)
  with 2 [OF p [symmetric]] exchange_pass_spec [OF p] p show ?case by simp
qed

lemma exchange_sort_eq_sort: "exchange_sort xs = sort xs"
  using mset_exchange_sort [of xs] sorted_exchange_sort [of xs]
  by (metis properties_for_sort)

text \<open>
  Whatever order Go's map iteration yields the registry's keys in, the published list
  of currency codes is the same alphabetical list.
\<close>

theorem SupportedCurrencyCodes_deterministic:
  assumes "mset map_order = mset (map fst supportedCurrencies)"
  shows "SupportedCurrencyCodes map_order = [''cad'', ''jpy'', ''usd'']"
proof -
  have "sort map_order = [''cad'', ''jpy'', ''usd'']"
    using assms by (intro properties_for_sort) (simp_all add: supportedCurrencies_def)
  then show ?thesis by (simp add: SupportedCurrencyCodes_def exchange_sort_eq_sort)
qed

theorem SupportedCurrencyCodes_deterministic_witness:
  "SupportedCurrencyCodes [''jpy'', ''usd'', ''cad''] = [''cad'', ''jpy'', ''usd'']"
  by (rule SupportedCurrencyCodes_deterministic) (simp add: supportedCurrencies_def)

section \<open>Conversions\<close>

lemma MicrosPerMinorUnit_valid:
  "Currency_Valid c \<Longrightarrow> \<exists>f. MicrosPerMinorUnit c = Inr f \<and> sint f = 10 ^ nat (6 - cur_exponent c) \<and> 0 < sint f"
  by (elim Currency_Valid_cases)
    (simp_all add: MicrosPerMinorUnit_def ledgerDecimalPlaces_def eval_nat_numeral)

lemma MinorUnitsPerMajor_valid:
  "Currency_Valid c \<Longrightarrow> \<exists>f. MinorUnitsPerMajor c = Inr f \<and> sint f = 10 ^ nat (cur_exponent c) \<and> 0 < sint f"
  by (elim Currency_Valid_cases) (simp_all add: MinorUnitsPerMajor_def eval_nat_numeral)

text \<open>The guard \<^verbatim>\<open>minor > maxInt64/factor || minor < minInt64/factor\<close> is an exact overflow test.\<close>

lemma scale_guard:
  assumes f: "0 < sint f"
  shows "(0 <s m \<and> go_div (word_of_int maxInt64) f <s m)
      \<or> (m <s 0 \<and> m <s go_div (- word_of_int maxInt64 - 1) f) \<longleftrightarrow> \<not> in64 (sint m * sint f)"
proof -
  have up: "sint (go_div (word_of_int maxInt64) f) = maxInt64 div sint f"
    using f by (subst sint_go_div) (simp_all add: i64 wrap64_id in64_def)
  have sM: "sint (- word_of_int maxInt64 - 1 :: int64) = minInt64" by simp
  have "- 9223372036854775808 \<le> minInt64 sdiv sint f" and "minInt64 sdiv sint f \<le> 0"
    using f int_div_less_self_le [of 9223372036854775808 "sint f"]
    by (simp_all add: signed_divide_int_def sgn_if pos_imp_zdiv_nonneg_iff)
  then have "in64 (minInt64 sdiv sint f)" by (simp add: in64_def)
  then have "sint (go_div (- word_of_int maxInt64 - 1) f) = minInt64 sdiv sint f"
    unfolding go_div_def sM by (rule sint64_of_int_in64)
  also have "\<dots> = - (9223372036854775808 div sint f)"
    using f by (simp add: signed_divide_int_def sgn_if)
  finally have dn: "sint (go_div (- word_of_int maxInt64 - 1) f) = - (9223372036854775808 div sint f)" .
  have hi: "maxInt64 div sint f < sint m \<longleftrightarrow> maxInt64 < sint m * sint f" for m :: int64
    using f by (rule int_div_less_iff)
  have lo: "sint m < - (9223372036854775808 div sint f) \<longleftrightarrow> 9223372036854775808 < - sint m * sint f"
    for m :: int64
    using int_div_less_iff [OF f, of 9223372036854775808 "- sint m"] by linarith
  show ?thesis
  proof (cases "0 \<le> sint m")
    case True
    with f have "0 \<le> sint m * sint f" by simp
    moreover have "0 < sint m" if "maxInt64 < sint m * sint f"
      using that True f by (cases "sint m = 0") auto
    ultimately show ?thesis using True unfolding sless64 up dn hi by (auto simp: in64_def)
  next
    case False
    with f have "sint m * sint f < 0" by (simp add: mult_neg_pos)
    with False show ?thesis unfolding sless64 up dn lo by (auto simp: in64_def)
  qed
qed

text \<open>
  \<^verbatim>\<open>MinorToMicros\<close> is exact: it returns a value just when the currency is valid and the
  mathematical product with \<open>10^(6 - exponent)\<close> fits \<^verbatim>\<open>int64\<close>, and then it returns that product.
\<close>

theorem MinorToMicros_exact:
  "MinorToMicros c minor = Inr v \<longleftrightarrow>
     Currency_Valid c \<and> sint v = sint minor * 10 ^ nat (6 - cur_exponent c)"
proof (cases "Currency_Valid c")
  case False
  then show ?thesis by (simp add: MinorToMicros_def MicrosPerMinorUnit_def)
next
  case True
  then obtain f where f: "MicrosPerMinorUnit c = Inr f"
    and val: "sint f = 10 ^ nat (6 - cur_exponent c)" and pos: "0 < sint f"
    using MicrosPerMinorUnit_valid by blast
  have "MinorToMicros c minor = Inr v \<longleftrightarrow> in64 (sint minor * sint f) \<and> v = minor * f"
    unfolding MinorToMicros_def f bind_result_simps Let_def scale_guard [OF pos] by auto
  also have "\<dots> \<longleftrightarrow> sint v = sint minor * sint f"
    by (rule sint64_mult_iff)
  finally show ?thesis using True val by simp
qed

section \<open>The decimal parser\<close>

lemma decimal_value_append: "decimal_value a (xs @ ys) = decimal_value (decimal_value a xs) ys"
  by (induction xs arbitrary: a) simp_all

lemma decimal_value_zeros: "decimal_value a (replicate n (CHR ''0'')) = a * 10 ^ n"
  by (induction n arbitrary: a) (simp_all add: digit_value_def)

lemma digit_value_bounds: "is_digit d \<Longrightarrow> 0 \<le> digit_value d \<and> digit_value d \<le> 9"
  by (auto simp: is_digit_def digit_value_def)

lemma decimal_value_bounds:
  "list_all is_digit s \<Longrightarrow> 0 \<le> a \<Longrightarrow>
     0 \<le> decimal_value a s \<and> decimal_value a s < (a + 1) * 10 ^ length s"
proof (induction s arbitrary: a)
  case Nil
  then show ?case by simp
next
  case (Cons d s)
  have d: "0 \<le> digit_value d" "digit_value d \<le> 9"
    using Cons.prems(1) digit_value_bounds by auto
  have "0 \<le> decimal_value (10 * a + digit_value d) s"
    and lt: "decimal_value (10 * a + digit_value d) s < (10 * a + digit_value d + 1) * 10 ^ length s"
    using Cons.IH [of "10 * a + digit_value d"] Cons.prems d by simp_all
  moreover have "(10 * a + digit_value d + 1) * 10 ^ length s \<le> (10 * (a + 1)) * 10 ^ length s"
    using d by (intro mult_right_mono) simp_all
  ultimately have "decimal_value (10 * a + digit_value d) s < (10 * (a + 1)) * 10 ^ length s"
    by linarith
  moreover have "(10 * (a + 1)) * 10 ^ length s = (a + 1) * 10 ^ length (d # s)"
    by (simp only: list.size add_0_right power_add power_one_right) simp
  ultimately show ?case
    using \<open>0 \<le> decimal_value (10 * a + digit_value d) s\<close> by (simp only: decimal_value.simps)
qed

lemma ParseInt_digits_Inr:
  "list_all is_digit s \<Longrightarrow> ParseInt_digits s = Inr v \<longleftrightarrow> sint v = decimal_value 0 s"
  using decimal_value_bounds [of s 0]
  by (auto simp: ParseInt_digits_def Let_def in64_def sint64_of_int_in64 simp flip: sint64_inject
      dest: arg_cong [where f = in64])

lemma cut_dot_nodot: "CHR ''.'' \<notin> set w \<Longrightarrow> cut_dot w = (w, [], False)"
  by (induction w) auto

lemma cut_dot_dot: "CHR ''.'' \<notin> set w \<Longrightarrow> cut_dot (w @ CHR ''.'' # f) = (w, f, True)"
  by (induction w) auto

lemma cut_dot_result:
  "cut_dot s = (w, f, b) \<Longrightarrow> s = w @ (if b then CHR ''.'' # f else []) \<and> (\<not> b \<longrightarrow> f = []) \<and> CHR ''.'' \<notin> set w"
  by (induction s arbitrary: w) (auto split: if_splits prod.splits)

lemma digits_no_dot: "list_all is_digit w \<Longrightarrow> CHR ''.'' \<notin> set w"
  by (auto simp: list_all_iff is_digit_def)

lemma scale_add_guard:
  fixes whole factor fraction :: int64
  assumes "0 < sint factor" and "0 \<le> sint fraction"
  shows "go_div (word_of_int maxInt64 - fraction) factor <s whole \<longleftrightarrow>
    maxInt64 < sint whole * sint factor + sint fraction"
proof -
  have d: "sint (word_of_int maxInt64 - fraction) = maxInt64 - sint fraction"
    using assms(2) sint64_bounds [of fraction] by (simp add: i64 wrap64_id in64_def)
  then have "0 \<le> sint (word_of_int maxInt64 - fraction)"
    using sint64_bounds [of fraction] by simp
  then have "sint (go_div (word_of_int maxInt64 - fraction) factor) = (maxInt64 - sint fraction) div sint factor"
    using assms(1) d by (simp only: sint_go_div)
  then show ?thesis
    unfolding sless64 using int_div_less_iff [OF assms(1), of "maxInt64 - sint fraction" "sint whole"]
    by linarith
qed

lemma padded_value:
  assumes "list_all is_digit f" and "length f \<le> n" and "n \<le> 6"
  shows "\<exists>fr. (if f @ replicate (n - length f) (CHR ''0'') \<noteq> []
      then ParseInt_digits (f @ replicate (n - length f) (CHR ''0'')) else Inr 0) = Inr fr
    \<and> sint fr = decimal_value 0 f * 10 ^ (n - length f) \<and> 0 \<le> sint fr"
proof -
  let ?p = "f @ replicate (n - length f) (CHR ''0'')"
  have v: "decimal_value 0 ?p = decimal_value 0 f * 10 ^ (n - length f)"
    by (simp add: decimal_value_append decimal_value_zeros)
  have dig: "list_all is_digit ?p" using assms(1) by (auto simp: list_all_iff is_digit_def)
  have b: "0 \<le> decimal_value 0 ?p" "decimal_value 0 ?p < 10 ^ length ?p"
    using decimal_value_bounds [OF dig, of 0] by simp_all
  have "(10 :: int) ^ length ?p \<le> 10 ^ 6" using assms by (intro power_increasing) simp_all
  with b have "in64 (decimal_value 0 ?p)" by (simp add: in64_def)
  then have "ParseInt_digits ?p = Inr (word_of_int (decimal_value 0 ?p))"
    and "sint (word_of_int (decimal_value 0 ?p) :: int64) = decimal_value 0 ?p"
    using dig by (simp_all only: ParseInt_digits_Inr sint64_of_int_in64)
  with b v show ?thesis by (cases "?p = []") (auto simp del: append_is_Nil_conv)
qed

lemma scaleMajorDigits_exact:
  assumes "Currency_Valid c" and "list_all is_digit w" and "list_all is_digit f"
    and "int (length f) \<le> cur_exponent c"
  shows "scaleMajorDigits c w f = Inr v \<longleftrightarrow>
    sint v = decimal_value 0 w * 10 ^ nat (cur_exponent c)
             + decimal_value 0 f * 10 ^ (nat (cur_exponent c) - length f)"
proof -
  obtain u where u: "MinorUnitsPerMajor c = Inr u" "sint u = 10 ^ nat (cur_exponent c)" "0 < sint u"
    using MinorUnitsPerMajor_valid [OF assms(1)] by blast
  have le: "length f \<le> nat (cur_exponent c)" "nat (cur_exponent c) \<le> 6"
    using assms(1,4) by (auto elim!: Currency_Valid_cases)
  obtain fr where fr: "(if f @ replicate (nat (cur_exponent c) - length f) (CHR ''0'') \<noteq> []
      then ParseInt_digits (f @ replicate (nat (cur_exponent c) - length f) (CHR ''0'')) else Inr 0) = Inr fr"
    "sint fr = decimal_value 0 f * 10 ^ (nat (cur_exponent c) - length f)" "0 \<le> sint fr"
    using padded_value [OF assms(3) le] by blast
  have w0: "0 \<le> decimal_value 0 w" using decimal_value_bounds [OF assms(2), of 0] by simp
  show ?thesis
  proof (cases "in64 (decimal_value 0 w)")
    case False
    then have "ParseInt_digits w = Inl (Sentinel ''strconv.ErrRange'')"
      using w0 by (simp add: ParseInt_digits_def in64_def)
    moreover have "decimal_value 0 w * 1 \<le> decimal_value 0 w * 10 ^ nat (cur_exponent c)"
      using w0 by (intro mult_left_mono) simp_all
    then have "sint v \<noteq> decimal_value 0 w * 10 ^ nat (cur_exponent c) + sint fr"
      using False w0 fr(3) sint64_bounds [of v] by (simp only: in64_def) linarith
    ultimately show ?thesis by (simp add: scaleMajorDigits_def fr(2))
  next
    case True
    then have w: "ParseInt_digits w = Inr (word_of_int (decimal_value 0 w))"
      "sint (word_of_int (decimal_value 0 w) :: int64) = decimal_value 0 w"
      using assms(2) by (simp_all add: ParseInt_digits_Inr sint64_of_int_in64)
    let ?W = "word_of_int (decimal_value 0 w) :: int64"
    let ?S = "decimal_value 0 w * sint u + sint fr"
    have nn: "0 \<le> ?S" using w0 u(3) fr(3) by simp
    have sum: "sint (?W * u + fr) = ?S" if "?S \<le> maxInt64"
    proof -
      have "0 \<le> decimal_value 0 w * sint u" using w0 u(3) by simp
      with that fr(3) have "in64 (decimal_value 0 w * sint u)" by (simp only: in64_def) linarith
      then show ?thesis
        using that nn w(2) by (simp add: sint64_add sint64_mult wrap64_id in64_def)
    qed
    have "scaleMajorDigits c w f = Inr v \<longleftrightarrow> ?S \<le> maxInt64 \<and> ?W * u + fr = v"
      unfolding scaleMajorDigits_def w(1) u(1) Let_def fr(1) sum.case bind_result_simps
        scale_add_guard [OF u(3) fr(3)] w(2) by auto
    also have "\<dots> \<longleftrightarrow> sint v = ?S"
      using sum sint64_bounds [of v] by (auto simp: sint64_inject [symmetric])
    finally show ?thesis by (simp add: u(2) fr(2))
  qed
qed

text \<open>
  C13. \<^verbatim>\<open>ParseMajorToMinorExact\<close> accepts exactly the decimals \<open>w\<close> or \<open>w.f\<close> (digits only, no
  sign, at least one digit on each side of a dot, at most as many fraction digits as the
  currency has) whose value in minor units fits \<^verbatim>\<open>int64\<close>, and returns that value with no
  rounding; everything else is refused.
\<close>

theorem ParseMajorToMinorExact_correct:
  "ParseMajorToMinorExact c raw = Inr v \<longleftrightarrow>
     Currency_Valid c \<and>
     (\<exists>w f. TrimSpace raw = w @ (if f = [] then [] else CHR ''.'' # f)
        \<and> w \<noteq> [] \<and> list_all is_digit w \<and> list_all is_digit f
        \<and> int (length f) \<le> cur_exponent c
        \<and> sint v = decimal_value 0 w * 10 ^ nat (cur_exponent c)
                   + decimal_value 0 f * 10 ^ (nat (cur_exponent c) - length f))"
    (is "?L \<longleftrightarrow> ?R")
proof
  assume L: ?L
  then have valid: "Currency_Valid c" by (auto simp: ParseMajorToMinorExact_def split: if_splits)
  obtain w f b where cut: "cut_dot (TrimSpace raw) = (w, f, b)" by (cases "cut_dot (TrimSpace raw)")
  have body: "w \<noteq> []" "b \<longrightarrow> f \<noteq> []" "list_all is_digit w" "list_all is_digit f"
    "int (length f) \<le> cur_exponent c" "scaleMajorDigits c w f = Inr v"
    using L valid by (auto simp: ParseMajorToMinorExact_def Let_def cut split: if_splits)
  moreover have "TrimSpace raw = w @ (if f = [] then [] else CHR ''.'' # f)"
    using cut_dot_result [OF cut] body(2) by auto
  ultimately show ?R using valid scaleMajorDigits_exact [OF valid] by blast
next
  assume ?R
  then obtain w f where valid: "Currency_Valid c"
    and raw: "TrimSpace raw = w @ (if f = [] then [] else CHR ''.'' # f)"
    and dig: "w \<noteq> []" "list_all is_digit w" "list_all is_digit f" "int (length f) \<le> cur_exponent c"
    and v: "sint v = decimal_value 0 w * 10 ^ nat (cur_exponent c)
                   + decimal_value 0 f * 10 ^ (nat (cur_exponent c) - length f)"
    by blast
  have "cut_dot (TrimSpace raw) = (w, f, f \<noteq> [])"
    using digits_no_dot [OF dig(2)] by (simp add: raw cut_dot_nodot cut_dot_dot)
  moreover have "TrimSpace raw \<noteq> []" using raw dig(1) by simp
  moreover have "scaleMajorDigits c w f = Inr v"
    using scaleMajorDigits_exact [OF valid dig(2-4)] v by blast
  ultimately show ?L
    using valid dig digits_no_dot [OF dig(3)] by (simp add: ParseMajorToMinorExact_def)
qed

section \<open>Minor amounts: checked arithmetic\<close>

lemma MinorAmount_Add_Inr:
  "MinorAmount_Add m n = Inr s \<longleftrightarrow>
     SameCurrency m n \<and> in64 (sint (ma_amount m) + sint (ma_amount n))
     \<and> s = \<lparr>ma_amount = ma_amount m + ma_amount n, ma_currency = ma_currency m\<rparr>"
  unfolding MinorAmount_Add_def SameCurrency_def Let_def add_overflow_test by auto

interpretation minor: checked_money MinorAmount_Add "\<lambda>m. sint (ma_amount m)" SameCurrency
  by unfold_locales
    (auto simp: isOK_iff MinorAmount_Add_Inr sint64_add_in64 SameCurrency_def
      MinorAmount_Valid_def Currency_Equal_iff)

text \<open>
  C36. Amounts added one after another with \<^verbatim>\<open>MinorAmount.Add\<close> give their mathematical sum,
  in the first amount's currency, or an error: no intermediate sum wraps around and no
  amount of another currency gets in.
\<close>

theorem MinorAmount_sum_exact:
  "sum_checked MinorAmount_Add m xs = Inr s \<Longrightarrow>
     sint (ma_amount s) = sint (ma_amount m) + (\<Sum>x\<leftarrow>xs. sint (ma_amount x))
     \<and> ma_currency s = ma_currency m \<and> (\<forall>x \<in> set xs. ma_currency x = ma_currency m)"
proof (intro conjI)
  assume s: "sum_checked MinorAmount_Add m xs = Inr s"
  then show "sint (ma_amount s) = sint (ma_amount m) + (\<Sum>x\<leftarrow>xs. sint (ma_amount x))"
    by (rule minor.sum_exact)
  from s show "ma_currency s = ma_currency m" and "\<forall>x \<in> set xs. ma_currency x = ma_currency m"
    by (induction xs arbitrary: m)
      (auto simp: MinorAmount_Add_Inr SameCurrency_def Currency_Equal_iff)
qed

theorem MinorAmount_sum_exact_witness:
  "sum_checked MinorAmount_Add
      \<lparr>ma_amount = 5, ma_currency = \<lparr>cur_code = ''usd'', cur_exponent = 2\<rparr>\<rparr>
      [\<lparr>ma_amount = 7, ma_currency = \<lparr>cur_code = ''usd'', cur_exponent = 2\<rparr>\<rparr>] =
    Inr \<lparr>ma_amount = 12, ma_currency = \<lparr>cur_code = ''usd'', cur_exponent = 2\<rparr>\<rparr>
   \<and> sint (12 :: int64) = sint (5 :: int64) + sint (7 :: int64)"
    (is "?run \<and> _")
proof -
  have run: ?run
    by (simp add: MinorAmount_Add_Inr SameCurrency_def MinorAmount_Valid_def Currency_Equal_iff in64_def)
  with MinorAmount_sum_exact [OF run] show ?thesis by simp
qed

text \<open>
  C39. Away from the one amount whose negation wraps, \<^verbatim>\<open>MinorAmount.Sub\<close> returns exactly the
  mathematical difference when it fits; on that amount (the smallest \<^verbatim>\<open>int64\<close>) the
  subtraction adds it instead: \<open>5 - (-2^63)\<close> is answered \<open>5 + (-2^63)\<close> with no error.
\<close>

theorem MinorAmount_Sub_exact_but_min:
  "(MinorAmount_Sub m n = Inr s \<longleftrightarrow>
      SameCurrency m n \<and> ma_currency s = ma_currency m \<and>
      sint (ma_amount s) =
        (if sint (ma_amount n) = minInt64 then sint (ma_amount m) + minInt64
         else sint (ma_amount m) - sint (ma_amount n)))"
proof -
  have neg: "sint (- ma_amount n) = (if sint (ma_amount n) = minInt64 then minInt64 else - sint (ma_amount n))"
    using sint64_bounds [of "ma_amount n"] by (simp add: i64 wrap64_once)
  let ?n = "\<lparr>ma_amount = - ma_amount n, ma_currency = ma_currency n\<rparr>"
  have "MinorAmount_Sub m n = Inr s \<longleftrightarrow> MinorAmount_Add m ?n = Inr s"
    by (auto simp: MinorAmount_Sub_def NewMinorAmount_def MinorAmount_Add_def MinorAmount_Valid_def)
  also have "\<dots> \<longleftrightarrow> SameCurrency m n \<and> ma_currency s = ma_currency m
      \<and> sint (ma_amount s) = sint (ma_amount m) + sint (- ma_amount n)"
    unfolding MinorAmount_Add_Inr sint64_add_iff [symmetric]
    by (cases s) (auto simp: SameCurrency_def MinorAmount_Valid_def)
  finally show ?thesis unfolding neg by (simp add: algebra_simps)
qed

section \<open>The settlement currency\<close>

definition settlement_inv :: "settlement \<Rightarrow> bool" where
  "settlement_inv st = (settlementLoaded st \<longrightarrow> Currency_Valid (settlementCurrency st))"

datatype settlement_op = LoadEnv string | ResetForTest

fun settlement_step :: "settlement_op \<Rightarrow> settlement \<Rightarrow> settlement" where
  "settlement_step (LoadEnv env) st = snd (LoadSettlementCurrencyFromEnv env st)"
| "settlement_step ResetForTest st = resetSettlementCurrencyForTest st"

text \<open>The abstract view: the currency that is in force, if any.\<close>

definition in_force :: "settlement \<Rightarrow> Currency option" where
  "in_force st = (if settlementLoaded st then Some (settlementCurrency st) else None)"

fun force_step :: "settlement_op \<Rightarrow> Currency option \<Rightarrow> Currency option" where
  "force_step (LoadEnv env) cur =
     (case ParseCurrency env of Inr c \<Rightarrow> Some c | Inl _ \<Rightarrow> cur)"
| "force_step ResetForTest cur = None"

lemma ParseCurrency_blank [simp]: "ParseCurrency [] = Inl (Msg ''currency is required'')"
  by (simp add: ParseCurrency_def TrimSpace_def ToLower_def)

lemma ParseCurrency_TrimSpace [simp]: "ParseCurrency (TrimSpace raw) = ParseCurrency raw"
  by (simp add: ParseCurrency_def)

lemma ParseCurrency_only_space: "TrimSpace raw = [] \<Longrightarrow> ParseCurrency raw = Inl (Msg ''currency is required'')"
  by (metis ParseCurrency_TrimSpace ParseCurrency_blank)

lemma in_force_step: "in_force (settlement_step op st) = force_step op (in_force st)"
  by (cases op)
    (auto simp: in_force_def LoadSettlementCurrencyFromEnv_def Let_def setSettlementCurrency_def
      resetSettlementCurrencyForTest_def ParseCurrency_only_space split: sum.splits)

interpretation settle: invariant_machine settlement_step settlement_inv
proof
  fix st e assume "settlement_inv st"
  then show "settlement_inv (settlement_step e st)"
    by (cases e)
      (auto simp: settlement_inv_def LoadSettlementCurrencyFromEnv_def Let_def setSettlementCurrency_def
        resetSettlementCurrencyForTest_def ParseCurrency_Inr split: sum.splits)
qed

lemma in_force_run: "in_force (fold settlement_step ops st) = fold force_step ops (in_force st)"
  by (induction ops arbitrary: st) (simp_all add: in_force_step)

lemma IsSettlementCurrency_in_force:
  assumes "settlement_inv st"
  shows "IsSettlementCurrency st raw \<longleftrightarrow> (\<exists>c. in_force st = Some c \<and> ParseCurrency raw = Inr c)"
  using assms
  by (auto simp: IsSettlementCurrency_def isOK_iff RequireSettlementCurrency_def SettlementCurrency_def
      in_force_def settlement_inv_def Currency_Equal_iff split: if_splits)

text \<open>
  Whatever loads (successful or refused) and resets the process has been through, a
  currency text passes \<^verbatim>\<open>IsSettlementCurrency\<close> just when it parses to the currency of the
  last accepted load since the last reset; before any accepted load nothing passes.
\<close>

theorem IsSettlementCurrency_last_load:
  "IsSettlementCurrency (fold settlement_step ops initialSettlement) raw \<longleftrightarrow>
     (\<exists>c. fold force_step ops None = Some c \<and> ParseCurrency raw = Inr c)"
proof -
  have "settlement_inv (fold settlement_step ops initialSettlement)"
    by (rule settle.run_inv) (simp add: settlement_inv_def initialSettlement_def)
  moreover have "in_force initialSettlement = None"
    by (simp add: in_force_def initialSettlement_def)
  ultimately show ?thesis by (simp add: IsSettlementCurrency_in_force in_force_run)
qed

end
