(* ===== verification/Money_Nanos.thy ===== *)
theory Money_Nanos
  imports Complex_Main Currency
begin

text \<open>
  \<^verbatim>\<open>src/src/control/money_nanos.go\<close>: exact currency-bound amounts in nano-units, the one
  multiply-and-divide routine every rate conversion goes through (with its 128-bit fast path
  and its arbitrary-precision path), the derivations built on it, and the remainder carry of
  the accrual ledger. The conversions from float64 are not modelled.
\<close>

section \<open>Amounts\<close>

definition NanosPerMajorUnit :: int64 where "NanosPerMajorUnit = 1000000000"
definition NanosPerMicro :: int64 where "NanosPerMicro = 1000"
definition realtimeReuseRetainedShareNanos :: int64 where "realtimeReuseRetainedShareNanos = 400000000"
definition realtimeReuseMinimumChargeNanos :: int64 where "realtimeReuseMinimumChargeNanos = NanosPerMicro"
definition nanosecondsPerHour :: int64 where "nanosecondsPerHour = 3600 * 1000000000"
definition economicRoundingPolicy :: string where "economicRoundingPolicy = ''economic-nanos-v1''"

lemmas nanos_consts = NanosPerMajorUnit_def NanosPerMicro_def realtimeReuseRetainedShareNanos_def
  realtimeReuseMinimumChargeNanos_def nanosecondsPerHour_def

record MoneyNanos =
  mn_currency :: Currency
  mn_nanos :: int64

abbreviation "errMoneyCurrencyMismatch \<equiv> Sentinel ''errMoneyCurrencyMismatch''"
abbreviation "errMoneyOverflow \<equiv> Sentinel ''errMoneyOverflow''"

definition NewMoneyNanos :: "Currency \<Rightarrow> int64 \<Rightarrow> MoneyNanos result" where
  "NewMoneyNanos c nanos =
     (if Currency_Code c = [] then Inl (Msg ''an exact amount must name its currency'')
      else Inr \<lparr>mn_currency = c, mn_nanos = nanos\<rparr>)"

definition MoneyNanos_IsZero :: "MoneyNanos \<Rightarrow> bool" where
  "MoneyNanos_IsZero m = (mn_nanos m = 0)"

definition MoneyNanos_IsPositive :: "MoneyNanos \<Rightarrow> bool" where
  "MoneyNanos_IsPositive m = (0 <s mn_nanos m)"

definition MoneyNanos_sameCurrency :: "MoneyNanos \<Rightarrow> MoneyNanos \<Rightarrow> unit result" where
  "MoneyNanos_sameCurrency m other =
     (if Currency_Code (mn_currency m) \<noteq> Currency_Code (mn_currency other)
      then Inl (Wrap ''currencies'' errMoneyCurrencyMismatch) else Inr ())"

definition MoneyNanos_Add :: "MoneyNanos \<Rightarrow> MoneyNanos \<Rightarrow> MoneyNanos result" where
  "MoneyNanos_Add m other =
     bind_result (MoneyNanos_sameCurrency m other) (\<lambda>_.
       let sum = mn_nanos m + mn_nanos other in
       if (0 <s mn_nanos other \<and> sum <s mn_nanos m) \<or> (mn_nanos other <s 0 \<and> mn_nanos m <s sum)
       then Inl errMoneyOverflow
       else Inr \<lparr>mn_currency = mn_currency m, mn_nanos = sum\<rparr>)"

definition MoneyNanos_Sub :: "MoneyNanos \<Rightarrow> MoneyNanos \<Rightarrow> MoneyNanos result" where
  "MoneyNanos_Sub m other =
     bind_result (MoneyNanos_sameCurrency m other) (\<lambda>_.
       let diff = mn_nanos m - mn_nanos other in
       if (mn_nanos other <s 0 \<and> diff <s mn_nanos m) \<or> (0 <s mn_nanos other \<and> mn_nanos m <s diff)
       then Inl errMoneyOverflow
       else Inr \<lparr>mn_currency = mn_currency m, mn_nanos = diff\<rparr>)"

definition MoneyNanos_AtLeast :: "MoneyNanos \<Rightarrow> MoneyNanos \<Rightarrow> bool result" where
  "MoneyNanos_AtLeast m floor' =
     bind_result (MoneyNanos_sameCurrency m floor') (\<lambda>_. Inr (mn_nanos floor' \<le>s mn_nanos m))"

definition MoneyNanos_AtMost :: "MoneyNanos \<Rightarrow> MoneyNanos \<Rightarrow> bool result" where
  "MoneyNanos_AtMost m ceiling' =
     bind_result (MoneyNanos_sameCurrency m ceiling') (\<lambda>_. Inr (mn_nanos m \<le>s mn_nanos ceiling'))"

section \<open>Multiply and divide\<close>

text \<open>
  \<^verbatim>\<open>math/bits\<close>: \<^verbatim>\<open>Mul64\<close> returns the high and the low half of the 128-bit product,
  \<^verbatim>\<open>Div64\<close> divides a 128-bit value and panics (\<^const>\<open>None\<close>) when the divisor is zero or
  not above the high half.
\<close>

definition Mul64 :: "64 word \<Rightarrow> 64 word \<Rightarrow> 64 word \<times> 64 word" where
  "Mul64 x y = (word_of_int (uint x * uint y div 2 ^ 64), word_of_int (uint x * uint y))"

definition Div64 :: "64 word \<Rightarrow> 64 word \<Rightarrow> 64 word \<Rightarrow> (64 word \<times> 64 word) option" where
  "Div64 hi lo y =
     (if y = 0 \<or> y \<le> hi then None
      else Some (word_of_int ((uint hi * 2 ^ 64 + uint lo) div uint y),
                 word_of_int ((uint hi * 2 ^ 64 + uint lo) mod uint y)))"

text \<open>\<^verbatim>\<open>quotient.IsInt64()\<close> and \<^verbatim>\<open>quotient.Int64()\<close> on a \<^verbatim>\<open>big.Int\<close>.\<close>

definition big_to_int64 :: "int \<Rightarrow> int64 result" where
  "big_to_int64 k = (if \<not> in64 k then Inl errMoneyOverflow else Inr (word_of_int k))"

definition mulDiv :: "int64 \<Rightarrow> int64 \<Rightarrow> int64 \<Rightarrow> bool \<Rightarrow> int64 result" where
  "mulDiv a b d up =
     (if d = 0 then Inl (Msg ''exact money arithmetic divided by zero'')
      else if 0 \<le>s a \<and> 0 \<le>s b \<and> 0 <s d then
        (case Mul64 a b of (hi, lo) \<Rightarrow>
           let denominator = d in
           if denominator \<le> hi then Inl errMoneyOverflow
           else case Div64 hi lo denominator of
               None \<Rightarrow> Inl (Sentinel ''panic: bits.Div64'')
             | Some (quot, remainder) \<Rightarrow>
                 if word_of_int maxInt64 < quot
                    \<or> (up \<and> remainder \<noteq> 0 \<and> quot = word_of_int maxInt64)
                 then Inl errMoneyOverflow
                 else if up \<and> remainder \<noteq> 0 then Inr (quot + 1)
                 else Inr quot)
      else let product = sint a * sint b; divisor = sint d;
               quot = product sdiv divisor; remainder = product smod divisor;
               quot' = (if sgn remainder \<noteq> 0 \<and> up = (sgn product = sgn divisor)
                            then quot + 1 else quot)
           in big_to_int64 quot')"

definition mul3Div :: "int64 \<Rightarrow> int64 \<Rightarrow> int64 \<Rightarrow> int64 \<Rightarrow> bool \<Rightarrow> int64 result" where
  "mul3Div a b c d up =
     (if d = 0 then Inl (Msg ''exact money arithmetic divided by zero'')
      else let product = sint a * sint b * sint c; divisor = sint d;
               quot = product sdiv divisor; remainder = product smod divisor;
               quot' = (if sgn remainder \<noteq> 0 \<and> up = (sgn product = sgn divisor)
                            then quot + 1 else quot)
           in big_to_int64 quot')"

section \<open>Derivations\<close>

definition RequiredTaskNanosFromHourlyFloor :: "Currency \<Rightarrow> int64 \<Rightarrow> int64 \<Rightarrow> MoneyNanos result" where
  "RequiredTaskNanosFromHourlyFloor c floor' predicted =
     (if floor' <s 0 then Inl (Msg ''an hourly floor cannot be negative'')
      else if predicted <s 0 then Inl (Msg ''a predicted duration cannot be negative'')
      else bind_result (mulDiv floor' predicted nanosecondsPerHour True) (NewMoneyNanos c))"

definition RequiredTaskNanosFromThroughput ::
    "Currency \<Rightarrow> int64 \<Rightarrow> int64 \<Rightarrow> int64 \<Rightarrow> MoneyNanos result" where
  "RequiredTaskNanosFromThroughput c floor' units throughput =
     (if throughput \<le>s 0 then Inl (Msg ''non-positive governed throughput'')
      else if units <s 0 then Inl (Msg ''work units cannot be negative'')
      else bind_result (mulDiv units NanosPerMajorUnit throughput True)
        (RequiredTaskNanosFromHourlyFloor c floor'))"

definition realtimeTokenChargeNanos ::
    "Currency \<Rightarrow> int64 \<Rightarrow> int64 \<Rightarrow> int64 \<Rightarrow> int64 \<Rightarrow> bool \<Rightarrow> MoneyNanos result" where
  "realtimeTokenChargeNanos c promptTokens completionTokens inputRate outputRate roundSupplierUp =
     (if promptTokens <s 0 \<or> completionTokens <s 0 \<or> inputRate <s 0 \<or> outputRate <s 0
      then Inl (Msg ''realtime tokens and rates must be non-negative'')
      else bind_result (mulDiv inputRate promptTokens 1000000 roundSupplierUp) (\<lambda>input.
           bind_result (mulDiv outputRate completionTokens 1000000 roundSupplierUp) (\<lambda>output.
           bind_result (NewMoneyNanos c input) (\<lambda>inputMoney.
           bind_result (NewMoneyNanos c output) (\<lambda>outputMoney.
             MoneyNanos_Add inputMoney outputMoney)))))"

definition BuyerRealtimeTokenChargeNanos ::
    "Currency \<Rightarrow> int64 \<Rightarrow> int64 \<Rightarrow> int64 \<Rightarrow> int64 \<Rightarrow> MoneyNanos result" where
  "BuyerRealtimeTokenChargeNanos c promptTokens completionTokens inputRate outputRate =
     realtimeTokenChargeNanos c promptTokens completionTokens inputRate outputRate False"

definition SupplierRealtimeTokenEntitlementNanos ::
    "Currency \<Rightarrow> int64 \<Rightarrow> int64 \<Rightarrow> int64 \<Rightarrow> int64 \<Rightarrow> MoneyNanos result" where
  "SupplierRealtimeTokenEntitlementNanos c promptTokens completionTokens inputRate outputRate =
     realtimeTokenChargeNanos c promptTokens completionTokens inputRate outputRate True"

definition RealtimeReuseBuyerChargeNanos ::
    "Currency \<Rightarrow> int64 \<Rightarrow> int64 \<Rightarrow> (MoneyNanos \<times> bool) result" where
  "RealtimeReuseBuyerChargeNanos c deliveredTokens fullRate =
     (if deliveredTokens \<le>s 0 \<or> fullRate \<le>s 0
      then Inl (Msg ''realtime reuse requires positive delivered tokens and full rate'')
      else bind_result
        (mul3Div fullRate deliveredTokens realtimeReuseRetainedShareNanos
           (1000000 * NanosPerMajorUnit) False)
        (\<lambda>nanos.
           let minimumApplied = nanos <s realtimeReuseMinimumChargeNanos;
               nanos' = (if minimumApplied then realtimeReuseMinimumChargeNanos else nanos)
           in bind_result (NewMoneyNanos c nanos') (\<lambda>money. Inr (money, minimumApplied))))"

definition LedgerMicrosFromNanos :: "MoneyNanos \<Rightarrow> int64 result" where
  "LedgerMicrosFromNanos amount =
     (if Currency_Code (mn_currency amount) = [] \<or> mn_nanos amount <s 0
      then Inl (Msg ''ledger projection requires non-negative currency-bound nanos'')
      else let whole = go_div (mn_nanos amount) NanosPerMicro;
               remainder = go_rem (mn_nanos amount) NanosPerMicro;
               whole = (if NanosPerMicro \<le>s remainder * 2 then whole + 1 else whole);
               whole = (if whole = 0 \<and> 0 <s mn_nanos amount then 1 else whole)
           in Inr whole)"

definition CatalogueGrossNanos :: "Currency \<Rightarrow> int64 \<Rightarrow> int64 \<Rightarrow> MoneyNanos result" where
  "CatalogueGrossNanos c price units =
     (if price <s 0 then Inl (Msg ''a catalogue price cannot be negative'')
      else if units <s 0 then Inl (Msg ''work units cannot be negative'')
      else bind_result (mulDiv price units (1000 * NanosPerMajorUnit) False) (NewMoneyNanos c))"

section \<open>The remainder carry\<close>

record RemainderCarry =
  rc_currency :: Currency
  rc_RemainderNanos :: int64
  rc_PostedMicros :: int64
  rrRoundingPolicy :: string

definition NewRemainderCarry :: "Currency \<Rightarrow> int64 \<Rightarrow> RemainderCarry result" where
  "NewRemainderCarry c openingRemainderNanos =
     (if Currency_Code c = [] then Inl (Msg ''a remainder carry must name its currency'')
      else if openingRemainderNanos <s 0 \<or> NanosPerMicro \<le>s openingRemainderNanos
        then Inl (Msg ''opening remainder out of range'')
      else Inr \<lparr>rc_currency = c, rc_RemainderNanos = openingRemainderNanos, rc_PostedMicros = 0,
                rrRoundingPolicy = economicRoundingPolicy\<rparr>)"

text \<open>On an error the carry is unchanged; otherwise the micros to post and the updated carry.\<close>

definition RemainderCarry_Accrue ::
    "MoneyNanos \<Rightarrow> RemainderCarry \<Rightarrow> (int64 \<times> RemainderCarry) result" where
  "RemainderCarry_Accrue amount r =
     (if Currency_Code (mn_currency amount) \<noteq> Currency_Code (rc_currency r)
      then Inl (Wrap ''accruing'' errMoneyCurrencyMismatch)
      else if mn_nanos amount <s 0
        then Inl (Msg ''a remainder carry accrues entitlement, not reversals'')
      else let total = rc_RemainderNanos r + mn_nanos amount in
        if total <s rc_RemainderNanos r then Inl errMoneyOverflow
        else let postMicros = go_div total NanosPerMicro in
          Inr (postMicros,
               r\<lparr>rc_RemainderNanos := go_rem total NanosPerMicro,
                 rc_PostedMicros := rc_PostedMicros r + postMicros\<rparr>))"

definition RemainderCarry_ExactAccrued :: "RemainderCarry \<Rightarrow> int64" where
  "RemainderCarry_ExactAccrued r = rc_PostedMicros r * NanosPerMicro + rc_RemainderNanos r"

definition RemainderCarry_RoundingPolicy :: "RemainderCarry \<Rightarrow> string" where
  "RemainderCarry_RoundingPolicy r =
     (if rrRoundingPolicy r = [] then economicRoundingPolicy else rrRoundingPolicy r)"

section \<open>Checked arithmetic\<close>

definition same_code :: "MoneyNanos \<Rightarrow> MoneyNanos \<Rightarrow> bool" where
  "same_code m n = (Currency_Code (mn_currency m) = Currency_Code (mn_currency n))"

lemma MoneyNanos_Add_Inr:
  "MoneyNanos_Add m n = Inr s \<longleftrightarrow>
     same_code m n \<and> in64 (sint (mn_nanos m) + sint (mn_nanos n))
     \<and> s = \<lparr>mn_currency = mn_currency m, mn_nanos = mn_nanos m + mn_nanos n\<rparr>"
  unfolding MoneyNanos_Add_def MoneyNanos_sameCurrency_def same_code_def Let_def add_overflow_test
  by auto

lemma MoneyNanos_Sub_Inr:
  "MoneyNanos_Sub m n = Inr s \<longleftrightarrow>
     same_code m n \<and> in64 (sint (mn_nanos m) - sint (mn_nanos n))
     \<and> s = \<lparr>mn_currency = mn_currency m, mn_nanos = mn_nanos m - mn_nanos n\<rparr>"
  unfolding MoneyNanos_Sub_def MoneyNanos_sameCurrency_def same_code_def Let_def sub_overflow_test
  by auto

interpretation nanos: checked_money MoneyNanos_Add "\<lambda>m. sint (mn_nanos m)" same_code
  by unfold_locales (auto simp: isOK_iff MoneyNanos_Add_Inr sint64_add_in64 same_code_def)

lemma MoneyNanos_Add_Sub: "MoneyNanos_Add m n = Inr s \<Longrightarrow> MoneyNanos_Sub s n = Inr m"
  by (auto simp: MoneyNanos_Add_Inr MoneyNanos_Sub_Inr same_code_def sint64_add_in64)

section \<open>Multiply and divide: both paths\<close>

text \<open>
  Rounding as the callers name it: the ceiling of \<open>p / d\<close> when \<^verbatim>\<open>up\<close>, otherwise its floor.
  \<^verbatim>\<open>rounded\<close> is what the code computes: the same, except that a negative inexact quotient
  rounded down comes out two above the floor.
\<close>

definition round_div :: "bool \<Rightarrow> int \<Rightarrow> int \<Rightarrow> int" where
  "round_div up p d = (if up then - (- p div d) else p div d)"

definition rounded :: "bool \<Rightarrow> int \<Rightarrow> int \<Rightarrow> int" where
  "rounded up p d =
     (if \<not> up \<and> p mod d \<noteq> 0 \<and> sgn p \<noteq> sgn d then round_div up p d + 2 else round_div up p d)"

lemma sdiv_same_sign: "sgn p = sgn d \<Longrightarrow> (p :: int) sdiv d = p div d"
  by (cases "p = 0"; cases "d < 0") (auto simp: signed_divide_int_def sgn_if split: if_splits)

lemma sdiv_other_sign: "d \<noteq> 0 \<Longrightarrow> sgn p \<noteq> sgn d \<Longrightarrow> (p :: int) sdiv d = - (- p div d)"
  by (cases "p = 0"; cases "d < 0")
    (auto simp: signed_divide_int_def sgn_if div_minus_right split: if_splits)

lemma ceil_div: "d \<noteq> 0 \<Longrightarrow> - (- p div d) = (if p mod d = 0 then p div d else p div d + 1 :: int)"
  by (simp add: zdiv_zminus1_eq_if)

lemma smod_zero_iff: "(p :: int) smod d = 0 \<longleftrightarrow> p mod d = 0"
proof -
  have "p smod d = 0 \<longleftrightarrow> \<bar>p\<bar> mod \<bar>d\<bar> = 0" by (auto simp: signed_modulo_int_def sgn_if)
  then show ?thesis by (simp add: mod_eq_0_iff_dvd)
qed

lemma big_quotient:
  assumes "d \<noteq> 0"
  shows "(if sgn (p smod d) \<noteq> 0 \<and> up = (sgn p = sgn d) then p sdiv d + 1 else p sdiv d)
    = rounded up p d"
  using assms
  by (cases "sgn p = sgn d"; cases up)
    (auto simp: sgn_0_0 smod_zero_iff sdiv_same_sign sdiv_other_sign rounded_def round_div_def ceil_div)

lemma mul3Div_rounded:
  "mul3Div a b c d up =
     (if d = 0 then Inl (Msg ''exact money arithmetic divided by zero'')
      else big_to_int64 (rounded up (sint a * sint b * sint c) (sint d)))"
proof (cases "d = 0")
  case False
  then have "sint d \<noteq> 0" by (simp add: signed_eq_0_iff)
  from big_quotient [OF this] False show ?thesis unfolding mul3Div_def Let_def by simp
qed (simp add: mul3Div_def)

lemma Mul64_uint:
  assumes "Mul64 x y = (hi, lo)"
  shows "uint hi * 2 ^ 64 + uint lo = uint x * uint y"
proof -
  have "uint x * uint y < 2 ^ 64 * 2 ^ 64"
    using uint_lt2p [of x] uint_lt2p [of y] by (intro mult_strict_mono') simp_all
  then have "uint x * uint y div 2 ^ 64 < 2 ^ 64"
    by (simp add: int_div_less_iff)
  then have "uint hi = uint x * uint y div 2 ^ 64" "uint lo = uint x * uint y mod 2 ^ 64"
    using assms by (auto simp: Mul64_def uint_word_of_int uint_word_ariths pos_imp_zdiv_nonneg_iff)
  then show ?thesis by simp
qed

lemma Div64_uint:
  assumes "uint hi < uint y"
  shows "\<exists>q r. Div64 hi lo y = Some (q, r) \<and> uint q = (uint hi * 2 ^ 64 + uint lo) div uint y
    \<and> uint r = (uint hi * 2 ^ 64 + uint lo) mod uint y"
proof -
  let ?P = "uint hi * 2 ^ 64 + uint lo"
  have y: "0 < uint y" using assms uint_ge_0 [of hi] by linarith
  have P: "0 \<le> ?P" by simp
  have "?P < (uint hi + 1) * 2 ^ 64" using uint_lt2p [of lo] by (simp add: distrib_right)
  also have "\<dots> \<le> uint y * 2 ^ 64" using assms by (intro mult_right_mono) simp_all
  finally have "?P div uint y < 2 ^ 64" using y by (simp add: int_div_less_iff mult.commute)
  moreover have "0 \<le> ?P div uint y" using y P by (simp add: pos_imp_zdiv_nonneg_iff)
  moreover have "0 \<le> ?P mod uint y" "?P mod uint y < 2 ^ 64"
    using pos_mod_sign [OF y, of ?P] pos_mod_bound [OF y, of ?P] uint_lt2p [of y] by simp_all
  moreover have "y \<noteq> 0" "\<not> y \<le> hi" using y assms by (auto simp: word_le_def)
  ultimately show ?thesis
    by (auto simp: Div64_def uint_word_of_int simp del: uint_div uint_mod)
qed

lemma mulDiv_fast:
  assumes a: "0 \<le> sint a" and b: "0 \<le> sint b" and d: "0 < sint d"
  shows "mulDiv a b d up = big_to_int64 (round_div up (sint a * sint b) (sint d))"
proof -
  obtain hi lo where m: "Mul64 a b = (hi, lo)" by (cases "Mul64 a b")
  let ?P = "sint a * sint b"
  have P: "uint hi * 2 ^ 64 + uint lo = ?P" and P0: "0 \<le> ?P"
    using Mul64_uint [OF m] a b by (simp_all add: uint64_nonneg)
  have D: "uint d = sint d" using d by (simp add: uint64_nonneg)
  have d0: "d \<noteq> 0" using d by auto
  have guard: "0 \<le>s a \<and> 0 \<le>s b \<and> 0 <s d" using assms by (simp add: i64)
  have ceil: "- (- ?P div sint d) = (if ?P mod sint d = 0 then ?P div sint d else ?P div sint d + 1)"
    using d by (intro ceil_div) simp
  show ?thesis
  proof (cases "d \<le> hi")
    case True
    then have "sint d * 2 ^ 64 \<le> uint hi * 2 ^ 64" by (simp add: word_le_def D)
    then have "sint d * 2 ^ 64 \<le> ?P" using P uint_ge_0 [of lo] by linarith
    then have "2 ^ 64 \<le> ?P div sint d"
      using int_div_less_iff [OF d, of ?P "2 ^ 64"] by (metis mult.commute not_le)
    then have "\<not> in64 (round_div up ?P (sint d))"
      using ceil by (auto simp: round_div_def in64_def)
    with True d0 guard show ?thesis by (simp add: mulDiv_def m big_to_int64_def)
  next
    case False
    then have "uint hi < uint d" by (simp add: word_le_def)
    then obtain q r where qr: "Div64 hi lo d = Some (q, r)"
      "uint q = ?P div sint d" "uint r = ?P mod sint d"
      using Div64_uint [of hi d lo] by (auto simp only: P D)
    have q0: "0 \<le> ?P div sint d" using d P0 by (simp add: pos_imp_zdiv_nonneg_iff)
    have r: "r = 0 \<longleftrightarrow> ?P mod sint d = 0" by (metis qr(3) uint_0_iff)
    have lt: "9223372036854775807 < q \<longleftrightarrow> maxInt64 < ?P div sint d"
      by (simp add: word_less_def qr(2))
    have eq: "q = 9223372036854775807 \<longleftrightarrow> ?P div sint d = maxInt64"
      by (simp add: word_uint_eq_iff qr(2))
    have q: "q = word_of_int (?P div sint d)" by (metis qr(2) word_of_int_uint)
    show ?thesis
      unfolding mulDiv_def m big_to_int64_def round_div_def ceil
      using False d0 guard q0 by (simp add: qr(1) r lt eq) (auto simp: q in64_def)
  qed
qed

lemma mulDiv_rounded:
  "mulDiv a b d up =
     (if d = 0 then Inl (Msg ''exact money arithmetic divided by zero'')
      else big_to_int64 (rounded up (sint a * sint b) (sint d)))"
proof (cases "d = 0 \<or> \<not> (0 \<le>s a \<and> 0 \<le>s b \<and> 0 <s d)")
  case True
  show ?thesis
  proof (cases "d = 0")
    case False
    then have "sint d \<noteq> 0" by (simp add: signed_eq_0_iff)
    then have q: "(if sgn (sint a * sint b smod sint d) \<noteq> 0 \<and> up = (sgn (sint a * sint b) = sgn (sint d))
        then sint a * sint b sdiv sint d + 1 else sint a * sint b sdiv sint d) =
        rounded up (sint a * sint b) (sint d)"
      by (rule big_quotient)
    have "\<not> (0 \<le>s a \<and> 0 \<le>s b \<and> 0 <s d)" using False True by blast
    with False show ?thesis by (simp only: mulDiv_def Let_def q if_False)
  qed (simp add: mulDiv_def)
next
  case False
  then have "0 \<le> sint a" "0 \<le> sint b" "0 < sint d" by (simp_all add: i64)
  moreover from this have "sgn (sint a * sint b) = sgn (sint d) \<or> sint a * sint b mod sint d = 0"
    by (auto simp: sgn_if)
  ultimately show ?thesis using False mulDiv_fast [of a b d up] by (auto simp: rounded_def)
qed

abbreviation quotient_of_ints :: "int \<Rightarrow> int \<Rightarrow> rat" where
  "quotient_of_ints p d \<equiv> of_int p / of_int d"

lemma round_div_rat:
  "round_div True p d = \<lceil>quotient_of_ints p d\<rceil>" "round_div False p d = \<lfloor>quotient_of_ints p d\<rfloor>"
  by (simp_all add: round_div_def ceiling_divide_eq_div floor_divide_of_int_eq)

lemma big_to_int64_Inr: "big_to_int64 k = Inr q \<longleftrightarrow> sint q = k"
  by (auto simp: big_to_int64_def sint64_of_int_in64)

lemma round_div_nonneg: "0 \<le> p \<Longrightarrow> 0 < d \<Longrightarrow> 0 \<le> round_div up p d"
  by (cases "p mod d = 0") (simp_all add: round_div_def ceil_div pos_imp_zdiv_nonneg_iff)

lemma mulDiv_nonneg_Inr:
  assumes "0 \<le> sint a" and "0 \<le> sint b" and "0 < sint d"
  shows "mulDiv a b d up = Inr q \<longleftrightarrow> sint q = round_div up (sint a * sint b) (sint d)"
  using mulDiv_fast [OF assms] by (simp add: big_to_int64_Inr)

lemma mult_neg_sgn: "p * d < 0 \<Longrightarrow> sgn p \<noteq> sgn (d :: int)"
  by (auto simp: sgn_if mult_less_0_iff split: if_splits)

lemma mult_nonneg_sgn: "0 \<le> p * d \<Longrightarrow> d \<noteq> 0 \<Longrightarrow> p = 0 \<or> sgn p = sgn (d :: int)"
  by (auto simp: sgn_if zero_le_mult_iff)

text \<open>
  C10. \<^verbatim>\<open>mulDiv\<close> rounds in the direction the caller names, on the 128-bit path and on the
  arbitrary-precision path alike: with a non-zero divisor it returns the ceiling (\<^verbatim>\<open>up\<close>) or
  the floor of the exact quotient \<open>a*b/d\<close> just when that fits \<^verbatim>\<open>int64\<close>. The hypothesis leaves
  out rounding a negative quotient down.
\<close>

theorem mulDiv_correct:
  assumes "d \<noteq> 0" and "up \<or> 0 \<le> sint a * sint b * sint d"
  shows "mulDiv a b d up = Inr q \<longleftrightarrow>
    sint q = (if up then \<lceil>quotient_of_ints (sint a * sint b) (sint d)\<rceil>
              else \<lfloor>quotient_of_ints (sint a * sint b) (sint d)\<rfloor>)"
proof -
  have "sint d \<noteq> 0" using assms(1) by (simp add: signed_eq_0_iff)
  with assms(2) have "up \<or> sint a * sint b = 0 \<or> sgn (sint a * sint b) = sgn (sint d)"
    by (auto dest: mult_nonneg_sgn)
  then have "rounded up (sint a * sint b) (sint d) = round_div up (sint a * sint b) (sint d)"
    by (auto simp: rounded_def)
  with assms(1) show ?thesis
    by (cases up) (simp_all add: mulDiv_rounded big_to_int64_Inr round_div_rat)
qed

theorem mulDiv_correct_witness:
  "mulDiv (-7) 3 2 True = Inr (-10)"
  using mulDiv_correct [of 2 True "-7" 3 "-10"] by (simp add: ceiling_eq_iff)

text \<open>
  C38. Rounding a negative inexact quotient down, \<^verbatim>\<open>mulDiv\<close> answers two above the floor:
  the increment meant for rounding up a positive quotient is applied.
\<close>

theorem mulDiv_down_negative_off_by_two:
  assumes "sint a * sint b * sint d < 0" and "sint a * sint b mod sint d \<noteq> 0"
  shows "mulDiv a b d False = Inr q \<longleftrightarrow>
    sint q = \<lfloor>quotient_of_ints (sint a * sint b) (sint d)\<rfloor> + 2"
proof -
  have "d \<noteq> 0" using assms(1) by auto
  moreover have "sgn (sint a * sint b) \<noteq> sgn (sint d)"
    using assms(1) by (rule mult_neg_sgn)
  ultimately show ?thesis
    using assms(2) by (simp add: mulDiv_rounded big_to_int64_Inr rounded_def round_div_rat)
qed

theorem mulDiv_down_negative_off_by_two_witness: "mulDiv (- 7) 1 2 False = Inr (- 2)"
proof -
  have "\<lfloor>- (7 / 2 :: rat)\<rfloor> = - 4" by (simp add: floor_eq_iff)
  then show ?thesis using mulDiv_down_negative_off_by_two [of "- 7" 1 2 "- 2"] by simp
qed

section \<open>Derivations: amounts and rounding directions\<close>

lemma sint_nanos_consts [simp]:
  "sint NanosPerMajorUnit = 1000000000" "sint NanosPerMicro = 1000"
  "sint nanosecondsPerHour = 3600000000000" "sint realtimeReuseMinimumChargeNanos = 1000"
  "sint realtimeReuseRetainedShareNanos = 400000000"
  "sint (1000 * NanosPerMajorUnit) = 1000000000000"
  "sint (1000000 * NanosPerMajorUnit) = 1000000000000000"
  by (simp_all add: nanos_consts)

lemma NewMoneyNanos_Inr:
  "NewMoneyNanos c n = Inr m \<longleftrightarrow> cur_code c \<noteq> [] \<and> mn_currency m = c \<and> mn_nanos m = n"
  by (cases m) (auto simp: NewMoneyNanos_def Currency_Code_def)

lemma round_div_up_bounds:
  assumes "0 < d"
  shows "p \<le> round_div True p d * d" and "round_div True p d * d < p + d"
proof -
  have "- p div d * d \<le> - p"
    using minus_mod_eq_div_mult [of "- p" d] pos_mod_sign [OF assms, of "- p"] by linarith
  moreover have "- p - d < - p div d * d"
    using minus_mod_eq_div_mult [of "- p" d] pos_mod_bound [OF assms, of "- p"] by linarith
  ultimately show "p \<le> round_div True p d * d" "round_div True p d * d < p + d"
    by (simp_all add: round_div_def)
qed

lemma round_div_down_bounds:
  assumes "0 < d"
  shows "round_div False p d * d \<le> p" and "p < round_div False p d * d + d"
  using minus_mod_eq_div_mult [of p d] pos_mod_sign [OF assms, of p] pos_mod_bound [OF assms, of p]
  by (simp_all add: round_div_def)

lemma round_div_gap: "0 < d \<Longrightarrow> round_div True p d \<le> round_div False p d + 1"
  by (simp add: round_div_def ceil_div)

lemma RequiredTaskNanosFromHourlyFloor_Inr:
  "RequiredTaskNanosFromHourlyFloor c rate predicted = Inr m \<longleftrightarrow>
     0 \<le> sint rate \<and> 0 \<le> sint predicted \<and> cur_code c \<noteq> [] \<and> mn_currency m = c
     \<and> sint (mn_nanos m) = round_div True (sint rate * sint predicted) 3600000000000"
  by (auto simp: RequiredTaskNanosFromHourlyFloor_def sless64 NewMoneyNanos_Inr mulDiv_nonneg_Inr)

lemma rate_bounds_rat:
  fixes u r n t :: int
  assumes "0 < t" and "u * r * 1000000000 \<le> n * 3600000000000 * t"
    and "n * 3600000000000 * t < u * r * 1000000000 + r * t + 3600000000000 * t"
  shows "of_int (u * r) / of_int (3600 * t) \<le> (of_int n :: rat)
    \<and> (of_int n :: rat) < of_int (u * r) / of_int (3600 * t) + of_int r / 3600000000000 + 1"
proof -
  have "(of_int (u * r * 1000000000) :: rat) \<le> of_int (n * 3600000000000 * t)"
    "(of_int (n * 3600000000000 * t) :: rat) < of_int (u * r * 1000000000 + r * t + 3600000000000 * t)"
    using assms(2,3) by (simp_all only: of_int_le_iff of_int_less_iff)
  moreover have "(0 :: rat) < of_int t" using assms(1) by simp
  ultimately show ?thesis by (simp add: field_simps)
qed

text \<open>
  The task floor derived from a governed throughput never undercuts the supplier's
  hourly minimum: it is at least \<open>units * rate / (3600 * throughput)\<close>, the exact pay for the
  predicted time, and exceeds it by less than one nano plus one nanosecond's pay (the two
  upward roundings).
\<close>

theorem RequiredTaskNanosFromThroughput_floor:
  assumes "RequiredTaskNanosFromThroughput c rate units throughput = Inr m"
  shows "of_int (sint units * sint rate) / of_int (3600 * sint throughput) \<le> (of_int (sint (mn_nanos m)) :: rat)
    \<and> (of_int (sint (mn_nanos m)) :: rat)
        < of_int (sint units * sint rate) / of_int (3600 * sint throughput)
          + of_int (sint rate) / 3600000000000 + 1"
proof -
  have pos: "0 < sint throughput" "0 \<le> sint units"
    using assms by (auto simp: RequiredTaskNanosFromThroughput_def i64 split: if_splits)
  then obtain dur where dur: "mulDiv units NanosPerMajorUnit throughput True = Inr dur"
    and req: "RequiredTaskNanosFromHourlyFloor c rate dur = Inr m"
    using assms by (auto simp: RequiredTaskNanosFromThroughput_def i64)
  let ?u = "sint units" and ?r = "sint rate" and ?t = "sint throughput" and ?d = "sint dur"
    and ?n = "sint (mn_nanos m)"
  have r: "0 \<le> ?r" and n: "?n = round_div True (?r * ?d) 3600000000000"
    using req by (simp_all add: RequiredTaskNanosFromHourlyFloor_Inr)
  have "?d = round_div True (?u * 1000000000) ?t"
    using dur pos by (simp add: mulDiv_nonneg_Inr)
  then have d: "?u * 1000000000 \<le> ?d * ?t" "?d * ?t < ?u * 1000000000 + ?t"
    using round_div_up_bounds [OF pos(1)] by simp_all
  have nb: "?r * ?d \<le> ?n * 3600000000000" "?n * 3600000000000 < ?r * ?d + 3600000000000"
    using round_div_up_bounds [of 3600000000000 "?r * ?d"] by (simp_all add: n)
  have "?r * (?u * 1000000000) \<le> ?r * (?d * ?t)" "?r * (?d * ?t) \<le> ?r * (?u * 1000000000 + ?t)"
    using r d by (auto intro!: mult_left_mono)
  moreover have "?r * ?d * ?t \<le> ?n * 3600000000000 * ?t"
    "?n * 3600000000000 * ?t < (?r * ?d + 3600000000000) * ?t"
    using nb pos by (auto intro!: mult_right_mono mult_strict_right_mono)
  ultimately have "?u * ?r * 1000000000 \<le> ?n * 3600000000000 * ?t"
    "?n * 3600000000000 * ?t < ?u * ?r * 1000000000 + ?r * ?t + 3600000000000 * ?t"
    by (simp_all add: algebra_simps)
  then show ?thesis by (rule rate_bounds_rat [OF pos(1)])
qed

theorem RequiredTaskNanosFromThroughput_floor_witness:
  "RequiredTaskNanosFromThroughput \<lparr>cur_code = ''usd'', cur_exponent = 2\<rparr> 3600 1000000000 1000000000 =
     Inr \<lparr>mn_currency = \<lparr>cur_code = ''usd'', cur_exponent = 2\<rparr>, mn_nanos = 1\<rparr>
   \<and> (1 :: rat) \<le> 1 \<and> (1 :: rat) < 1 + 1 / 1000000000 + 1"
    (is "?run \<and> _")
proof -
  have run: ?run
    by (simp add: RequiredTaskNanosFromThroughput_def mulDiv_rounded big_to_int64_def in64_def
        rounded_def round_div_def RequiredTaskNanosFromHourlyFloor_Inr i64 wrap64_def)
  from RequiredTaskNanosFromThroughput_floor [OF run] run show ?thesis by simp
qed

lemma realtimeTokenChargeNanos_Inr:
  "realtimeTokenChargeNanos c p q ri ro up = Inr m \<longleftrightarrow>
     0 \<le> sint p \<and> 0 \<le> sint q \<and> 0 \<le> sint ri \<and> 0 \<le> sint ro \<and> cur_code c \<noteq> []
     \<and> in64 (round_div up (sint ri * sint p) 1000000) \<and> in64 (round_div up (sint ro * sint q) 1000000)
     \<and> mn_currency m = c
     \<and> sint (mn_nanos m) = round_div up (sint ri * sint p) 1000000 + round_div up (sint ro * sint q) 1000000"
    (is "?L \<longleftrightarrow> ?R")
proof
  assume ?L
  then have nn: "0 \<le> sint p" "0 \<le> sint q" "0 \<le> sint ri" "0 \<le> sint ro"
    by (auto simp: realtimeTokenChargeNanos_def sless64 split: if_splits)
  with \<open>?L\<close> obtain i j where i: "sint i = round_div up (sint ri * sint p) 1000000"
    and j: "sint j = round_div up (sint ro * sint q) 1000000"
    and sum: "MoneyNanos_Add \<lparr>mn_currency = c, mn_nanos = i\<rparr> \<lparr>mn_currency = c, mn_nanos = j\<rparr> = Inr m"
    and c: "cur_code c \<noteq> []"
    by (auto simp: realtimeTokenChargeNanos_def sless64 mulDiv_nonneg_Inr NewMoneyNanos_def
        Currency_Code_def split: if_splits)
  then show ?R
    using nn by (auto simp: MoneyNanos_Add_Inr sint64_add_in64 simp flip: i j)
next
  assume R: ?R
  let ?i = "word_of_int (round_div up (sint ri * sint p) 1000000) :: int64"
  let ?j = "word_of_int (round_div up (sint ro * sint q) 1000000) :: int64"
  have ij: "sint ?i = round_div up (sint ri * sint p) 1000000"
    "sint ?j = round_div up (sint ro * sint q) 1000000"
    using R by (simp_all add: sint64_of_int_in64)
  have i: "mulDiv ri p 1000000 up = Inr ?i" and j: "mulDiv ro q 1000000 up = Inr ?j"
    using R ij by (simp_all add: mulDiv_nonneg_Inr)
  have "sint (mn_nanos m) = sint ?i + sint ?j" using R ij by simp
  then have sum: "in64 (sint ?i + sint ?j) \<and> mn_nanos m = ?i + ?j" by (simp only: sint64_add_iff)
  from R have "\<not> (p <s 0 \<or> q <s 0 \<or> ri <s 0 \<or> ro <s 0)" by (simp add: sless64)
  then show ?L
    using R sum unfolding realtimeTokenChargeNanos_def i j
    by (simp only: if_False bind_result_simps NewMoneyNanos_def Currency_Code_def MoneyNanos_Add_Inr)
       (simp add: same_code_def)
qed

text \<open>
  C28. For the same tokens and rates the buyer's charge, the exact price and the supplier's
  entitlement are ordered and within one nano per token class of each other: the buyer is
  never charged a fraction of a nano, the supplier is never shaved by one.
\<close>

theorem realtime_charge_brackets_price:
  assumes "BuyerRealtimeTokenChargeNanos c p q ri ro = Inr mb"
    and "SupplierRealtimeTokenEntitlementNanos c p q ri ro = Inr ms"
  shows "sint (mn_nanos mb) * 1000000 \<le> sint ri * sint p + sint ro * sint q
    \<and> sint ri * sint p + sint ro * sint q \<le> sint (mn_nanos ms) * 1000000
    \<and> sint (mn_nanos ms) - sint (mn_nanos mb) \<le> 2
    \<and> mn_currency mb = mn_currency ms"
proof -
  let ?x = "sint ri * sint p" and ?y = "sint ro * sint q"
  have b: "sint (mn_nanos mb) = round_div False ?x 1000000 + round_div False ?y 1000000"
    and s: "sint (mn_nanos ms) = round_div True ?x 1000000 + round_div True ?y 1000000"
    and c: "mn_currency mb = c" "mn_currency ms = c"
    using assms
    by (simp_all add: BuyerRealtimeTokenChargeNanos_def SupplierRealtimeTokenEntitlementNanos_def
        realtimeTokenChargeNanos_Inr)
  have "(round_div False ?x 1000000 + round_div False ?y 1000000) * 1000000 \<le> ?x + ?y"
    using round_div_down_bounds(1) [of 1000000 ?x] round_div_down_bounds(1) [of 1000000 ?y] by simp
  moreover have "?x + ?y \<le> (round_div True ?x 1000000 + round_div True ?y 1000000) * 1000000"
    using round_div_up_bounds(1) [of 1000000 ?x] round_div_up_bounds(1) [of 1000000 ?y] by simp
  ultimately show ?thesis
    unfolding b s c
    using round_div_gap [of 1000000 ?x] round_div_gap [of 1000000 ?y] by simp
qed

theorem realtime_charge_brackets_price_witness:
  "BuyerRealtimeTokenChargeNanos \<lparr>cur_code = ''usd'', cur_exponent = 2\<rparr> 3 1 500000 1500000 =
     Inr \<lparr>mn_currency = \<lparr>cur_code = ''usd'', cur_exponent = 2\<rparr>, mn_nanos = 2\<rparr>
   \<and> SupplierRealtimeTokenEntitlementNanos \<lparr>cur_code = ''usd'', cur_exponent = 2\<rparr> 3 1 500000 1500000 =
     Inr \<lparr>mn_currency = \<lparr>cur_code = ''usd'', cur_exponent = 2\<rparr>, mn_nanos = 4\<rparr>
   \<and> (4 :: int) - 2 \<le> 2"
    (is "?b \<and> ?s \<and> _")
proof -
  have b: ?b and s: ?s
    by (simp_all add: BuyerRealtimeTokenChargeNanos_def SupplierRealtimeTokenEntitlementNanos_def
        realtimeTokenChargeNanos_Inr round_div_def in64_def)
  from realtime_charge_brackets_price [OF b s] b s show ?thesis by simp
qed

lemma CatalogueGrossNanos_Inr:
  "CatalogueGrossNanos c price units = Inr m \<longleftrightarrow>
     0 \<le> sint price \<and> 0 \<le> sint units \<and> cur_code c \<noteq> [] \<and> mn_currency m = c
     \<and> sint (mn_nanos m) = round_div False (sint price * sint units) 1000000000000"
  by (auto simp: CatalogueGrossNanos_def sless64 NewMoneyNanos_Inr mulDiv_nonneg_Inr)

lemma RealtimeReuse_exact:
  assumes "RealtimeReuseBuyerChargeNanos c n rate = Inr (m, minimum)"
  shows "mn_currency m = c \<and> sint (mn_nanos m) = max 1000 (sint rate * sint n * 2 div 5000000)
    \<and> (minimum \<longleftrightarrow> sint rate * sint n * 2 div 5000000 < 1000)"
proof -
  have pos: "0 < sint n" "0 < sint rate"
    using assms by (auto simp: RealtimeReuseBuyerChargeNanos_def i64 split: if_splits)
  let ?P = "sint rate * sint n"
  have P: "0 < ?P" using pos by simp
  then have "sgn (?P * 400000000) = sgn (1000000000000000 :: int)" by simp
  then have "rounded False (?P * 400000000) 1000000000000000 = ?P * 400000000 div 1000000000000000"
    by (simp only: rounded_def round_div_def) simp
  also have "\<dots> = (?P * 2 * 200000000) div (5000000 * 200000000)" by simp
  also have "\<dots> = ?P * 2 div 5000000" by (rule div_mult_mult2) simp
  finally have q: "mul3Div rate n realtimeReuseRetainedShareNanos (1000000 * NanosPerMajorUnit) False
      = big_to_int64 (?P * 2 div 5000000)"
    by (simp add: mul3Div_rounded) (simp add: nanos_consts)
  from assms pos obtain v where v: "sint v = ?P * 2 div 5000000"
    and m: "mn_currency m = c" "mn_nanos m = (if v <s realtimeReuseMinimumChargeNanos
        then realtimeReuseMinimumChargeNanos else v)" "minimum = (v <s realtimeReuseMinimumChargeNanos)"
    by (auto simp: RealtimeReuseBuyerChargeNanos_def q Let_def big_to_int64_Inr NewMoneyNanos_Inr sle64
        split: if_splits)
  then show ?thesis by (simp add: sless64 max_def)
qed

lemma half_up_div:
  fixes n :: int
  shows "(n + 500) div 1000 = (if 1000 \<le> n mod 1000 * 2 then n div 1000 + 1 else n div 1000)"
proof -
  have r: "0 \<le> n mod 1000" "n mod 1000 < 1000" and n: "n + 500 = n mod 1000 + 500 + n div 1000 * 1000"
    by simp_all
  have "(n + 500) div 1000 = n div 1000 + (n mod 1000 + 500) div 1000"
    by (subst n) (rule div_mult_self1, simp)
  also have "(n mod 1000 + 500) div 1000 = (if 1000 \<le> n mod 1000 * 2 then 1 else 0)"
    using r by (auto intro: int_div_pos_eq [where r = "n mod 1000 - 500"])
  finally show ?thesis by simp
qed

lemma small_half:
  fixes n :: int
  assumes "0 \<le> n"
  shows "n div 1000 = 0 \<and> \<not> 1000 \<le> n mod 1000 * 2 \<longleftrightarrow> n < 500"
proof (cases "n < 1000")
  case True
  with assms have "n div 1000 = 0" "n mod 1000 = n" by simp_all
  then show ?thesis by auto
next
  case False
  then have "1 \<le> n div 1000" using int_one_le_iff_zero_less pos_imp_zdiv_pos_iff [of 1000 n] by simp
  with False show ?thesis by simp
qed

text \<open>
  The projection to the micro-unit ledger is the nearest micro, half rounded up, with a
  minimum of one micro for any positive amount; it is defined exactly for non-negative
  currency-bound amounts.
\<close>

theorem LedgerMicrosFromNanos_nearest:
  "LedgerMicrosFromNanos a = Inr k \<longleftrightarrow>
     cur_code (mn_currency a) \<noteq> [] \<and> 0 \<le> sint (mn_nanos a) \<and>
     sint k = (if 0 < sint (mn_nanos a) \<and> sint (mn_nanos a) < 500 then 1
               else (sint (mn_nanos a) + 500) div 1000)"
proof (cases "cur_code (mn_currency a) \<noteq> [] \<and> 0 \<le> sint (mn_nanos a)")
  case False
  then show ?thesis by (auto simp: LedgerMicrosFromNanos_def Currency_Code_def sless64)
next
  case True
  let ?n = "sint (mn_nanos a)" and ?w = "go_div (mn_nanos a) NanosPerMicro"
    and ?r = "go_rem (mn_nanos a) NanosPerMicro"
  have w: "sint ?w = ?n div 1000" and r: "sint ?r = ?n mod 1000"
    using True by (simp_all add: sint_go_div sint_go_rem)
  have nb: "?n \<le> maxInt64" by (rule sint64_bounds)
  have "in64 (?n mod 1000 * 2)"
    using pos_mod_bound [of 1000 ?n] pos_mod_sign [of 1000 ?n] by (simp only: in64_def) linarith
  then have r2: "sint (?r * 2) = ?n mod 1000 * 2" by (simp add: sint64_mult r wrap64_id)
  have "in64 (?n div 1000 + 1)"
    using True nb int_div_less_iff [of 1000 ?n maxInt64]
    by (simp add: in64_def pos_imp_zdiv_nonneg_iff)
  then have w1: "sint (?w + 1) = ?n div 1000 + 1" by (simp add: sint64_add w wrap64_id)
  have "0 \<le> ?n div 1000" using True by (simp add: pos_imp_zdiv_nonneg_iff)
  then have w0: "?w = 0 \<longleftrightarrow> ?n div 1000 = 0" "?w + 1 \<noteq> 0"
    by (simp_all flip: sint64_inject add: w w1 del: sint64_inject)
  have half: "(?n + 500) div 1000 = (if 1000 \<le> ?n mod 1000 * 2 then ?n div 1000 + 1 else ?n div 1000)"
    by (rule half_up_div)
  have small: "?n div 1000 = 0 \<and> \<not> 1000 \<le> ?n mod 1000 * 2 \<longleftrightarrow> ?n < 500"
    using True by (intro small_half) simp
  let ?w' = "if NanosPerMicro \<le>s ?r * 2 then ?w + 1 else ?w"
  let ?W = "if ?w' = 0 \<and> 0 <s mn_nanos a then 1 else ?w'"
  have S: "sint ?W = (if 0 < ?n \<and> ?n < 500 then 1 else (?n + 500) div 1000)"
  proof (cases "1000 \<le> ?n mod 1000 * 2")
    case up: True
    then have "\<not> ?n < 500" using small by blast
    with up show ?thesis
      by (simp only: half sle64 sless64 r2 w1 w0 sint_nanos_consts if_True if_False simp_thms)
  next
    case down: False
    then have "?n div 1000 = 0 \<longleftrightarrow> ?n < 500" using small by blast
    with down show ?thesis
      by (auto simp only: half sle64 sless64 r2 w w0 sint_nanos_consts sint64_numerals
          if_True if_False simp_thms split: if_split)
  qed
  have "?W = k \<longleftrightarrow> sint ?W = sint k" by (simp only: sint64_inject)
  then have W: "?W = k \<longleftrightarrow> sint k = (if 0 < ?n \<and> ?n < 500 then 1 else (?n + 500) div 1000)"
    unfolding S by (simp only: eq_commute [of _ "sint k"])
  have "LedgerMicrosFromNanos a = Inr ?W"
    using True unfolding LedgerMicrosFromNanos_def Let_def Currency_Code_def by (simp add: sless64)
  then have "LedgerMicrosFromNanos a = Inr k \<longleftrightarrow> ?W = k" by (simp only: sum.inject)
  with True W show ?thesis by (simp only: simp_thms)
qed

section \<open>The remainder carry conserves\<close>

definition carry_ok :: "RemainderCarry \<Rightarrow> bool" where
  "carry_ok r = (0 \<le> sint (rc_RemainderNanos r) \<and> sint (rc_RemainderNanos r) < 1000)"

text \<open>The accumulator's view of \<^verbatim>\<open>Accrue\<close>, the posted micros read as an integer.\<close>

definition accrue_step :: "MoneyNanos \<Rightarrow> RemainderCarry \<Rightarrow> (int \<times> RemainderCarry) result" where
  "accrue_step amount r =
     bind_result (RemainderCarry_Accrue amount r) (\<lambda>(post, r'). Inr (sint post, r'))"

lemma RemainderCarry_Accrue_Inr:
  assumes "carry_ok r" and "RemainderCarry_Accrue amount r = Inr (post, r')"
  shows "0 \<le> sint (mn_nanos amount)"
    and "sint post = (sint (rc_RemainderNanos r) + sint (mn_nanos amount)) div 1000"
    and "sint (rc_RemainderNanos r') = (sint (rc_RemainderNanos r) + sint (mn_nanos amount)) mod 1000"
    and "rc_PostedMicros r' = rc_PostedMicros r + post"
proof -
  let ?t = "rc_RemainderNanos r + mn_nanos amount"
  show a0: "0 \<le> sint (mn_nanos amount)"
    using assms(2) by (auto simp: RemainderCarry_Accrue_def sless64 split: if_splits)
  have nowrap: "\<not> ?t <s rc_RemainderNanos r"
    using assms(2) by (auto simp: RemainderCarry_Accrue_def Let_def split: if_splits)
  then have t: "sint ?t = sint (rc_RemainderNanos r) + sint (mn_nanos amount)"
    using add_overflow_test [of "mn_nanos amount" "rc_RemainderNanos r"] a0
    by (intro sint64_add_in64) (simp add: sless64)
  then have t0: "0 \<le> sint ?t" using assms(1) a0 by (simp add: carry_ok_def)
  have "post = go_div ?t NanosPerMicro"
    "rc_RemainderNanos r' = go_rem ?t NanosPerMicro" "rc_PostedMicros r' = rc_PostedMicros r + post"
    using assms(2) by (auto simp: RemainderCarry_Accrue_def Let_def split: if_splits)
  then show "sint post = (sint (rc_RemainderNanos r) + sint (mn_nanos amount)) div 1000"
    "sint (rc_RemainderNanos r') = (sint (rc_RemainderNanos r) + sint (mn_nanos amount)) mod 1000"
    "rc_PostedMicros r' = rc_PostedMicros r + post"
    using t t0 by (simp_all add: sint_go_div sint_go_rem)
qed

lemma accrue_step_Inr:
  assumes "carry_ok r" and "accrue_step amount r = Inr (p, r')"
  shows "p = (sint (rc_RemainderNanos r) + sint (mn_nanos amount)) div 1000"
    and "sint (rc_RemainderNanos r') = (sint (rc_RemainderNanos r) + sint (mn_nanos amount)) mod 1000"
    and "sint (rc_PostedMicros r') = wrap64 (sint (rc_PostedMicros r) + p)"
  using assms RemainderCarry_Accrue_Inr(2-4) [OF assms(1), of amount]
  by (auto simp: accrue_step_def sint64_add)

interpretation carry: conserving_carry accrue_step "\<lambda>a. sint (mn_nanos a)"
  "\<lambda>r. sint (rc_RemainderNanos r)" 1000 carry_ok
proof
  fix a p r r' assume r: "carry_ok r" "accrue_step a r = Inr (p, r')"
  show "carry_ok r'" by (simp add: carry_ok_def accrue_step_Inr(2) [OF r])
  show "sint (rc_RemainderNanos r) + sint (mn_nanos a) = 1000 * p + sint (rc_RemainderNanos r')"
    by (simp add: accrue_step_Inr(1,2) [OF r])
qed (simp_all add: carry_ok_def)

text \<open>
  C12. The remainder carry neither loses nor creates a nano, and the posting cadence does not
  matter: over any history of accruals into a new carry, the micros posted are exactly the
  whole micros of opening remainder plus everything accrued, and the remainder is the rest.
\<close>

theorem RemainderCarry_conserves:
  assumes "NewRemainderCarry c opening = Inr r" and "accrue_all accrue_step amounts r = Inr (posted, r')"
  shows "posted = (sint opening + (\<Sum>a\<leftarrow>amounts. sint (mn_nanos a))) div 1000
    \<and> sint (rc_RemainderNanos r') = (sint opening + (\<Sum>a\<leftarrow>amounts. sint (mn_nanos a))) mod 1000"
proof -
  have ok: "carry_ok r" and "rc_RemainderNanos r = opening"
    using assms(1) by (auto simp: NewRemainderCarry_def carry_ok_def i64 split: if_splits)
  then show ?thesis using carry.accrue_all_cadence [OF ok assms(2)] by simp
qed

theorem RemainderCarry_conserves_witness:
  "accrue_all accrue_step
      [\<lparr>mn_currency = \<lparr>cur_code = ''usd'', cur_exponent = 2\<rparr>, mn_nanos = 700\<rparr>,
       \<lparr>mn_currency = \<lparr>cur_code = ''usd'', cur_exponent = 2\<rparr>, mn_nanos = 1400\<rparr>]
      \<lparr>rc_currency = \<lparr>cur_code = ''usd'', cur_exponent = 2\<rparr>, rc_RemainderNanos = 5,
       rc_PostedMicros = 0, rrRoundingPolicy = economicRoundingPolicy\<rparr> =
    Inr (2, \<lparr>rc_currency = \<lparr>cur_code = ''usd'', cur_exponent = 2\<rparr>, rc_RemainderNanos = 105,
       rc_PostedMicros = 2, rrRoundingPolicy = economicRoundingPolicy\<rparr>)
   \<and> (2 :: int) = (5 + (700 + 1400)) div 1000"
    (is "accrue_all _ ?as ?r = Inr (2, ?r') \<and> _")
proof -
  have new: "NewRemainderCarry \<lparr>cur_code = ''usd'', cur_exponent = 2\<rparr> 5 = Inr ?r"
    by (simp add: NewRemainderCarry_def Currency_Code_def i64 nanos_consts wrap64_def)
  have run: "accrue_all accrue_step ?as ?r = Inr (2, ?r')"
    by (simp add: accrue_step_def RemainderCarry_Accrue_def Currency_Code_def i64 nanos_consts
        go_div_def go_rem_def wrap64_def signed_divide_int_def signed_modulo_int_def)
  from RemainderCarry_conserves [OF new run] run show ?thesis by simp
qed

end
