(* ===== verification/Execution_Envelope.thy ===== *)
theory Execution_Envelope
  imports Sql_Tx Money_Nanos "HOL-Library.Product_Lexorder" "HOL-Library.Sublist"
begin

text \<open>
  \<^verbatim>\<open>src/src/control/execution_envelope.go\<close> over the tables \<^verbatim>\<open>execution_envelopes\<close>,
  \<^verbatim>\<open>execution_envelope_spends\<close> and \<^verbatim>\<open>execution_envelope_events\<close> of
  \<^verbatim>\<open>src/src/control/schema.sql\<close>: a buyer's prefunded grant, the idempotent holds against it,
  their capture or release, wall-clock expiry and the recovery of orphaned holds.

  A time is an integer number of microseconds, the resolution of \<^verbatim>\<open>timestamptz\<close>; the SQL
  \<^verbatim>\<open>now()\<close> and Go's \<^verbatim>\<open>time.Now()\<close> are separate arguments. Fresh UUIDs are arguments.
  The texts of the authority document that are parsed are represented by what they denote:
  \<^verbatim>\<open>ea_BuyerID\<close> and \<^verbatim>\<open>ea_ExpiresAt\<close> are \<^const>\<open>None\<close> when they do not parse. The runtime-profile
  catalogue, the conversion of its float rates, the digest of the canonical JSON and the
  buyer-funding evaluation are arguments, collected in \<^verbatim>\<open>envelope_deps\<close>.
\<close>

section \<open>Rows\<close>

definition executionEnvelopeAuthorityVersion :: int where "executionEnvelopeAuthorityVersion = 1"
definition executionEnvelopeRoundingPolicy :: string where
  "executionEnvelopeRoundingPolicy = ''execution-envelope-nanos-v1''"
definition executionEnvelopeMaxTTL :: int64 where "executionEnvelopeMaxTTL = 24 * 3600"
definition executionEnvelopeMinTTL :: int64 where "executionEnvelopeMinTTL = 30"
definition executionEnvelopeMaxRequests :: int64 where "executionEnvelopeMaxRequests = 100000"
definition executionEnvelopeMaxTokensCap :: int64 where "executionEnvelopeMaxTokensCap = 1000000000"

abbreviation "errEnvelopeNotFound \<equiv> Sentinel ''errEnvelopeNotFound''"
abbreviation "errEnvelopeExpired \<equiv> Sentinel ''errEnvelopeExpired''"
abbreviation "errEnvelopeInsufficient \<equiv> Sentinel ''errEnvelopeInsufficient''"
abbreviation "errEnvelopeCeilingExceeded \<equiv> Sentinel ''errEnvelopeCeilingExceeded''"
abbreviation "errEnvelopeScopeMismatch \<equiv> Sentinel ''errEnvelopeScopeMismatch''"
abbreviation "errEnvelopeIdempotencyConflict \<equiv> Sentinel ''errEnvelopeIdempotencyConflict''"
abbreviation "errNoRows \<equiv> Sentinel ''pgx.ErrNoRows''"
abbreviation "errForeignKeyViolation \<equiv> Sentinel ''SQLSTATE 23503''"

record VLLMRuntimeProfile =
  vp_RuntimeProfileID :: string
  vp_ProfileSHA256 :: string
  vp_ModelAlias :: string

record ExecutionEnvelopeAuthority =
  ea_Version :: int
  ea_Currency :: string
  ea_BuyerID :: "uuid option"
  ea_CapNanos :: int64
  ea_MaxRequests :: int64
  ea_MaxTokens :: int64
  ea_PerRequestCeilingNanos :: int64
  ea_RuntimeProfileID :: string
  ea_RuntimeProfileSHA256 :: string
  ea_ModelAlias :: string
  ea_BuyerInputNanosPerMillion :: int64
  ea_BuyerOutputNanosPerMillion :: int64
  ea_ExpiresAt :: "int option"
  ea_RoundingPolicy :: string

record ExecutionEnvelopeCreateRequest =
  cr_RuntimeProfileID :: string
  cr_CapNanos :: int64
  cr_MaxRequests :: int64
  cr_MaxTokens :: int64
  cr_PerRequestCeilingNanos :: int64
  cr_TTLSeconds :: int64

datatype envelope_state = ACTIVE | EXPIRED | CLOSED

record ExecutionEnvelope =
  ee_ID :: uuid
  ee_BuyerID :: uuid
  ee_Currency :: string
  ee_CapNanos :: int64
  ee_SpentNanos :: int64
  ee_ReservedNanos :: int64
  ee_MaxRequests :: int64
  ee_RequestCount :: int64
  ee_MaxTokens :: int64
  ee_TokenCount :: int64
  ee_PerRequestCeilingNanos :: int64
  ee_RuntimeProfileID :: string
  ee_RuntimeProfileSHA256 :: string
  ee_ModelAlias :: string
  ee_ExpiresAt :: int
  ee_State :: envelope_state
  ee_Version :: int64
  ee_Authority :: ExecutionEnvelopeAuthority
  ee_AuthoritySHA256 :: string
  ee_CreatedAt :: int
  ee_ClosedAt :: "int option"

datatype spend_state = RESERVED | CAPTURED | RELEASED | VOIDED

record ExecutionEnvelopeSpend =
  es_ID :: uuid
  es_EnvelopeID :: uuid
  es_BuyerID :: uuid
  es_IdempotencyKey :: string
  es_RequestID :: string
  es_ContractID :: "uuid option"
  es_State :: spend_state
  es_ReservedNanos :: int64
  es_CapturedNanos :: int64
  es_ReservedTokens :: int64
  es_CapturedTokens :: int64
  es_CreatedAt :: int
  es_FinalizedAt :: "int option"

datatype envelope_event =
    EvCreated ExecutionEnvelopeAuthority
  | EvSpendReserved uuid int64 string
  | EvSpendCaptured uuid uuid int64 int64
  | EvSpendVoided uuid "uuid option" string int64
  | EvExpired

text \<open>\<^verbatim>\<open>contracts\<close> is the part of \<^verbatim>\<open>execution_contracts\<close> that is read: identity and state.\<close>

record envelope_db =
  envelopes :: "ExecutionEnvelope list"
  spends :: "ExecutionEnvelopeSpend list"
  envelope_events :: "(uuid \<times> envelope_event) list"
  contracts :: "(uuid \<times> string) list"

section \<open>Authority\<close>

definition is_hex_digit :: "char \<Rightarrow> bool" where
  "is_hex_digit c = (let n = of_char c :: nat in
     (48 \<le> n \<and> n \<le> 57) \<or> (97 \<le> n \<and> n \<le> 102) \<or> (65 \<le> n \<and> n \<le> 70))"

definition validSHA256 :: "string \<Rightarrow> bool" where
  "validSHA256 value = (length value = 64 \<and> list_all is_hex_digit value)"

definition validateExecutionEnvelopeAuthority ::
    "settlement \<Rightarrow> ExecutionEnvelopeAuthority \<Rightarrow> unit result" where
  "validateExecutionEnvelopeAuthority st a =
     (if ea_Version a \<noteq> executionEnvelopeAuthorityVersion
         \<or> ea_RoundingPolicy a \<noteq> executionEnvelopeRoundingPolicy
      then Inl (Msg ''unsupported version or rounding policy'')
      else bind_result (RequireSettlementCurrency st (ea_Currency a)) (\<lambda>_.
      if ea_BuyerID a = None then Inl (Msg ''lacks a valid buyer id'')
      else if ea_CapNanos a \<le>s 0 \<or> ea_PerRequestCeilingNanos a \<le>s 0
              \<or> ea_CapNanos a <s ea_PerRequestCeilingNanos a
              \<or> ea_MaxRequests a <s 1 \<or> executionEnvelopeMaxRequests <s ea_MaxRequests a
              \<or> ea_MaxTokens a <s 0 \<or> executionEnvelopeMaxTokensCap <s ea_MaxTokens a
        then Inl (Msg ''invalid spend or request bounds'')
      else if ea_RuntimeProfileID a = [] \<or> \<not> validSHA256 (ea_RuntimeProfileSHA256 a)
              \<or> TrimSpace (ea_ModelAlias a) = []
        then Inl (Msg ''lacks runtime scope'')
      else if ea_BuyerInputNanosPerMillion a \<le>s 0 \<or> ea_BuyerOutputNanosPerMillion a \<le>s 0
        then Inl (Msg ''lacks positive buyer token rates'')
      else if ea_ExpiresAt a = None then Inl (Msg ''invalid expiry'')
      else Inr ()))"

definition executionEnvelopeAuthorityDigest ::
    "(ExecutionEnvelopeAuthority \<Rightarrow> string) \<Rightarrow> settlement \<Rightarrow> ExecutionEnvelopeAuthority \<Rightarrow> string result" where
  "executionEnvelopeAuthorityDigest sha256_json st a =
     bind_result (validateExecutionEnvelopeAuthority st a) (\<lambda>_. Inr (sha256_json a))"

definition ceilNanosToMicros :: "int64 \<Rightarrow> int64" where
  "ceilNanosToMicros nanos =
     (if nanos \<le>s 0 then 0 else go_div (nanos + NanosPerMicro - 1) NanosPerMicro)"

section \<open>Create and read\<close>

record envelope_deps =
  vllmProfileByID :: "string \<Rightarrow> VLLMRuntimeProfile option"
  validateVLLMRuntimeProfile :: "VLLMRuntimeProfile \<Rightarrow> unit result"
  buyerInputRate :: "VLLMRuntimeProfile \<Rightarrow> int64 result"
  buyerOutputRate :: "VLLMRuntimeProfile \<Rightarrow> int64 result"
  sha256_json :: "ExecutionEnvelopeAuthority \<Rightarrow> string"
  evaluateRealtimeBuyerFunding :: "uuid \<Rightarrow> int64 \<Rightarrow> envelope_db \<Rightarrow> unit result"

definition insert_envelope :: "ExecutionEnvelope \<Rightarrow> envelope_db \<Rightarrow> (unit \<times> envelope_db) result" where
  "insert_envelope e d =
     (if ee_ID e \<in> ee_ID ` set (envelopes d) then Inl errUniqueViolation
      else Inr ((), d\<lparr>envelopes := envelopes d @ [e]\<rparr>))"

definition insert_event :: "uuid \<Rightarrow> envelope_event \<Rightarrow> envelope_db \<Rightarrow> (unit \<times> envelope_db) result" where
  "insert_event envelopeID ev d = Inr ((), d\<lparr>envelope_events := envelope_events d @ [(envelopeID, ev)]\<rparr>)"

text \<open>The authority document and the row that one create request freezes.\<close>

definition newEnvelopeAuthority ::
    "uuid \<Rightarrow> Currency \<Rightarrow> ExecutionEnvelopeCreateRequest \<Rightarrow> VLLMRuntimeProfile \<Rightarrow> int64 \<Rightarrow> int64 \<Rightarrow> int
     \<Rightarrow> ExecutionEnvelopeAuthority" where
  "newEnvelopeAuthority buyerID currency req profile buyerIn buyerOut expiresAt =
     \<lparr>ea_Version = executionEnvelopeAuthorityVersion, ea_Currency = Currency_Code currency,
      ea_BuyerID = Some buyerID, ea_CapNanos = cr_CapNanos req, ea_MaxRequests = cr_MaxRequests req,
      ea_MaxTokens = cr_MaxTokens req, ea_PerRequestCeilingNanos = cr_PerRequestCeilingNanos req,
      ea_RuntimeProfileID = vp_RuntimeProfileID profile,
      ea_RuntimeProfileSHA256 = vp_ProfileSHA256 profile, ea_ModelAlias = vp_ModelAlias profile,
      ea_BuyerInputNanosPerMillion = buyerIn, ea_BuyerOutputNanosPerMillion = buyerOut,
      ea_ExpiresAt = Some expiresAt, ea_RoundingPolicy = executionEnvelopeRoundingPolicy\<rparr>"

definition newEnvelope ::
    "uuid \<Rightarrow> uuid \<Rightarrow> ExecutionEnvelopeAuthority \<Rightarrow> string \<Rightarrow> Currency \<Rightarrow> int \<Rightarrow> int \<Rightarrow> ExecutionEnvelope" where
  "newEnvelope newID buyerID authority digest currency expiresAt now =
     \<lparr>ee_ID = newID, ee_BuyerID = buyerID, ee_Currency = Currency_Code currency,
      ee_CapNanos = ea_CapNanos authority, ee_SpentNanos = 0, ee_ReservedNanos = 0,
      ee_MaxRequests = ea_MaxRequests authority, ee_RequestCount = 0,
      ee_MaxTokens = ea_MaxTokens authority, ee_TokenCount = 0,
      ee_PerRequestCeilingNanos = ea_PerRequestCeilingNanos authority,
      ee_RuntimeProfileID = ea_RuntimeProfileID authority,
      ee_RuntimeProfileSHA256 = ea_RuntimeProfileSHA256 authority,
      ee_ModelAlias = ea_ModelAlias authority, ee_ExpiresAt = expiresAt, ee_State = ACTIVE,
      ee_Version = 0, ee_Authority = authority, ee_AuthoritySHA256 = digest, ee_CreatedAt = now,
      ee_ClosedAt = None\<rparr>"

text \<open>The validation before the transaction: the currency, the authority and its digest.\<close>

definition prepareEnvelope ::
    "envelope_deps \<Rightarrow> settlement \<Rightarrow> uuid \<Rightarrow> ExecutionEnvelopeCreateRequest \<Rightarrow> int
     \<Rightarrow> (Currency \<times> ExecutionEnvelopeAuthority \<times> string) result" where
  "prepareEnvelope deps st buyerID req now =
     (if buyerID = uuid_Nil then Inl (Msg ''execution envelope requires a buyer'')
      else case vllmProfileByID deps (TrimSpace (cr_RuntimeProfileID req)) of
        None \<Rightarrow> Inl (Msg ''unknown runtime profile for execution envelope'')
      | Some profile \<Rightarrow>
        bind_result (validateVLLMRuntimeProfile deps profile) (\<lambda>_.
        bind_result (SettlementCurrency st) (\<lambda>currency.
        if cr_CapNanos req \<le>s 0 \<or> cr_PerRequestCeilingNanos req \<le>s 0
           \<or> cr_CapNanos req <s cr_PerRequestCeilingNanos req
           \<or> cr_MaxRequests req <s 1 \<or> executionEnvelopeMaxRequests <s cr_MaxRequests req
           \<or> cr_MaxTokens req <s 0 \<or> executionEnvelopeMaxTokensCap <s cr_MaxTokens req
        then Inl (Msg ''execution envelope bounds are invalid'')
        else if cr_TTLSeconds req <s executionEnvelopeMinTTL \<or> executionEnvelopeMaxTTL <s cr_TTLSeconds req
        then Inl (Msg ''execution envelope ttl out of range'')
        else bind_result (buyerInputRate deps profile) (\<lambda>buyerIn.
        bind_result (buyerOutputRate deps profile) (\<lambda>buyerOut.
        let expiresAt = now + sint (cr_TTLSeconds req) * 1000000;
            authority = newEnvelopeAuthority buyerID currency req profile buyerIn buyerOut expiresAt
        in bind_result (validateExecutionEnvelopeAuthority st authority) (\<lambda>_.
           bind_result (executionEnvelopeAuthorityDigest (sha256_json deps) st authority) (\<lambda>digest.
             Inr (currency, authority, digest))))))))"

definition CreateExecutionEnvelope ::
    "envelope_deps \<Rightarrow> settlement \<Rightarrow> uuid \<Rightarrow> ExecutionEnvelopeCreateRequest \<Rightarrow> int \<Rightarrow> uuid
     \<Rightarrow> (envelope_db, ExecutionEnvelope) txop" where
  "CreateExecutionEnvelope deps st buyerID req now fresh =
     (case prepareEnvelope deps st buyerID req now of
        Inl e \<Rightarrow> tx_fail e
      | Inr (currency, authority, digest) \<Rightarrow>
          let env = newEnvelope fresh buyerID authority digest currency
                (now + sint (cr_TTLSeconds req) * 1000000) now
          in tx_bind (tx_query (evaluateRealtimeBuyerFunding deps buyerID (cr_CapNanos req))) (\<lambda>funded.
             case funded of Inl e \<Rightarrow> tx_fail e
             | Inr _ \<Rightarrow>
               tx_bind (tx_stmt (insert_envelope env)) (\<lambda>_.
               tx_bind (tx_stmt (insert_event fresh (EvCreated authority))) (\<lambda>_.
                 tx_return env))))"

definition scanExecutionEnvelope ::
    "envelope_deps \<Rightarrow> settlement \<Rightarrow> ExecutionEnvelope \<Rightarrow> ExecutionEnvelope result" where
  "scanExecutionEnvelope deps st row =
     bind_result (validateExecutionEnvelopeAuthority st (ee_Authority row)) (\<lambda>_.
       case executionEnvelopeAuthorityDigest (sha256_json deps) st (ee_Authority row) of
         Inl _ \<Rightarrow> Inl (Msg ''execution envelope authority digest mismatch'')
       | Inr digest \<Rightarrow>
           if digest \<noteq> ee_AuthoritySHA256 row
           then Inl (Msg ''execution envelope authority digest mismatch'') else Inr row)"

definition GetExecutionEnvelope ::
    "envelope_deps \<Rightarrow> settlement \<Rightarrow> uuid \<Rightarrow> uuid \<Rightarrow> envelope_db \<Rightarrow> ExecutionEnvelope result" where
  "GetExecutionEnvelope deps st buyerID envelopeID d =
     (case find (\<lambda>e. ee_ID e = envelopeID \<and> ee_BuyerID e = buyerID) (envelopes d) of
        None \<Rightarrow> Inl errEnvelopeNotFound
      | Some row \<Rightarrow> scanExecutionEnvelope deps st row)"

section \<open>Reserve\<close>

definition select_spend_by_key :: "uuid \<Rightarrow> string \<Rightarrow> envelope_db \<Rightarrow> ExecutionEnvelopeSpend option" where
  "select_spend_by_key envelopeID key d =
     find (\<lambda>s. es_EnvelopeID s = envelopeID \<and> es_IdempotencyKey s = key) (spends d)"

text \<open>The \<^verbatim>\<open>WHERE\<close> clause of the capacity claim, read from left to right.\<close>

definition claim_cond ::
    "uuid \<Rightarrow> int64 \<Rightarrow> int64 \<Rightarrow> uuid \<Rightarrow> VLLMRuntimeProfile \<Rightarrow> int \<Rightarrow> ExecutionEnvelope \<Rightarrow> bool result" where
  "claim_cond envelopeID need tokens buyerID profile sqlNow e =
     (if \<not> (ee_ID e = envelopeID \<and> ee_BuyerID e = buyerID \<and> ee_State e = ACTIVE
            \<and> sqlNow < ee_ExpiresAt e \<and> 0 <s need \<and> need \<le>s ee_PerRequestCeilingNanos e)
      then Inr False
      else bind_result (sql_add (ee_SpentNanos e) (ee_ReservedNanos e)) (\<lambda>held.
      bind_result (sql_add held need) (\<lambda>total.
      if \<not> total \<le>s ee_CapNanos e then Inr False
      else bind_result (sql_add (ee_RequestCount e) 1) (\<lambda>requests.
      if \<not> requests \<le>s ee_MaxRequests e then Inr False
      else bind_result
        (if ee_MaxTokens e = 0 then Inr True
         else bind_result (sql_add (ee_TokenCount e) tokens) (\<lambda>t. Inr (t \<le>s ee_MaxTokens e)))
        (\<lambda>tokensFit. Inr (tokensFit \<and> ee_RuntimeProfileID e = vp_RuntimeProfileID profile
           \<and> ee_RuntimeProfileSHA256 e = vp_ProfileSHA256 profile))))))"

definition claim_set :: "int64 \<Rightarrow> int64 \<Rightarrow> ExecutionEnvelope \<Rightarrow> ExecutionEnvelope result" where
  "claim_set need tokens e =
     bind_result (sql_add (ee_ReservedNanos e) need) (\<lambda>reserved.
     bind_result (sql_add (ee_RequestCount e) 1) (\<lambda>requests.
     bind_result (sql_add (ee_TokenCount e) tokens) (\<lambda>toks.
     bind_result (sql_add (ee_Version e) 1) (\<lambda>version.
       Inr (e\<lparr>ee_ReservedNanos := reserved, ee_RequestCount := requests,
              ee_TokenCount := toks, ee_Version := version\<rparr>)))))"

definition update_envelopes ::
    "(ExecutionEnvelope \<Rightarrow> bool result) \<Rightarrow> (ExecutionEnvelope \<Rightarrow> ExecutionEnvelope result)
     \<Rightarrow> envelope_db \<Rightarrow> (nat \<times> envelope_db) result" where
  "update_envelopes cond upd d =
     bind_result (update_where cond upd (envelopes d)) (\<lambda>(n, es). Inr (n, d\<lparr>envelopes := es\<rparr>))"

definition update_spends ::
    "(ExecutionEnvelopeSpend \<Rightarrow> bool result) \<Rightarrow> (ExecutionEnvelopeSpend \<Rightarrow> ExecutionEnvelopeSpend result)
     \<Rightarrow> envelope_db \<Rightarrow> (nat \<times> envelope_db) result" where
  "update_spends cond upd d =
     bind_result (update_where cond upd (spends d)) (\<lambda>(n, ss). Inr (n, d\<lparr>spends := ss\<rparr>))"

text \<open>The error of a refused claim, from the row the probe reads.\<close>

definition reserve_refusal ::
    "uuid \<Rightarrow> int64 \<Rightarrow> VLLMRuntimeProfile \<Rightarrow> int \<Rightarrow> ExecutionEnvelope option \<Rightarrow> go_error" where
  "reserve_refusal buyerID need profile wallNow probe =
     (case probe of None \<Rightarrow> errEnvelopeNotFound
      | Some e \<Rightarrow>
          if ee_BuyerID e \<noteq> buyerID then errEnvelopeNotFound
          else if ee_State e \<noteq> ACTIVE \<or> \<not> wallNow < ee_ExpiresAt e then errEnvelopeExpired
          else if ee_RuntimeProfileID e \<noteq> vp_RuntimeProfileID profile
                  \<or> ee_RuntimeProfileSHA256 e \<noteq> vp_ProfileSHA256 profile
            then errEnvelopeScopeMismatch
          else if ee_PerRequestCeilingNanos e <s need then errEnvelopeCeilingExceeded
          else errEnvelopeInsufficient)"

definition insert_spend ::
    "ExecutionEnvelopeSpend \<Rightarrow> envelope_db \<Rightarrow> (unit \<times> envelope_db) result" where
  "insert_spend row d =
     (if \<exists>s\<in>set (spends d). es_ID s = es_ID row \<or>
          (es_EnvelopeID s = es_EnvelopeID row \<and> es_IdempotencyKey s = es_IdempotencyKey row)
      then Inl errUniqueViolation
      else Inr ((), d\<lparr>spends := spends d @ [row]\<rparr>))"

definition newSpend ::
    "uuid \<Rightarrow> uuid \<Rightarrow> uuid \<Rightarrow> string \<Rightarrow> string \<Rightarrow> int64 \<Rightarrow> int64 \<Rightarrow> int \<Rightarrow> ExecutionEnvelopeSpend" where
  "newSpend spendID envelopeID buyerID key requestID need tokens now =
     \<lparr>es_ID = spendID, es_EnvelopeID = envelopeID, es_BuyerID = buyerID, es_IdempotencyKey = key,
      es_RequestID = requestID, es_ContractID = None, es_State = RESERVED, es_ReservedNanos = need,
      es_CapturedNanos = 0, es_ReservedTokens = tokens, es_CapturedTokens = 0, es_CreatedAt = now,
      es_FinalizedAt = None\<rparr>"

text \<open>Taking a claim back after the unique violation: the compensating \<^verbatim>\<open>UPDATE\<close>.\<close>

definition unclaim_cond :: "uuid \<Rightarrow> int64 \<Rightarrow> int64 \<Rightarrow> ExecutionEnvelope \<Rightarrow> bool result" where
  "unclaim_cond envelopeID need tokens e =
     Inr (ee_ID e = envelopeID \<and> need \<le>s ee_ReservedNanos e \<and> 1 \<le>s ee_RequestCount e
          \<and> tokens \<le>s ee_TokenCount e)"

definition unclaim_set :: "int64 \<Rightarrow> int64 \<Rightarrow> ExecutionEnvelope \<Rightarrow> ExecutionEnvelope result" where
  "unclaim_set need tokens e =
     bind_result (sql_sub (ee_ReservedNanos e) need) (\<lambda>reserved.
     bind_result (sql_sub (ee_RequestCount e) 1) (\<lambda>requests.
     bind_result (sql_sub (ee_TokenCount e) tokens) (\<lambda>toks.
     bind_result (sql_add (ee_Version e) 1) (\<lambda>version.
       Inr (e\<lparr>ee_ReservedNanos := reserved, ee_RequestCount := requests,
              ee_TokenCount := toks, ee_Version := version\<rparr>)))))"

text \<open>
  The body of \<^verbatim>\<open>reserveEnvelopeSpendTx\<close> after its first \<^verbatim>\<open>SELECT\<close>, whose answer is the
  argument \<^verbatim>\<open>found\<close>: another transaction may commit between that \<^verbatim>\<open>SELECT\<close> and the claim,
  so the answer can be out of date by then.
\<close>

definition reserve_after_select ::
    "ExecutionEnvelopeSpend option \<Rightarrow> uuid \<Rightarrow> uuid \<Rightarrow> int64 \<Rightarrow> int64 \<Rightarrow> string \<Rightarrow> string
     \<Rightarrow> VLLMRuntimeProfile \<Rightarrow> int \<Rightarrow> int \<Rightarrow> uuid \<Rightarrow> (envelope_db, ExecutionEnvelopeSpend) txop" where
  "reserve_after_select found envelopeID buyerID need tokens key requestID profile sqlNow wallNow spendID =
     (case found of
        Some existing \<Rightarrow>
          if es_BuyerID existing \<noteq> buyerID \<or> es_ReservedNanos existing \<noteq> need
          then tx_fail errEnvelopeIdempotencyConflict
          else if requestID \<noteq> [] \<and> es_RequestID existing \<noteq> [] \<and> es_RequestID existing \<noteq> requestID
          then tx_fail errEnvelopeIdempotencyConflict
          else tx_return existing
      | None \<Rightarrow>
          tx_bind (tx_stmt (update_envelopes
              (claim_cond envelopeID need tokens buyerID profile sqlNow) (claim_set need tokens))) (\<lambda>n.
          if n = 0 then
            tx_bind (tx_query (\<lambda>d. find (\<lambda>e. ee_ID e = envelopeID) (envelopes d))) (\<lambda>probe.
              tx_fail (reserve_refusal buyerID need profile wallNow probe))
          else
            let spend = newSpend spendID envelopeID buyerID key requestID need tokens wallNow in
            tx_handle (tx_stmt (insert_spend spend))
              (\<lambda>err.
                if err = errUniqueViolation then
                  tx_bind (tx_stmt (update_envelopes
                      (unclaim_cond envelopeID need tokens) (unclaim_set need tokens))) (\<lambda>_.
                  tx_bind (tx_query (select_spend_by_key envelopeID key)) (\<lambda>again.
                    case again of None \<Rightarrow> tx_fail errNoRows
                    | Some existing \<Rightarrow>
                        if es_BuyerID existing \<noteq> buyerID \<or> es_ReservedNanos existing \<noteq> need
                        then tx_fail errEnvelopeIdempotencyConflict
                        else tx_return existing))
                else tx_fail err)
              (\<lambda>_. tx_bind (tx_stmt (insert_event envelopeID (EvSpendReserved spendID need key))) (\<lambda>_.
                 tx_return spend))))"

text \<open>\<^verbatim>\<open>firstSelect\<close> is the first \<^verbatim>\<open>SELECT\<close>, for the trimmed key.\<close>

definition reserve_with ::
    "(string \<Rightarrow> (envelope_db, ExecutionEnvelopeSpend option) txop) \<Rightarrow> uuid \<Rightarrow> uuid \<Rightarrow> int64 \<Rightarrow> int64
     \<Rightarrow> string \<Rightarrow> string \<Rightarrow> VLLMRuntimeProfile \<Rightarrow> int \<Rightarrow> int \<Rightarrow> uuid
     \<Rightarrow> (envelope_db, ExecutionEnvelopeSpend) txop" where
  "reserve_with firstSelect envelopeID buyerID need tokens rawKey requestID profile sqlNow wallNow spendID =
     (if envelopeID = uuid_Nil \<or> buyerID = uuid_Nil \<or> need \<le>s 0
      then tx_fail (Msg ''envelope spend requires envelope, buyer, and positive nanos'')
      else let key = TrimSpace rawKey in
      if key = [] then tx_fail (Msg ''envelope spend requires an idempotency key'')
      else if tokens <s 0 then tx_fail (Msg ''envelope reserved tokens cannot be negative'')
      else tx_bind (firstSelect key) (\<lambda>found.
        reserve_after_select found envelopeID buyerID need tokens key requestID profile
          sqlNow wallNow spendID))"

definition reserveEnvelopeSpendTx ::
    "uuid \<Rightarrow> uuid \<Rightarrow> int64 \<Rightarrow> int64 \<Rightarrow> string \<Rightarrow> string \<Rightarrow> VLLMRuntimeProfile \<Rightarrow> int \<Rightarrow> int \<Rightarrow> uuid
     \<Rightarrow> (envelope_db, ExecutionEnvelopeSpend) txop" where
  "reserveEnvelopeSpendTx envelopeID =
     reserve_with (\<lambda>key. tx_query (select_spend_by_key envelopeID key)) envelopeID"

text \<open>The same call when a concurrent transaction commits after the first \<^verbatim>\<open>SELECT\<close> found nothing.\<close>

definition reserveEnvelopeSpendRaced ::
    "uuid \<Rightarrow> uuid \<Rightarrow> int64 \<Rightarrow> int64 \<Rightarrow> string \<Rightarrow> string \<Rightarrow> VLLMRuntimeProfile \<Rightarrow> int \<Rightarrow> int \<Rightarrow> uuid
     \<Rightarrow> (envelope_db, ExecutionEnvelopeSpend) txop" where
  "reserveEnvelopeSpendRaced envelopeID = reserve_with (\<lambda>key. tx_return None) envelopeID"

section \<open>Bind, capture, release\<close>

definition bind_stmt :: "uuid \<Rightarrow> uuid \<Rightarrow> envelope_db \<Rightarrow> (nat \<times> envelope_db) result" where
  "bind_stmt spendID contractID d =
     update_spends
       (\<lambda>s. Inr (es_ID s = spendID \<and> es_State s = RESERVED \<and> es_ContractID s = None))
       (\<lambda>s. if contractID \<notin> fst ` set (contracts d) then Inl errForeignKeyViolation
             else if \<exists>s'\<in>set (spends d). es_ContractID s' = Some contractID then Inl errUniqueViolation
             else Inr (s\<lparr>es_ContractID := Some contractID\<rparr>)) d"

definition bindEnvelopeSpendContractTx :: "uuid \<Rightarrow> uuid \<Rightarrow> (envelope_db, unit) txop" where
  "bindEnvelopeSpendContractTx spendID contractID =
     tx_bind (tx_stmt (bind_stmt spendID contractID)) (\<lambda>n.
       if n \<noteq> 1 then tx_fail (Msg ''envelope spend could not bind contract'') else tx_return ())"

definition select_spend_by_contract :: "uuid \<Rightarrow> envelope_db \<Rightarrow> ExecutionEnvelopeSpend option" where
  "select_spend_by_contract contractID d = find (\<lambda>s. es_ContractID s = Some contractID) (spends d)"

definition capture_cond :: "uuid \<Rightarrow> int64 \<Rightarrow> int64 \<Rightarrow> int64 \<Rightarrow> ExecutionEnvelope \<Rightarrow> bool result" where
  "capture_cond envelopeID reserved captured tokenRelease e =
     (if \<not> (ee_ID e = envelopeID \<and> reserved \<le>s ee_ReservedNanos e) then Inr False
      else bind_result (sql_add (ee_SpentNanos e) captured) (\<lambda>spent.
        Inr (spent \<le>s ee_CapNanos e \<and> tokenRelease \<le>s ee_TokenCount e)))"

definition capture_set :: "int64 \<Rightarrow> int64 \<Rightarrow> int64 \<Rightarrow> ExecutionEnvelope \<Rightarrow> ExecutionEnvelope result" where
  "capture_set reserved captured tokenRelease e =
     bind_result (sql_sub (ee_ReservedNanos e) reserved) (\<lambda>reserved'.
     bind_result (sql_add (ee_SpentNanos e) captured) (\<lambda>spent.
     bind_result (sql_sub (ee_TokenCount e) tokenRelease) (\<lambda>toks.
     bind_result (sql_add (ee_Version e) 1) (\<lambda>version.
       Inr (e\<lparr>ee_ReservedNanos := reserved', ee_SpentNanos := spent,
              ee_TokenCount := toks, ee_Version := version\<rparr>)))))"

definition captureEnvelopeSpendTx :: "uuid \<Rightarrow> int64 \<Rightarrow> int64 \<Rightarrow> int \<Rightarrow> (envelope_db, unit) txop" where
  "captureEnvelopeSpendTx contractID capturedNanos capturedTokens0 sqlNow =
     (if contractID = uuid_Nil \<or> capturedNanos \<le>s 0
      then tx_fail (Msg ''envelope capture requires contract and positive captured nanos'')
      else if capturedTokens0 <s 0 then tx_fail (Msg ''envelope captured tokens cannot be negative'')
      else tx_bind (tx_query (select_spend_by_contract contractID)) (\<lambda>found.
      case found of None \<Rightarrow> tx_return ()
      | Some s \<Rightarrow>
          if es_State s = CAPTURED then
            (if es_CapturedNanos s \<noteq> capturedNanos then tx_fail (Msg ''already captured at another amount'')
             else tx_return ())
          else if es_State s \<noteq> RESERVED then tx_fail (Msg ''cannot be captured'')
          else if es_ReservedNanos s <s capturedNanos then tx_fail (Msg ''captured exceeds reserved'')
          else
            let capturedTokens = (if es_ReservedTokens s <s capturedTokens0 then es_ReservedTokens s
                                  else capturedTokens0);
                tokenRelease = es_ReservedTokens s - capturedTokens
            in tx_bind (tx_stmt (update_envelopes
                  (capture_cond (es_EnvelopeID s) (es_ReservedNanos s) capturedNanos tokenRelease)
                  (capture_set (es_ReservedNanos s) capturedNanos tokenRelease))) (\<lambda>n.
               if n \<noteq> 1 then tx_fail (Msg ''envelope capture failed capacity accounting'')
               else tx_bind (tx_stmt (update_spends
                  (\<lambda>r. Inr (es_ID r = es_ID s \<and> es_State r = RESERVED))
                  (\<lambda>r. Inr (r\<lparr>es_State := CAPTURED, es_CapturedNanos := capturedNanos,
                            es_CapturedTokens := capturedTokens, es_FinalizedAt := Some sqlNow\<rparr>)))) (\<lambda>_.
               tx_stmt (insert_event (es_EnvelopeID s)
                  (EvSpendCaptured (es_ID s) contractID capturedNanos (es_ReservedNanos s)))))))"

text \<open>Giving a hold back, as the contract release and the orphan recovery do.\<close>

definition release_cond :: "uuid \<Rightarrow> int64 \<Rightarrow> int64 \<Rightarrow> ExecutionEnvelope \<Rightarrow> bool result" where
  "release_cond envelopeID reserved tokens e =
     Inr (ee_ID e = envelopeID \<and> reserved \<le>s ee_ReservedNanos e \<and> tokens \<le>s ee_TokenCount e)"

definition release_set :: "int64 \<Rightarrow> int64 \<Rightarrow> ExecutionEnvelope \<Rightarrow> ExecutionEnvelope result" where
  "release_set reserved tokens e =
     bind_result (sql_sub (ee_ReservedNanos e) reserved) (\<lambda>reserved'.
     bind_result (sql_sub (ee_TokenCount e) tokens) (\<lambda>toks.
     bind_result (sql_add (ee_Version e) 1) (\<lambda>version.
       Inr (e\<lparr>ee_ReservedNanos := reserved', ee_TokenCount := toks, ee_Version := version\<rparr>))))"

definition void_spend :: "uuid \<Rightarrow> int \<Rightarrow> envelope_db \<Rightarrow> (nat \<times> envelope_db) result" where
  "void_spend spendID sqlNow =
     update_spends (\<lambda>r. Inr (es_ID r = spendID \<and> es_State r = RESERVED))
       (\<lambda>r. Inr (r\<lparr>es_State := VOIDED, es_FinalizedAt := Some sqlNow\<rparr>))"

definition release_hold ::
    "ExecutionEnvelopeSpend \<Rightarrow> string \<Rightarrow> envelope_event \<Rightarrow> int \<Rightarrow> (envelope_db, unit) txop" where
  "release_hold s failure event sqlNow =
     tx_bind (tx_stmt (update_envelopes
        (release_cond (es_EnvelopeID s) (es_ReservedNanos s) (es_ReservedTokens s))
        (release_set (es_ReservedNanos s) (es_ReservedTokens s)))) (\<lambda>n.
     if n \<noteq> 1 then tx_fail (Msg failure)
     else tx_bind (tx_stmt (void_spend (es_ID s) sqlNow)) (\<lambda>_.
       tx_stmt (insert_event (es_EnvelopeID s) event)))"

definition releaseEnvelopeSpendForContractTx :: "uuid \<Rightarrow> int \<Rightarrow> (envelope_db, unit) txop" where
  "releaseEnvelopeSpendForContractTx contractID sqlNow =
     (if contractID = uuid_Nil then tx_return ()
      else tx_bind (tx_query (select_spend_by_contract contractID)) (\<lambda>found.
      case found of None \<Rightarrow> tx_return ()
      | Some s \<Rightarrow>
          if es_State s = RELEASED \<or> es_State s = VOIDED then tx_return ()
          else if es_State s = CAPTURED then tx_return ()
          else if es_State s \<noteq> RESERVED then tx_fail (Msg ''cannot be released'')
          else release_hold s ''envelope release failed capacity accounting''
            (EvSpendVoided (es_ID s) (Some contractID) ''released'' (es_ReservedNanos s)) sqlNow))"

section \<open>Expiry and recovery\<close>

definition expire_one :: "int \<Rightarrow> uuid \<Rightarrow> (envelope_db, unit) txop" where
  "expire_one sqlNow envelopeID =
     tx_bind (tx_stmt (update_envelopes
        (\<lambda>e. Inr (ee_ID e = envelopeID \<and> ee_State e = ACTIVE))
        (\<lambda>e. bind_result (sql_add (ee_Version e) 1) (\<lambda>version.
           Inr (e\<lparr>ee_State := EXPIRED, ee_ClosedAt := Some sqlNow, ee_Version := version\<rparr>))))) (\<lambda>_.
     tx_stmt (insert_event envelopeID EvExpired))"

text \<open>\<^verbatim>\<open>locked\<close> are the rows another transaction holds, which \<^verbatim>\<open>SKIP LOCKED\<close> passes over.\<close>

definition expired_envelopes :: "(uuid \<Rightarrow> bool) \<Rightarrow> int \<Rightarrow> nat \<Rightarrow> envelope_db \<Rightarrow> uuid list" where
  "expired_envelopes locked sqlNow limit d =
     map ee_ID (take limit (sort_key (\<lambda>e. (ee_ExpiresAt e, ee_ID e))
       (filter (\<lambda>e. ee_State e = ACTIVE \<and> ee_ExpiresAt e \<le> sqlNow \<and> \<not> locked (ee_ID e)) (envelopes d))))"

definition ReleaseExpiredExecutionEnvelopes ::
    "(uuid \<Rightarrow> bool) \<Rightarrow> int \<Rightarrow> int \<Rightarrow> (envelope_db, int) txop" where
  "ReleaseExpiredExecutionEnvelopes locked limit sqlNow =
     (if limit < 1 \<or> 1000 < limit then tx_fail (Msg ''invalid envelope expiry limit'')
      else tx_bind (tx_query (expired_envelopes locked sqlNow (nat limit))) (\<lambda>ids.
        tx_bind (tx_foldM (\<lambda>i _. expire_one sqlNow i) ids ()) (\<lambda>_. tx_return (int (length ids)))))"

definition orphan_spends :: "(uuid \<Rightarrow> bool) \<Rightarrow> int \<Rightarrow> int \<Rightarrow> nat \<Rightarrow> envelope_db \<Rightarrow> ExecutionEnvelopeSpend list" where
  "orphan_spends locked sqlNow grace limit d =
     take limit (sort_key (\<lambda>s. (es_CreatedAt s, es_ID s))
       (filter (\<lambda>s. es_State s = RESERVED \<and> \<not> locked (es_ID s) \<and>
          (case es_ContractID s of
             None \<Rightarrow> es_CreatedAt s < sqlNow - grace
           | Some c \<Rightarrow> (case map_of (contracts d) c of None \<Rightarrow> False
               | Some st \<Rightarrow> st \<in> set [''FAILED'', ''CANCELLED'', ''VERIFIED''])))
        (spends d)))"

definition recover_one :: "int \<Rightarrow> ExecutionEnvelopeSpend \<Rightarrow> int \<Rightarrow> (envelope_db, int) txop" where
  "recover_one sqlNow s released =
     (let release = tx_bind (release_hold s ''orphan envelope release failed capacity accounting''
            (EvSpendVoided (es_ID s) None ''orphan_recovery'' (es_ReservedNanos s)) sqlNow)
            (\<lambda>_. tx_return (released + 1))
      in case es_ContractID s of
          None \<Rightarrow> release
        | Some c \<Rightarrow>
            tx_bind (tx_query (\<lambda>d. map_of (contracts d) c)) (\<lambda>st.
            case st of None \<Rightarrow> tx_fail errNoRows
            | Some state \<Rightarrow>
                if state = ''VERIFIED'' then
                  tx_bind (tx_stmt (insert_event (es_EnvelopeID s)
                    (EvSpendVoided (es_ID s) (Some c) ''verified_without_capture_left_reserved'' 0)))
                    (\<lambda>_. tx_return released)
                else release))"

definition RecoverOrphanEnvelopeSpends ::
    "(uuid \<Rightarrow> bool) \<Rightarrow> int \<Rightarrow> int \<Rightarrow> int \<Rightarrow> (envelope_db, int) txop" where
  "RecoverOrphanEnvelopeSpends locked grace limit sqlNow =
     (if grace < 0 \<or> limit < 1 \<or> 1000 < limit then tx_fail (Msg ''invalid envelope orphan recovery bounds'')
      else tx_bind (tx_query (orphan_spends locked sqlNow grace (nat limit))) (\<lambda>orphans.
        tx_foldM (recover_one sqlNow) orphans 0))"

section \<open>The store\<close>

definition SpendExecutionEnvelope ::
    "uuid \<Rightarrow> uuid \<Rightarrow> int64 \<Rightarrow> int64 \<Rightarrow> string \<Rightarrow> string \<Rightarrow> VLLMRuntimeProfile \<Rightarrow> int \<Rightarrow> int \<Rightarrow> uuid
     \<Rightarrow> envelope_db \<Rightarrow> ExecutionEnvelopeSpend result \<times> envelope_db" where
  "SpendExecutionEnvelope envelopeID buyerID need tokens key requestID profile sqlNow wallNow spendID =
     run_tx (reserveEnvelopeSpendTx envelopeID buyerID need tokens key requestID profile sqlNow wallNow spendID)"

text \<open>
  Every entry point is one transaction; \<^verbatim>\<open>OpSpendRaced\<close> is a spend overtaken by a concurrent
  one after its first \<^verbatim>\<open>SELECT\<close> (the row lock of the claim is held until the commit, so nothing
  else interleaves on the envelope), and \<^verbatim>\<open>OpContract\<close> is the realtime store creating or
  advancing a contract.
\<close>

datatype envelope_op =
    OpCreate envelope_deps settlement uuid ExecutionEnvelopeCreateRequest int uuid
  | OpSpend uuid uuid int64 int64 string string VLLMRuntimeProfile int int uuid
  | OpSpendRaced uuid uuid int64 int64 string string VLLMRuntimeProfile int int uuid
  | OpBind uuid uuid
  | OpCapture uuid int64 int64 int
  | OpRelease uuid int
  | OpExpire "uuid \<Rightarrow> bool" int int
  | OpRecover "uuid \<Rightarrow> bool" int int int
  | OpContract uuid string

definition ignore_result :: "('db, 'a) txop \<Rightarrow> ('db, unit) txop" where
  "ignore_result m = tx_bind m (\<lambda>_. tx_return ())"

fun envelope_body :: "envelope_op \<Rightarrow> (envelope_db, unit) txop" where
  "envelope_body (OpCreate deps st buyer req now fresh) =
     ignore_result (CreateExecutionEnvelope deps st buyer req now fresh)"
| "envelope_body (OpSpend e b n t k r p sn wn i) = ignore_result (reserveEnvelopeSpendTx e b n t k r p sn wn i)"
| "envelope_body (OpSpendRaced e b n t k r p sn wn i) =
     ignore_result (reserveEnvelopeSpendRaced e b n t k r p sn wn i)"
| "envelope_body (OpBind s c) = bindEnvelopeSpendContractTx s c"
| "envelope_body (OpCapture c n t now) = captureEnvelopeSpendTx c n t now"
| "envelope_body (OpRelease c now) = releaseEnvelopeSpendForContractTx c now"
| "envelope_body (OpExpire locked limit now) = ignore_result (ReleaseExpiredExecutionEnvelopes locked limit now)"
| "envelope_body (OpRecover locked grace limit now) =
     ignore_result (RecoverOrphanEnvelopeSpends locked grace limit now)"
| "envelope_body (OpContract c state) =
     tx_stmt (\<lambda>d. Inr ((), d\<lparr>contracts := (c, state) # contracts d\<rparr>))"

section \<open>Consistency of the tables\<close>

text \<open>What one spend row contributes to the counters of envelope \<open>i\<close>.\<close>

definition reservedW :: "uuid \<Rightarrow> ExecutionEnvelopeSpend \<Rightarrow> int" where
  "reservedW i s = (if es_EnvelopeID s = i \<and> es_State s = RESERVED then sint (es_ReservedNanos s) else 0)"

definition spentW :: "uuid \<Rightarrow> ExecutionEnvelopeSpend \<Rightarrow> int" where
  "spentW i s = (if es_EnvelopeID s = i \<and> es_State s = CAPTURED then sint (es_CapturedNanos s) else 0)"

definition tokenW :: "uuid \<Rightarrow> ExecutionEnvelopeSpend \<Rightarrow> int" where
  "tokenW i s = (if es_EnvelopeID s \<noteq> i then 0 else case es_State s of
     RESERVED \<Rightarrow> sint (es_ReservedTokens s) | CAPTURED \<Rightarrow> sint (es_CapturedTokens s) | _ \<Rightarrow> 0)"

definition countW :: "uuid \<Rightarrow> ExecutionEnvelopeSpend \<Rightarrow> int" where
  "countW i s = (if es_EnvelopeID s = i then 1 else 0)"

lemmas weights = reservedW_def spentW_def tokenW_def countW_def

definition env_sums :: "ExecutionEnvelopeSpend list \<Rightarrow> ExecutionEnvelope \<Rightarrow> bool" where
  "env_sums ss e =
     (sint (ee_ReservedNanos e) = (\<Sum>s\<leftarrow>ss. reservedW (ee_ID e) s)
      \<and> sint (ee_SpentNanos e) = (\<Sum>s\<leftarrow>ss. spentW (ee_ID e) s)
      \<and> sint (ee_TokenCount e) = (\<Sum>s\<leftarrow>ss. tokenW (ee_ID e) s)
      \<and> sint (ee_RequestCount e) = (\<Sum>s\<leftarrow>ss. countW (ee_ID e) s))"

text \<open>The \<^verbatim>\<open>CHECK\<close> constraints of the two tables.\<close>

definition env_checks :: "ExecutionEnvelope \<Rightarrow> bool" where
  "env_checks e =
     (0 < sint (ee_CapNanos e) \<and> 0 \<le> sint (ee_SpentNanos e) \<and> 0 \<le> sint (ee_ReservedNanos e)
      \<and> 0 < sint (ee_MaxRequests e) \<and> 0 \<le> sint (ee_RequestCount e)
      \<and> 0 \<le> sint (ee_MaxTokens e) \<and> 0 \<le> sint (ee_TokenCount e)
      \<and> 0 < sint (ee_PerRequestCeilingNanos e) \<and> 0 \<le> sint (ee_Version e)
      \<and> sint (ee_SpentNanos e) + sint (ee_ReservedNanos e) \<le> sint (ee_CapNanos e)
      \<and> sint (ee_RequestCount e) \<le> sint (ee_MaxRequests e)
      \<and> sint (ee_PerRequestCeilingNanos e) \<le> sint (ee_CapNanos e)
      \<and> (ee_MaxTokens e = 0 \<or> sint (ee_TokenCount e) \<le> sint (ee_MaxTokens e))
      \<and> (ee_State e = ACTIVE \<longleftrightarrow> ee_ClosedAt e = None))"

definition spend_checks :: "ExecutionEnvelopeSpend \<Rightarrow> bool" where
  "spend_checks s =
     (0 < sint (es_ReservedNanos s) \<and> 0 \<le> sint (es_CapturedNanos s)
      \<and> 0 \<le> sint (es_ReservedTokens s) \<and> 0 \<le> sint (es_CapturedTokens s)
      \<and> (case es_State s of
           RESERVED \<Rightarrow> es_FinalizedAt s = None \<and> es_CapturedNanos s = 0
         | CAPTURED \<Rightarrow> es_FinalizedAt s \<noteq> None \<and> 0 < sint (es_CapturedNanos s)
             \<and> sint (es_CapturedNanos s) \<le> sint (es_ReservedNanos s)
         | _ \<Rightarrow> es_FinalizedAt s \<noteq> None \<and> es_CapturedNanos s = 0))"

definition keys_unique :: "envelope_db \<Rightarrow> bool" where
  "keys_unique d =
     (distinct (map ee_ID (envelopes d)) \<and> distinct (map es_ID (spends d))
      \<and> distinct (map (\<lambda>s. (es_EnvelopeID s, es_IdempotencyKey s)) (spends d))
      \<and> distinct (List.map_filter es_ContractID (spends d)))"

definition references_ok :: "envelope_db \<Rightarrow> bool" where
  "references_ok d =
     (\<forall>s\<in>set (spends d). es_EnvelopeID s \<in> ee_ID ` set (envelopes d)
        \<and> (\<forall>c. es_ContractID s = Some c \<longrightarrow> c \<in> fst ` set (contracts d)))"

definition envelope_consistent :: "envelope_db \<Rightarrow> bool" where
  "envelope_consistent d =
     (keys_unique d \<and> references_ok d \<and> (\<forall>s\<in>set (spends d). spend_checks s)
      \<and> (\<forall>e\<in>set (envelopes d). env_sums (spends d) e \<and> env_checks e))"

lemmas envelope_consistent_defs = envelope_consistent_def keys_unique_def references_ok_def

section \<open>Statements\<close>

lemma update_envelopes_cases:
  assumes "envelope_consistent d" and "\<And>e. ee_ID e \<noteq> i \<Longrightarrow> cond e = Inr False"
    and "\<And>e e'. upd e = Inr e' \<Longrightarrow> ee_ID e' = ee_ID e" and "update_envelopes cond upd d = Inr (n, d')"
  obtains (none) "n = 0" "d' = d" "\<And>e. e \<in> set (envelopes d) \<Longrightarrow> cond e = Inr False"
  | (one) e e' where "e \<in> set (envelopes d)" "ee_ID e = i" "cond e = Inr True" "upd e = Inr e'"
      "ee_ID e' = i" "n = 1" "d' = d\<lparr>envelopes := replace_row ee_ID e' (envelopes d)\<rparr>"
proof -
  obtain es where es: "update_where cond upd (envelopes d) = Inr (n, es)" "d' = d\<lparr>envelopes := es\<rparr>"
    using assms(4) by (auto simp: update_envelopes_def)
  have "distinct (map ee_ID (envelopes d))" using assms(1) by (simp add: envelope_consistent_defs)
  from this assms(2,3) es(1) show ?thesis
    by (cases rule: update_where_keyed_cases) (use es(2) none one in auto)
qed

lemma update_spends_cases:
  assumes "distinct (map es_ID (spends d))" and "\<And>s. es_ID s \<noteq> i \<Longrightarrow> cond s = Inr False"
    and "\<And>s s'. upd s = Inr s' \<Longrightarrow> es_ID s' = es_ID s" and "update_spends cond upd d = Inr (n, d')"
  obtains (none) "n = 0" "d' = d" "\<And>s. s \<in> set (spends d) \<Longrightarrow> cond s = Inr False"
  | (one) s s' where "s \<in> set (spends d)" "es_ID s = i" "cond s = Inr True" "upd s = Inr s'"
      "es_ID s' = i" "n = 1" "d' = d\<lparr>spends := replace_row es_ID s' (spends d)\<rparr>"
proof -
  obtain ss where ss: "update_where cond upd (spends d) = Inr (n, ss)" "d' = d\<lparr>spends := ss\<rparr>"
    using assms(4) by (auto simp: update_spends_def)
  from assms(1-3) ss(1) show ?thesis
    by (cases rule: update_where_keyed_cases) (use ss(2) none one in auto)
qed

lemma map_filter_as_map: "List.map_filter f xs = List.map_filter (\<lambda>x. x) (map f xs)"
  by (induction xs) (simp_all add: map_filter_simps split: option.split)

lemma weights_other:
  "es_EnvelopeID s \<noteq> i \<Longrightarrow> reservedW i s = 0" "es_EnvelopeID s \<noteq> i \<Longrightarrow> spentW i s = 0"
  "es_EnvelopeID s \<noteq> i \<Longrightarrow> tokenW i s = 0" "es_EnvelopeID s \<noteq> i \<Longrightarrow> countW i s = 0"
  by (simp_all add: weights)

lemma weights_contract [simp]:
  "reservedW i (s\<lparr>es_ContractID := c\<rparr>) = reservedW i s" "spentW i (s\<lparr>es_ContractID := c\<rparr>) = spentW i s"
  "tokenW i (s\<lparr>es_ContractID := c\<rparr>) = tokenW i s" "countW i (s\<lparr>es_ContractID := c\<rparr>) = countW i s"
  by (cases "es_State s"; simp add: weights)+

lemma spend_checks_contract [simp]: "spend_checks (s\<lparr>es_ContractID := c\<rparr>) = spend_checks s"
  by (cases "es_State s"; simp add: spend_checks_def)

text \<open>One envelope row and one of its spend rows move together.\<close>

lemma consistent_move:
  assumes d: "envelope_consistent d" and e: "e \<in> set (envelopes d)" and s: "s \<in> set (spends d)"
    and e': "ee_ID e' = ee_ID e" "env_checks e'"
    and s': "es_ID s' = es_ID s" "es_EnvelopeID s' = es_EnvelopeID s" "es_EnvelopeID s = ee_ID e"
      "es_IdempotencyKey s' = es_IdempotencyKey s" "es_ContractID s' = es_ContractID s" "spend_checks s'"
    and res: "sint (ee_ReservedNanos e') = sint (ee_ReservedNanos e) - reservedW (ee_ID e) s + reservedW (ee_ID e) s'"
    and spt: "sint (ee_SpentNanos e') = sint (ee_SpentNanos e) - spentW (ee_ID e) s + spentW (ee_ID e) s'"
    and tok: "sint (ee_TokenCount e') = sint (ee_TokenCount e) - tokenW (ee_ID e) s + tokenW (ee_ID e) s'"
    and cnt: "ee_RequestCount e' = ee_RequestCount e"
  shows "envelope_consistent (d\<lparr>envelopes := replace_row ee_ID e' (envelopes d),
           spends := replace_row es_ID s' (spends d)\<rparr>)"
proof -
  let ?es = "replace_row ee_ID e' (envelopes d)" and ?ss = "replace_row es_ID s' (spends d)"
  have de: "distinct (map ee_ID (envelopes d))" and ds: "distinct (map es_ID (spends d))"
    and rest: "distinct (map (\<lambda>s. (es_EnvelopeID s, es_IdempotencyKey s)) (spends d))"
      "distinct (List.map_filter es_ContractID (spends d))" "references_ok d"
      "\<forall>s\<in>set (spends d). spend_checks s" "\<forall>e\<in>set (envelopes d). env_sums (spends d) e \<and> env_checks e"
    using d by (simp_all add: envelope_consistent_defs)
  have only: "r = s" if "r \<in> set (spends d)" "es_ID r = es_ID s" for r
    using ds s that by (auto simp: distinct_map dest: inj_onD)
  have keep: "map f ?ss = map f (spends d)" if "f s' = f s" for f :: "ExecutionEnvelopeSpend \<Rightarrow> 'x"
    using that only s'(1) by (auto simp: replace_row_def)
  have ids: "ee_ID ` set ?es = ee_ID ` set (envelopes d)" by (metis map_key_replace_row set_map)
  have sums: "(\<Sum>r\<leftarrow>?ss. w r) = (\<Sum>r\<leftarrow>spends d. w r) - w s + w s'" for w :: "ExecutionEnvelopeSpend \<Rightarrow> int"
    using ds s s'(1) by (rule sum_replace_row)
  have "env_sums ?ss x" if "x \<in> set ?es" for x
  proof (cases "x = e'")
    case True
    with rest(5) e e'(1) res spt tok cnt s'(2,3) show ?thesis
      by (auto simp: env_sums_def sums) (auto simp: countW_def)
  next
    case False
    with that e e'(1) de have x: "x \<in> set (envelopes d)" "x \<noteq> e" by (auto simp: in_replace_row)
    then have "ee_ID x \<noteq> ee_ID e" using de e by (auto simp: distinct_map dest: inj_onD)
    then have "es_EnvelopeID s \<noteq> ee_ID x" "es_EnvelopeID s' \<noteq> ee_ID x" using s'(2,3) by auto
    note zero = weights_other [OF this(1)] weights_other [OF this(2)]
    from x rest(5) show ?thesis by (simp add: env_sums_def sums zero)
  qed
  moreover have "env_checks x" if "x \<in> set ?es" for x
    using that rest(5) e e' de by (auto simp: in_replace_row)
  moreover have "spend_checks x" if "x \<in> set ?ss" for x
    using that rest(4) s s' ds by (auto simp: in_replace_row)
  moreover have "references_ok (d\<lparr>envelopes := ?es, spends := ?ss\<rparr>)"
    using rest(3) e s s' ds by (auto simp: references_ok_def in_replace_row ids)
  moreover have "keys_unique (d\<lparr>envelopes := ?es, spends := ?ss\<rparr>)"
    using de ds rest(1,2) s' keep [of "\<lambda>s. (es_EnvelopeID s, es_IdempotencyKey s)"] keep [of es_ContractID]
    by (simp add: keys_unique_def map_filter_as_map [of es_ContractID])
  ultimately show ?thesis by (simp add: envelope_consistent_def)
qed

text \<open>A new row of spends comes with the claim on its envelope.\<close>

lemma consistent_claim:
  assumes d: "envelope_consistent d" and e: "e \<in> set (envelopes d)"
    and e': "ee_ID e' = ee_ID e" "env_checks e'"
    and s: "es_EnvelopeID s = ee_ID e" "es_State s = RESERVED" "es_ContractID s = None" "spend_checks s"
    and new: "\<not> (\<exists>r\<in>set (spends d). es_ID r = es_ID s \<or>
        (es_EnvelopeID r = es_EnvelopeID s \<and> es_IdempotencyKey r = es_IdempotencyKey s))"
    and res: "sint (ee_ReservedNanos e') = sint (ee_ReservedNanos e) + sint (es_ReservedNanos s)"
    and spt: "ee_SpentNanos e' = ee_SpentNanos e"
    and tok: "sint (ee_TokenCount e') = sint (ee_TokenCount e) + sint (es_ReservedTokens s)"
    and cnt: "sint (ee_RequestCount e') = sint (ee_RequestCount e) + 1"
  shows "envelope_consistent (d\<lparr>envelopes := replace_row ee_ID e' (envelopes d), spends := spends d @ [s]\<rparr>)"
proof -
  let ?es = "replace_row ee_ID e' (envelopes d)"
  have de: "distinct (map ee_ID (envelopes d))" and ds: "distinct (map es_ID (spends d))"
    and rest: "distinct (map (\<lambda>s. (es_EnvelopeID s, es_IdempotencyKey s)) (spends d))"
      "distinct (List.map_filter es_ContractID (spends d))" "references_ok d"
      "\<forall>s\<in>set (spends d). spend_checks s" "\<forall>e\<in>set (envelopes d). env_sums (spends d) e \<and> env_checks e"
    using d by (simp_all add: envelope_consistent_defs)
  have ids: "ee_ID ` set ?es = ee_ID ` set (envelopes d)" by (metis map_key_replace_row set_map)
  have "env_sums (spends d @ [s]) x" if "x \<in> set ?es" for x
  proof (cases "x = e'")
    case True
    with rest(5) e e'(1) res spt tok cnt s(1,2) show ?thesis by (auto simp: env_sums_def weights)
  next
    case False
    with that e e'(1) de have x: "x \<in> set (envelopes d)" "x \<noteq> e" by (auto simp: in_replace_row)
    then have "es_EnvelopeID s \<noteq> ee_ID x" using de e s(1) by (auto simp: distinct_map dest: inj_onD)
    then show ?thesis using x rest(5) by (simp add: env_sums_def weights_other)
  qed
  moreover have "env_checks x" if "x \<in> set ?es" for x
    using that rest(5) e e' de by (auto simp: in_replace_row)
  moreover have "references_ok (d\<lparr>envelopes := ?es, spends := spends d @ [s]\<rparr>)"
    using rest(3) s e by (auto simp: references_ok_def ids)
  moreover have "keys_unique (d\<lparr>envelopes := ?es, spends := spends d @ [s]\<rparr>)"
    using de ds rest(1,2) s(3) new by (auto simp: keys_unique_def map_filter_def)
  ultimately show ?thesis using rest(4) s(4) by (auto simp: envelope_consistent_def)
qed

text \<open>An update of an envelope row that leaves its counters alone.\<close>

lemma consistent_envelope_row:
  assumes d: "envelope_consistent d" and e: "e \<in> set (envelopes d)"
    and e': "ee_ID e' = ee_ID e" "env_checks e'" "ee_ReservedNanos e' = ee_ReservedNanos e"
      "ee_SpentNanos e' = ee_SpentNanos e" "ee_TokenCount e' = ee_TokenCount e"
      "ee_RequestCount e' = ee_RequestCount e"
  shows "envelope_consistent (d\<lparr>envelopes := replace_row ee_ID e' (envelopes d)\<rparr>)"
proof -
  have de: "distinct (map ee_ID (envelopes d))" using d by (simp add: envelope_consistent_defs)
  have ids: "ee_ID ` set (replace_row ee_ID e' (envelopes d)) = ee_ID ` set (envelopes d)"
    by (metis map_key_replace_row set_map)
  show ?thesis
    using d e e' de by (auto simp: envelope_consistent_defs ids in_replace_row env_sums_def)
qed

lemma consistent_events [simp]:
  "envelope_consistent (d\<lparr>envelope_events := evs\<rparr>) = envelope_consistent d"
  by (simp add: envelope_consistent_defs)

section \<open>Operations keep the tables consistent\<close>

lemma claim_cond_True:
  "claim_cond i need tokens b p now e = Inr True \<Longrightarrow>
     ee_ID e = i \<and> ee_BuyerID e = b \<and> ee_State e = ACTIVE \<and> now < ee_ExpiresAt e \<and> 0 < sint need
     \<and> sint need \<le> sint (ee_PerRequestCeilingNanos e)
     \<and> sint (ee_SpentNanos e) + sint (ee_ReservedNanos e) + sint need \<le> sint (ee_CapNanos e)
     \<and> sint (ee_RequestCount e) + 1 \<le> sint (ee_MaxRequests e)
     \<and> (ee_MaxTokens e = 0 \<or> sint (ee_TokenCount e) + sint tokens \<le> sint (ee_MaxTokens e))"
  by (auto simp: claim_cond_def sless64 sle64 split: if_splits)

lemma claim_set_Inr:
  "claim_set need tokens e = Inr e' \<longleftrightarrow>
     (\<exists>r q t v. e' = e\<lparr>ee_ReservedNanos := r, ee_RequestCount := q, ee_TokenCount := t, ee_Version := v\<rparr>
        \<and> sint r = sint (ee_ReservedNanos e) + sint need \<and> sint q = sint (ee_RequestCount e) + 1
        \<and> sint t = sint (ee_TokenCount e) + sint tokens \<and> sint v = sint (ee_Version e) + 1)"
  by (auto simp: claim_set_def)

lemma claim_checks:
  assumes "env_checks e" and "claim_cond i need tokens b p now e = Inr True"
    and "claim_set need tokens e = Inr e'" and "0 \<le> sint tokens"
  shows "env_checks e'"
  using assms claim_cond_True [OF assms(2)] by (auto simp: claim_set_Inr env_checks_def)

lemma claim_same: "claim_set need tokens e = Inr e' \<Longrightarrow> ee_ID e' = ee_ID e"
  by (auto simp: claim_set_Inr)

lemma claim_off: "ee_ID e \<noteq> i \<Longrightarrow> claim_cond i need tokens b p now e = Inr False"
  by (simp add: claim_cond_def)

text \<open>
  A committed reservation either replays the row its \<^verbatim>\<open>SELECT\<close> found or makes exactly one
  claim and one row. After a unique violation the transaction is aborted, so the
  compensation and the re-read of the code never run to a commit.
\<close>

lemma reserve_after_select_ok:
  assumes "envelope_consistent d"
    and "reserve_after_select found i b need tokens key rid p sn wn sid \<lparr>tx_db = d, tx_aborted = False\<rparr> = (Inr r, t)"
  shows "(found = Some r \<and> tx_db t = d \<and> es_BuyerID r = b \<and> es_ReservedNanos r = need) \<or>
    (found = None \<and> (\<exists>e e'. e \<in> set (envelopes d) \<and> claim_cond i need tokens b p sn e = Inr True
       \<and> claim_set need tokens e = Inr e' \<and> r = newSpend sid i b key rid need tokens wn
       \<and> insert_spend r (d\<lparr>envelopes := replace_row ee_ID e' (envelopes d)\<rparr>)
         = Inr ((), d\<lparr>envelopes := replace_row ee_ID e' (envelopes d), spends := spends d @ [r]\<rparr>)
       \<and> tx_db t = d\<lparr>envelopes := replace_row ee_ID e' (envelopes d), spends := spends d @ [r],
           envelope_events := envelope_events d @ [(i, EvSpendReserved sid need key)]\<rparr>))"
proof (cases found)
  case (Some x)
  then show ?thesis
    using assms(2) by (auto simp: reserve_after_select_def tx_oks split: if_splits)
next
  case None
  from assms(2) None obtain n d1
    where n: "update_envelopes (claim_cond i need tokens b p sn) (claim_set need tokens) d = Inr (n, d1)"
      and n0: "n \<noteq> 0"
      and rest: "tx_handle (tx_stmt (insert_spend (newSpend sid i b key rid need tokens wn)))
              (\<lambda>err.
                if err = errUniqueViolation then
                  tx_bind (tx_stmt (update_envelopes
                      (unclaim_cond i need tokens) (unclaim_set need tokens))) (\<lambda>_.
                  tx_bind (tx_query (select_spend_by_key i key)) (\<lambda>again.
                    case again of None \<Rightarrow> tx_fail errNoRows
                    | Some existing \<Rightarrow>
                        if es_BuyerID existing \<noteq> b \<or> es_ReservedNanos existing \<noteq> need
                        then tx_fail errEnvelopeIdempotencyConflict
                        else tx_return existing))
                else tx_fail err)
              (\<lambda>_. tx_bind (tx_stmt (insert_event i (EvSpendReserved sid need key))) (\<lambda>_.
                 tx_return (newSpend sid i b key rid need tokens wn)))
           \<lparr>tx_db = d1, tx_aborted = False\<rparr> = (Inr r, t)"
    by (auto simp: reserve_after_select_def tx_oks Let_def split: if_splits)
  from assms(1) claim_off claim_same n obtain e e' where e: "e \<in> set (envelopes d)"
    "claim_cond i need tokens b p sn e = Inr True" "claim_set need tokens e = Inr e'"
    and d1: "d1 = d\<lparr>envelopes := replace_row ee_ID e' (envelopes d)\<rparr>"
    using n0 by (cases rule: update_envelopes_cases) auto
  from rest show ?thesis
    unfolding d1 using None e
    by (auto simp: tx_handle_def tx_stmt_def tx_oks tx_fail_def tx_bind_def insert_spend_def
        insert_event_def tx_return_def split: if_splits)
qed

lemma newSpend_checks:
  "0 < sint need \<Longrightarrow> 0 \<le> sint tokens \<Longrightarrow> spend_checks (newSpend sid i b key rid need tokens wn)"
  by (simp add: spend_checks_def newSpend_def)

lemma reserve_after_select_consistent:
  assumes d: "envelope_consistent d" and tok: "0 \<le> sint tokens"
    and ok: "reserve_after_select found i b need tokens key rid p sn wn sid
      \<lparr>tx_db = d, tx_aborted = False\<rparr> = (Inr r, t)"
  shows "envelope_consistent (tx_db t)"
  using reserve_after_select_ok [OF d ok]
proof (elim disjE conjE exE)
  fix e e'
  assume e: "e \<in> set (envelopes d)" and c: "claim_cond i need tokens b p sn e = Inr True"
    and u: "claim_set need tokens e = Inr e'" and r: "r = newSpend sid i b key rid need tokens wn"
    and ins: "insert_spend r (d\<lparr>envelopes := replace_row ee_ID e' (envelopes d)\<rparr>) =
      Inr ((), d\<lparr>envelopes := replace_row ee_ID e' (envelopes d), spends := spends d @ [r]\<rparr>)"
    and t: "tx_db t = d\<lparr>envelopes := replace_row ee_ID e' (envelopes d), spends := spends d @ [r],
      envelope_events := envelope_events d @ [(i, EvSpendReserved sid need key)]\<rparr>"
  have chk: "env_checks e" using d e by (simp add: envelope_consistent_def)
  note cond = claim_cond_True [OF c]
  have "envelope_consistent (d\<lparr>envelopes := replace_row ee_ID e' (envelopes d), spends := spends d @ [r]\<rparr>)"
  proof (rule consistent_claim [OF d e])
    show "env_checks e'" using chk c u tok by (rule claim_checks)
    show "spend_checks r" unfolding r using cond tok by (intro newSpend_checks) simp_all
    show "\<not> (\<exists>s\<in>set (spends d). es_ID s = es_ID r \<or>
        (es_EnvelopeID s = es_EnvelopeID r \<and> es_IdempotencyKey s = es_IdempotencyKey r))"
      using ins by (auto simp: insert_spend_def split: if_splits)
  qed (use u cond r in \<open>auto simp: claim_set_Inr newSpend_def\<close>)
  then show ?thesis unfolding t by (simp only: consistent_events)
qed (use d in auto)

lemma reserve_with_consistent:
  assumes "envelope_consistent d"
    and "\<And>k x t. select k \<lparr>tx_db = d, tx_aborted = False\<rparr> = (Inr x, t) \<Longrightarrow> t = \<lparr>tx_db = d, tx_aborted = False\<rparr>"
    and "reserve_with select i b need tokens key rid p sn wn sid \<lparr>tx_db = d, tx_aborted = False\<rparr> = (Inr r, t)"
  shows "envelope_consistent (tx_db t)"
proof -
  from assms(3) have tok: "0 \<le> sint tokens"
    by (auto simp: reserve_with_def tx_oks Let_def sless64 split: if_splits)
  from assms(2,3) obtain found where "reserve_after_select found i b need tokens (TrimSpace key) rid p sn wn sid
      \<lparr>tx_db = d, tx_aborted = False\<rparr> = (Inr r, t)"
    by (auto simp: reserve_with_def tx_oks Let_def split: if_splits)
  with assms(1) tok show ?thesis by (rule reserve_after_select_consistent)
qed

lemma release_set_Inr:
  "release_set n t e = Inr e' \<longleftrightarrow>
     (\<exists>r k v. e' = e\<lparr>ee_ReservedNanos := r, ee_TokenCount := k, ee_Version := v\<rparr>
        \<and> sint r = sint (ee_ReservedNanos e) - sint n \<and> sint k = sint (ee_TokenCount e) - sint t
        \<and> sint v = sint (ee_Version e) + 1)"
  by (auto simp: release_set_def)

lemma capture_set_Inr:
  "capture_set n c t e = Inr e' \<longleftrightarrow>
     (\<exists>r x k v. e' = e\<lparr>ee_ReservedNanos := r, ee_SpentNanos := x, ee_TokenCount := k, ee_Version := v\<rparr>
        \<and> sint r = sint (ee_ReservedNanos e) - sint n \<and> sint x = sint (ee_SpentNanos e) + sint c
        \<and> sint k = sint (ee_TokenCount e) - sint t \<and> sint v = sint (ee_Version e) + 1)"
  by (auto simp: capture_set_def)

text \<open>
  Updating the spend row \<open>s\<close>, which the transaction has read and which is still there: the
  \<^verbatim>\<open>UPDATE ... WHERE id AND state='RESERVED'\<close> replaces exactly that row.
\<close>

lemma update_reserved_spend:
  assumes "distinct (map es_ID (spends d))" and "s \<in> set (spends d)" and "es_State s = RESERVED"
    and "es_ID (f s) = es_ID s"
  shows "update_spends (\<lambda>r. Inr (es_ID r = es_ID s \<and> es_State r = RESERVED)) (\<lambda>r. Inr (f r)) d =
    Inr (1, d\<lparr>spends := replace_row es_ID (f s) (spends d)\<rparr>)"
proof -
  have "update_where (\<lambda>r. Inr (es_ID r = es_ID s \<and> es_State r = RESERVED)) (\<lambda>r. Inr (f r)) (spends d) =
    bind_result (Inr (es_ID s = es_ID s \<and> es_State s = RESERVED))
      (\<lambda>hit. if hit then bind_result (Inr (f s)) (\<lambda>r'. Inr (1, replace_row es_ID r' (spends d)))
        else Inr (0, spends d))"
    using assms by (intro update_where_key) auto
  with assms show ?thesis by (simp add: update_spends_def)
qed

lemma release_hold_ok:
  assumes d: "envelope_consistent d" and s: "s \<in> set (spends d)" "es_State s = RESERVED"
    and ok: "release_hold s msg ev now \<lparr>tx_db = d, tx_aborted = False\<rparr> = (Inr u, t)"
  obtains e e' where "e \<in> set (envelopes d)" "ee_ID e = es_EnvelopeID s"
    "release_set (es_ReservedNanos s) (es_ReservedTokens s) e = Inr e'"
    "sint (es_ReservedNanos s) \<le> sint (ee_ReservedNanos e)" "sint (es_ReservedTokens s) \<le> sint (ee_TokenCount e)"
    "t = \<lparr>tx_db = d\<lparr>envelopes := replace_row ee_ID e' (envelopes d),
        spends := replace_row es_ID (s\<lparr>es_State := VOIDED, es_FinalizedAt := Some now\<rparr>) (spends d),
        envelope_events := envelope_events d @ [(es_EnvelopeID s, ev)]\<rparr>, tx_aborted = False\<rparr>"
proof -
  from ok obtain n d1 where n: "update_envelopes
        (release_cond (es_EnvelopeID s) (es_ReservedNanos s) (es_ReservedTokens s))
        (release_set (es_ReservedNanos s) (es_ReservedTokens s)) d = Inr (n, d1)" "n = 1"
    and v: "tx_bind (tx_stmt (void_spend (es_ID s) now)) (\<lambda>_. tx_stmt (insert_event (es_EnvelopeID s) ev))
        \<lparr>tx_db = d1, tx_aborted = False\<rparr> = (Inr u, t)"
    by (auto simp: release_hold_def tx_oks split: if_splits)
  have "\<And>e. ee_ID e \<noteq> es_EnvelopeID s \<Longrightarrow>
      release_cond (es_EnvelopeID s) (es_ReservedNanos s) (es_ReservedTokens s) e = Inr False"
    by (simp add: release_cond_def)
  moreover have "\<And>e e'. release_set (es_ReservedNanos s) (es_ReservedTokens s) e = Inr e' \<Longrightarrow> ee_ID e' = ee_ID e"
    by (auto simp: release_set_Inr)
  ultimately obtain e e' where e: "e \<in> set (envelopes d)" "ee_ID e = es_EnvelopeID s"
    "release_cond (es_EnvelopeID s) (es_ReservedNanos s) (es_ReservedTokens s) e = Inr True"
    "release_set (es_ReservedNanos s) (es_ReservedTokens s) e = Inr e'"
    "d1 = d\<lparr>envelopes := replace_row ee_ID e' (envelopes d)\<rparr>"
    using update_envelopes_cases [OF d _ _ n(1)] n(2) by (metis One_nat_def zero_neq_one)
  have "void_spend (es_ID s) now d1 =
      Inr (1, d1\<lparr>spends := replace_row es_ID (s\<lparr>es_State := VOIDED, es_FinalizedAt := Some now\<rparr>) (spends d1)\<rparr>)"
    unfolding void_spend_def e(5) using d s
    by (intro update_reserved_spend) (simp_all add: envelope_consistent_defs)
  with v e that show ?thesis by (auto simp: tx_oks insert_event_def release_cond_def sle64)
qed

lemma in_reserved_sum:
  assumes "envelope_consistent d" and "s \<in> set (spends d)" and "es_State s = RESERVED"
    and "e \<in> set (envelopes d)" and "ee_ID e = es_EnvelopeID s"
  shows "sint (es_ReservedNanos s) \<le> sint (ee_ReservedNanos e)"
    and "sint (es_ReservedTokens s) \<le> sint (ee_TokenCount e)"
proof -
  have chk: "spend_checks x" if "x \<in> set (spends d)" for x
    using assms(1) that by (simp add: envelope_consistent_def)
  have "reservedW (ee_ID e) s \<le> (\<Sum>x\<leftarrow>spends d. reservedW (ee_ID e) x)"
    using assms(2) by (rule sum_list_member_le) (auto simp: reservedW_def spend_checks_def dest!: chk)
  moreover have "tokenW (ee_ID e) s \<le> (\<Sum>x\<leftarrow>spends d. tokenW (ee_ID e) x)"
    using assms(2)
    by (rule sum_list_member_le) (auto simp: tokenW_def spend_checks_def dest!: chk split: spend_state.split)
  moreover have "env_sums (spends d) e" using assms(1,4) by (simp add: envelope_consistent_def)
  ultimately show "sint (es_ReservedNanos s) \<le> sint (ee_ReservedNanos e)"
    "sint (es_ReservedTokens s) \<le> sint (ee_TokenCount e)"
    using assms(3,5) by (simp_all add: env_sums_def reservedW_def tokenW_def)
qed

lemma release_hold_consistent:
  assumes d: "envelope_consistent d" and s: "s \<in> set (spends d)" "es_State s = RESERVED"
    and ok: "release_hold s msg ev now \<lparr>tx_db = d, tx_aborted = False\<rparr> = (Inr u, t)"
  shows "envelope_consistent (tx_db t)"
    and "\<And>r. r \<in> set (spends d) \<Longrightarrow> r \<noteq> s \<Longrightarrow> r \<in> set (spends (tx_db t))"
    and "\<not> tx_aborted t"
proof -
  let ?s' = "s\<lparr>es_State := VOIDED, es_FinalizedAt := Some now\<rparr>"
  obtain e e' where e: "e \<in> set (envelopes d)" "ee_ID e = es_EnvelopeID s"
    "release_set (es_ReservedNanos s) (es_ReservedTokens s) e = Inr e'"
    "sint (es_ReservedNanos s) \<le> sint (ee_ReservedNanos e)" "sint (es_ReservedTokens s) \<le> sint (ee_TokenCount e)"
    and t: "t = \<lparr>tx_db = d\<lparr>envelopes := replace_row ee_ID e' (envelopes d),
        spends := replace_row es_ID ?s' (spends d),
        envelope_events := envelope_events d @ [(es_EnvelopeID s, ev)]\<rparr>, tx_aborted = False\<rparr>"
    using release_hold_ok [OF d s ok] by blast
  have "env_checks e" "spend_checks s" using d e(1) s(1) by (simp_all add: envelope_consistent_def)
  then have "env_checks e'" "spend_checks ?s'"
    using e(3-5) s(2) by (auto simp: release_set_Inr env_checks_def spend_checks_def)
  then have "envelope_consistent (d\<lparr>envelopes := replace_row ee_ID e' (envelopes d),
        spends := replace_row es_ID ?s' (spends d)\<rparr>)"
    using e(2,3) s(2)
    by (intro consistent_move [OF d e(1) s(1)]) (auto simp: release_set_Inr weights)
  then show "envelope_consistent (tx_db t)" unfolding t by (simp only: consistent_events tx.select_convs)
  show "\<not> tx_aborted t" unfolding t by simp
  have "distinct (map es_ID (spends d))" using d by (simp add: envelope_consistent_defs)
  with s(1) show "\<And>r. r \<in> set (spends d) \<Longrightarrow> r \<noteq> s \<Longrightarrow> r \<in> set (spends (tx_db t))"
    unfolding t by (simp add: in_replace_row)
qed

text \<open>What a capture of a reserved hold writes.\<close>

definition captured_tokens :: "ExecutionEnvelopeSpend \<Rightarrow> int64 \<Rightarrow> int64" where
  "captured_tokens s k = (if es_ReservedTokens s <s k then es_ReservedTokens s else k)"

definition captured_row :: "ExecutionEnvelopeSpend \<Rightarrow> int64 \<Rightarrow> int64 \<Rightarrow> int \<Rightarrow> ExecutionEnvelopeSpend" where
  "captured_row s n k now = s\<lparr>es_State := CAPTURED, es_CapturedNanos := n,
     es_CapturedTokens := captured_tokens s k, es_FinalizedAt := Some now\<rparr>"

lemma capture_ok:
  assumes d: "envelope_consistent d" and s: "select_spend_by_contract c d = Some s" "es_State s = RESERVED"
    and ok: "captureEnvelopeSpendTx c n k now \<lparr>tx_db = d, tx_aborted = False\<rparr> = (Inr u, t)"
  obtains e e' where "e \<in> set (envelopes d)" "ee_ID e = es_EnvelopeID s"
    "capture_set (es_ReservedNanos s) n (es_ReservedTokens s - captured_tokens s k) e = Inr e'"
    "t = \<lparr>tx_db = d\<lparr>envelopes := replace_row ee_ID e' (envelopes d),
        spends := replace_row es_ID (captured_row s n k now) (spends d),
        envelope_events := envelope_events d
          @ [(es_EnvelopeID s, EvSpendCaptured (es_ID s) c n (es_ReservedNanos s))]\<rparr>, tx_aborted = False\<rparr>"
proof -
  let ?rel = "es_ReservedTokens s - captured_tokens s k"
  let ?upd = "update_spends (\<lambda>r. Inr (es_ID r = es_ID s \<and> es_State r = RESERVED))
      (\<lambda>r. Inr (r\<lparr>es_State := CAPTURED, es_CapturedNanos := n,
        es_CapturedTokens := captured_tokens s k, es_FinalizedAt := Some now\<rparr>))"
  obtain m d1 where m: "update_envelopes (capture_cond (es_EnvelopeID s) (es_ReservedNanos s) n ?rel)
        (capture_set (es_ReservedNanos s) n ?rel) d = Inr (m, d1)" "m = 1"
    and v: "tx_bind (tx_stmt ?upd)
          (\<lambda>_. tx_stmt (insert_event (es_EnvelopeID s) (EvSpendCaptured (es_ID s) c n (es_ReservedNanos s))))
        \<lparr>tx_db = d1, tx_aborted = False\<rparr> = (Inr u, t)"
    using ok s by (auto simp: captureEnvelopeSpendTx_def tx_oks Let_def captured_tokens_def split: if_splits)
  have "\<And>e. ee_ID e \<noteq> es_EnvelopeID s \<Longrightarrow>
      capture_cond (es_EnvelopeID s) (es_ReservedNanos s) n ?rel e = Inr False"
    by (simp add: capture_cond_def)
  moreover have "\<And>e e'. capture_set (es_ReservedNanos s) n ?rel e = Inr e' \<Longrightarrow> ee_ID e' = ee_ID e"
    by (auto simp: capture_set_Inr)
  ultimately obtain e e' where e: "e \<in> set (envelopes d)" "ee_ID e = es_EnvelopeID s"
    "capture_set (es_ReservedNanos s) n ?rel e = Inr e'"
    "d1 = d\<lparr>envelopes := replace_row ee_ID e' (envelopes d)\<rparr>"
    using update_envelopes_cases [OF d _ _ m(1)] m(2) by (metis One_nat_def zero_neq_one)
  have sin: "s \<in> set (spends d)" using s(1) by (auto simp: select_spend_by_contract_def find_Some_iff)
  have "?upd d1 = Inr (1, d1\<lparr>spends := replace_row es_ID (captured_row s n k now) (spends d1)\<rparr>)"
    unfolding e(4) captured_row_def using d sin s(2)
    by (intro update_reserved_spend) (simp_all add: envelope_consistent_defs)
  with v e that show ?thesis by (auto simp: tx_oks insert_event_def)
qed

lemma captured_tokens_bounds:
  assumes "spend_checks s" and "0 \<le> sint k"
  shows "0 \<le> sint (captured_tokens s k)" and "sint (captured_tokens s k) \<le> sint (es_ReservedTokens s)"
    and "sint (es_ReservedTokens s - captured_tokens s k) = sint (es_ReservedTokens s) - sint (captured_tokens s k)"
    and "0 \<le> sint (es_ReservedTokens s - captured_tokens s k)"
    and "sint (es_ReservedTokens s - captured_tokens s k) \<le> sint (es_ReservedTokens s)"
proof -
  show b: "0 \<le> sint (captured_tokens s k)" "sint (captured_tokens s k) \<le> sint (es_ReservedTokens s)"
    using assms by (auto simp: captured_tokens_def sless64 spend_checks_def)
  show rel: "sint (es_ReservedTokens s - captured_tokens s k) = sint (es_ReservedTokens s) - sint (captured_tokens s k)"
    using b sint64_bounds [of "es_ReservedTokens s"]
    by (intro sint64_diff_in64) (simp only: in64_def, linarith)
  show "0 \<le> sint (es_ReservedTokens s - captured_tokens s k)"
    "sint (es_ReservedTokens s - captured_tokens s k) \<le> sint (es_ReservedTokens s)"
    using b rel by simp_all
qed

lemma capture_guards:
  assumes d: "envelope_consistent d" and s: "select_spend_by_contract c d = Some s" "es_State s = RESERVED"
    and ok: "captureEnvelopeSpendTx c n k now \<lparr>tx_db = d, tx_aborted = False\<rparr> = (Inr u, t)"
  shows "s \<in> set (spends d)" and "0 < sint n" and "sint n \<le> sint (es_ReservedNanos s)"
    and "0 \<le> sint (captured_tokens s k)" and "sint (captured_tokens s k) \<le> sint (es_ReservedTokens s)"
    and "sint (es_ReservedTokens s - captured_tokens s k) = sint (es_ReservedTokens s) - sint (captured_tokens s k)"
proof -
  show sin: "s \<in> set (spends d)" using s(1) by (auto simp: select_spend_by_contract_def find_Some_iff)
  show "0 < sint n" "sint n \<le> sint (es_ReservedNanos s)"
    using ok s by (auto simp: captureEnvelopeSpendTx_def tx_oks i64 split: if_splits)
  have "0 \<le> sint k" using ok s by (auto simp: captureEnvelopeSpendTx_def tx_oks i64 split: if_splits)
  moreover have "spend_checks s" using d sin by (simp add: envelope_consistent_def)
  ultimately show "0 \<le> sint (captured_tokens s k)" "sint (captured_tokens s k) \<le> sint (es_ReservedTokens s)"
    "sint (es_ReservedTokens s - captured_tokens s k) = sint (es_ReservedTokens s) - sint (captured_tokens s k)"
    using captured_tokens_bounds by blast+
qed

lemma capture_consistent:
  assumes d: "envelope_consistent d"
    and ok: "captureEnvelopeSpendTx c n k now \<lparr>tx_db = d, tx_aborted = False\<rparr> = (Inr u, t)"
  shows "envelope_consistent (tx_db t)"
proof (cases "\<exists>s. select_spend_by_contract c d = Some s \<and> es_State s = RESERVED")
  case False
  then show ?thesis
    using d ok by (auto simp: captureEnvelopeSpendTx_def tx_oks split: if_splits option.splits)
next
  case True
  then obtain s where s: "select_spend_by_contract c d = Some s" "es_State s = RESERVED" by blast
  note g = capture_guards [OF d s ok]
  let ?s' = "captured_row s n k now"
  obtain e e' where e: "e \<in> set (envelopes d)" "ee_ID e = es_EnvelopeID s"
    "capture_set (es_ReservedNanos s) n (es_ReservedTokens s - captured_tokens s k) e = Inr e'"
    and t: "t = \<lparr>tx_db = d\<lparr>envelopes := replace_row ee_ID e' (envelopes d),
        spends := replace_row es_ID ?s' (spends d),
        envelope_events := envelope_events d
          @ [(es_EnvelopeID s, EvSpendCaptured (es_ID s) c n (es_ReservedNanos s))]\<rparr>, tx_aborted = False\<rparr>"
    using capture_ok [OF d s ok] by blast
  have "env_checks e" "spend_checks s" using d e(1) g(1) by (simp_all add: envelope_consistent_def)
  moreover note in_reserved_sum [OF d g(1) s(2) e(1,2)]
  ultimately have "env_checks e'" "spend_checks ?s'"
    using e(3) g s(2) by (auto simp: capture_set_Inr env_checks_def spend_checks_def captured_row_def)
  then have "envelope_consistent (d\<lparr>envelopes := replace_row ee_ID e' (envelopes d),
        spends := replace_row es_ID ?s' (spends d)\<rparr>)"
    using e(2,3) s(2) g(6)
    by (intro consistent_move [OF d e(1) g(1)]) (auto simp: capture_set_Inr weights captured_row_def)
  then show ?thesis unfolding t by (simp only: consistent_events tx.select_convs)
qed

lemma release_consistent:
  assumes d: "envelope_consistent d"
    and ok: "releaseEnvelopeSpendForContractTx c now \<lparr>tx_db = d, tx_aborted = False\<rparr> = (Inr u, t)"
  shows "envelope_consistent (tx_db t)"
proof (cases "\<exists>s. select_spend_by_contract c d = Some s \<and> es_State s = RESERVED \<and> c \<noteq> uuid_Nil")
  case False
  then show ?thesis
    using d ok by (auto simp: releaseEnvelopeSpendForContractTx_def tx_oks split: if_splits option.splits)
next
  case True
  then obtain s where s: "select_spend_by_contract c d = Some s" "es_State s = RESERVED" "c \<noteq> uuid_Nil" by blast
  then have "s \<in> set (spends d)" by (auto simp: select_spend_by_contract_def find_Some_iff)
  moreover have "release_hold s ''envelope release failed capacity accounting''
      (EvSpendVoided (es_ID s) (Some c) ''released'' (es_ReservedNanos s)) now
      \<lparr>tx_db = d, tx_aborted = False\<rparr> = (Inr u, t)"
    using ok s by (auto simp: releaseEnvelopeSpendForContractTx_def tx_oks)
  ultimately show ?thesis using d s(2) release_hold_consistent(1) by blast
qed

lemma bind_consistent:
  assumes d: "envelope_consistent d"
    and ok: "bindEnvelopeSpendContractTx i c \<lparr>tx_db = d, tx_aborted = False\<rparr> = (Inr u, t)"
  shows "envelope_consistent (tx_db t)"
proof -
  let ?upd = "\<lambda>s. if c \<notin> fst ` set (contracts d) then Inl errForeignKeyViolation
     else if \<exists>s'\<in>set (spends d). es_ContractID s' = Some c then Inl errUniqueViolation
     else Inr (s\<lparr>es_ContractID := Some c\<rparr>)"
  have uniq: "distinct (map es_ID (spends d))" using d by (simp add: envelope_consistent_defs)
  have u: "update_spends (\<lambda>s. Inr (es_ID s = i \<and> es_State s = RESERVED \<and> es_ContractID s = None)) ?upd d
      = Inr (1, tx_db t)"
    using ok by (auto simp: bindEnvelopeSpendContractTx_def bind_stmt_def tx_oks split: if_splits)
  obtain s where s: "s \<in> set (spends d)" "es_ContractID s = None"
    and free: "c \<in> fst ` set (contracts d)" "\<forall>s'\<in>set (spends d). es_ContractID s' \<noteq> Some c"
    and t: "tx_db t = d\<lparr>spends := replace_row es_ID (s\<lparr>es_ContractID := Some c\<rparr>) (spends d)\<rparr>"
    by (rule update_spends_cases [OF uniq _ _ u, where i = i]) (auto split: if_splits)
  let ?s' = "s\<lparr>es_ContractID := Some c\<rparr>" and ?ss = "replace_row es_ID (s\<lparr>es_ContractID := Some c\<rparr>) (spends d)"
  have only: "r = s" if "r \<in> set (spends d)" "es_ID r = es_ID s" for r
    using uniq s that by (auto simp: distinct_map dest: inj_onD)
  have keep: "map f ?ss = map f (spends d)" if "f ?s' = f s" for f :: "ExecutionEnvelopeSpend \<Rightarrow> 'x"
    using that only by (auto simp: replace_row_def)
  have "env_sums ?ss e = env_sums (spends d) e" for e
    by (simp add: env_sums_def keep)
  moreover have "distinct (List.map_filter es_ContractID ?ss)"
    using d uniq s free(2)
    by (intro distinct_map_filter_replace_row [of es_ID "spends d" s]) (simp_all add: envelope_consistent_defs)
  moreover have "references_ok (d\<lparr>spends := ?ss\<rparr>)"
  proof -
    let ?P = "\<lambda>s. es_EnvelopeID s \<in> ee_ID ` set (envelopes d)
        \<and> (\<forall>c. es_ContractID s = Some c \<longrightarrow> c \<in> fst ` set (contracts d))"
    have old: "?P x" if "x \<in> set (spends d)" for x
      using d that by (simp add: envelope_consistent_defs)
    have new: "?P ?s'" using old [OF s(1)] free(1) by auto
    have "?P x" if "x \<in> set ?ss" for x
    proof -
      have "x = ?s' \<or> x \<in> set (spends d)" using that by (simp add: in_replace_row [OF uniq s(1)]) blast
      then show ?thesis
      proof
        assume x: "x = ?s'"
        show ?thesis unfolding x by (rule new)
      qed (rule old)
    qed
    then show ?thesis by (simp add: references_ok_def)
  qed
  moreover have "\<forall>r\<in>set ?ss. spend_checks r"
    using d s(1) by (auto simp: in_replace_row [OF uniq s(1)] envelope_consistent_def)
  ultimately show ?thesis
    unfolding t using d by (simp add: envelope_consistent_def keys_unique_def keep)
qed

lemma expire_one_ok:
  assumes "\<not> tx_aborted t" and "envelope_consistent (tx_db t)" and "expire_one now i t = (Inr u, t')"
  shows "\<not> tx_aborted t' \<and> envelope_consistent (tx_db t') \<and> spends (tx_db t') = spends (tx_db t)"
proof -
  let ?upd = "\<lambda>e. bind_result (sql_add (ee_Version e) 1) (\<lambda>version.
           Inr (e\<lparr>ee_State := EXPIRED, ee_ClosedAt := Some now, ee_Version := version\<rparr>))"
  obtain n d1 where u: "update_envelopes (\<lambda>e. Inr (ee_ID e = i \<and> ee_State e = ACTIVE)) ?upd (tx_db t) = Inr (n, d1)"
    and t': "t' = t\<lparr>tx_db := d1\<lparr>envelope_events := envelope_events d1 @ [(i, EvExpired)]\<rparr>\<rparr>"
    using assms(3) by (auto simp: expire_one_def tx_oks insert_event_def)
  have "envelope_consistent d1 \<and> spends d1 = spends (tx_db t)"
  proof (rule update_envelopes_cases [OF assms(2) _ _ u, where i = i])
    fix e e'
    assume e: "e \<in> set (envelopes (tx_db t))" "?upd e = Inr e'"
      and d1: "d1 = tx_db t\<lparr>envelopes := replace_row ee_ID e' (envelopes (tx_db t))\<rparr>"
    have "env_checks e" using assms(2) e(1) by (simp add: envelope_consistent_def)
    with e(2) have "env_checks e'" by (auto simp: env_checks_def)
    with e show ?thesis
      unfolding d1 using assms(2) by (auto intro!: consistent_envelope_row)
  qed (use assms(2) in auto)
  with t' assms(1) show ?thesis by simp
qed

lemma expire_all_ok:
  assumes "\<not> tx_aborted t" and "envelope_consistent (tx_db t)"
    and "tx_foldM (\<lambda>i _. expire_one now i) ids () t = (Inr u, t')"
  shows "envelope_consistent (tx_db t')"
  using assms
proof (induction ids arbitrary: t)
  case Nil
  then show ?case by (simp add: tx_oks)
next
  case (Cons i ids)
  then obtain u1 t1 where "expire_one now i t = (Inr u1, t1)"
    and rest: "tx_foldM (\<lambda>i _. expire_one now i) ids () t1 = (Inr u, t')"
    by (auto simp: tx_oks)
  with Cons.prems have "\<not> tx_aborted t1" "envelope_consistent (tx_db t1)"
    by (auto dest: expire_one_ok)
  from Cons.IH [OF this rest] show ?case .
qed

lemma recover_one_ok:
  assumes d: "envelope_consistent d" and s: "s \<in> set (spends d)" "es_State s = RESERVED"
    and ok: "recover_one now s k \<lparr>tx_db = d, tx_aborted = False\<rparr> = (Inr k', t)"
  shows "envelope_consistent (tx_db t)" and "\<not> tx_aborted t"
    and "\<And>r. r \<in> set (spends d) \<Longrightarrow> r \<noteq> s \<Longrightarrow> r \<in> set (spends (tx_db t))"
proof -
  consider (hold) u where "release_hold s ''orphan envelope release failed capacity accounting''
            (EvSpendVoided (es_ID s) None ''orphan_recovery'' (es_ReservedNanos s)) now
            \<lparr>tx_db = d, tx_aborted = False\<rparr> = (Inr u, t)"
    | (logged) ev where "t = \<lparr>tx_db = d\<lparr>envelope_events := ev\<rparr>, tx_aborted = False\<rparr>"
    using ok by (auto simp: recover_one_def tx_oks Let_def insert_event_def split: option.splits if_splits)
  then show "envelope_consistent (tx_db t)" "\<not> tx_aborted t"
    "\<And>r. r \<in> set (spends d) \<Longrightarrow> r \<noteq> s \<Longrightarrow> r \<in> set (spends (tx_db t))"
    using release_hold_consistent [OF d s] d by (cases; auto; fail)+
qed

lemma recover_all_ok:
  assumes "envelope_consistent d" and "distinct ss" and "\<forall>s\<in>set ss. s \<in> set (spends d) \<and> es_State s = RESERVED"
    and "tx_foldM (recover_one now) ss k \<lparr>tx_db = d, tx_aborted = False\<rparr> = (Inr k', t)"
  shows "envelope_consistent (tx_db t)"
  using assms
proof (induction ss arbitrary: d k)
  case Nil
  then show ?case by (simp add: tx_oks)
next
  case (Cons s ss)
  from Cons.prems(4) obtain k1 t1 where one: "recover_one now s k \<lparr>tx_db = d, tx_aborted = False\<rparr> = (Inr k1, t1)"
    and rest: "tx_foldM (recover_one now) ss k1 t1 = (Inr k', t)"
    by (auto simp: tx_oks)
  have s: "s \<in> set (spends d)" "es_State s = RESERVED" using Cons.prems(3) by simp_all
  note step = recover_one_ok [OF Cons.prems(1) s one]
  obtain d1 where t1: "t1 = \<lparr>tx_db = d1, tx_aborted = False\<rparr>" using step(2) by (cases t1) simp
  have d1: "envelope_consistent d1" using step(1) by (simp add: t1)
  have rem: "\<forall>r\<in>set ss. r \<in> set (spends d1) \<and> es_State r = RESERVED"
    using Cons.prems(2,3) step(3) by (auto simp: t1)
  have "distinct ss" using Cons.prems(2) by simp
  from Cons.IH [OF d1 this rem rest [unfolded t1]] show ?case .
qed

lemma create_consistent:
  assumes d: "envelope_consistent d"
    and ok: "CreateExecutionEnvelope deps st b req now i \<lparr>tx_db = d, tx_aborted = False\<rparr> = (Inr r, t)"
  shows "envelope_consistent (tx_db t)"
proof -
  obtain cur a dig where prep: "prepareEnvelope deps st b req now = Inr (cur, a, dig)"
    and ins: "insert_envelope (newEnvelope i b a dig cur (now + sint (cr_TTLSeconds req) * 1000000) now) d =
      Inr ((), d\<lparr>envelopes := envelopes d @ [r]\<rparr>)"
    and r: "r = newEnvelope i b a dig cur (now + sint (cr_TTLSeconds req) * 1000000) now"
    and t: "tx_db t = d\<lparr>envelopes := envelopes d @ [r],
              envelope_events := envelope_events d @ [(i, EvCreated a)]\<rparr>"
    using ok by (auto simp: CreateExecutionEnvelope_def tx_oks Let_def insert_event_def insert_envelope_def
        split: sum.splits if_splits)
  have fresh: "ee_ID r \<notin> ee_ID ` set (envelopes d)"
    using ins by (auto simp: insert_envelope_def r split: if_splits)
  have checks: "env_checks r"
    using prep
    by (auto simp: r newEnvelope_def env_checks_def prepareEnvelope_def newEnvelopeAuthority_def Let_def i64
        split: if_splits option.splits)
  have "es_EnvelopeID s \<in> ee_ID ` set (envelopes d)" if "s \<in> set (spends d)" for s
    using d that by (simp add: envelope_consistent_defs)
  with fresh have "\<forall>s\<in>set (spends d). es_EnvelopeID s \<noteq> ee_ID r" by metis
  then have zero: "(\<Sum>s\<leftarrow>spends d. w (ee_ID r) s) = 0"
    if "\<And>i s. es_EnvelopeID s \<noteq> i \<Longrightarrow> w i s = 0" for w :: "uuid \<Rightarrow> ExecutionEnvelopeSpend \<Rightarrow> int"
    using that by (intro sum_list_all_zero) blast
  have "env_sums (spends d) r"
    using zero [of reservedW] zero [of spentW] zero [of tokenW] zero [of countW] weights_other
    by (simp add: env_sums_def) (simp add: r newEnvelope_def)
  with d fresh checks have "envelope_consistent (d\<lparr>envelopes := envelopes d @ [r]\<rparr>)"
    by (auto simp: envelope_consistent_defs)
  then show ?thesis unfolding t by (simp only: consistent_events)
qed

lemma distinct_of_keys: "distinct (map f xs) \<Longrightarrow> distinct xs"
  by (simp add: distinct_map)

lemma recover_consistent:
  assumes d: "envelope_consistent d"
    and ok: "RecoverOrphanEnvelopeSpends locked grace limit now \<lparr>tx_db = d, tx_aborted = False\<rparr> = (Inr k, t)"
  shows "envelope_consistent (tx_db t)"
proof -
  let ?ss = "orphan_spends locked now grace (nat limit) d"
  have "tx_foldM (recover_one now) ?ss 0 \<lparr>tx_db = d, tx_aborted = False\<rparr> = (Inr k, t)"
    using ok by (auto simp: RecoverOrphanEnvelopeSpends_def tx_oks split: if_splits)
  moreover have "distinct (map es_ID (spends d))" using d by (simp add: envelope_consistent_defs)
  then have "distinct ?ss"
    by (auto simp: orphan_spends_def dest: distinct_of_keys)
  moreover have "\<forall>s\<in>set ?ss. s \<in> set (spends d) \<and> es_State s = RESERVED"
    by (auto simp: orphan_spends_def dest!: in_set_takeD)
  ultimately show ?thesis using d recover_all_ok by blast
qed

lemma expire_consistent:
  assumes "envelope_consistent d"
    and "ReleaseExpiredExecutionEnvelopes locked limit now \<lparr>tx_db = d, tx_aborted = False\<rparr> = (Inr k, t)"
  shows "envelope_consistent (tx_db t)"
  using assms
  by (auto simp: ReleaseExpiredExecutionEnvelopes_def tx_oks split: if_splits
      intro: expire_all_ok [of "\<lparr>tx_db = d, tx_aborted = False\<rparr>"])

lemma contract_consistent:
  "envelope_consistent d \<Longrightarrow> envelope_consistent (d\<lparr>contracts := (c, st) # contracts d\<rparr>)"
  by (auto simp: envelope_consistent_defs)

lemma envelope_body_consistent:
  assumes d: "envelope_consistent d"
    and ok: "envelope_body op \<lparr>tx_db = d, tx_aborted = False\<rparr> = (Inr u, t)"
  shows "envelope_consistent (tx_db t)"
proof (cases op)
  case (OpSpend e b n k key r p sn wn i)
  with ok obtain a where r: "reserve_with (\<lambda>key. tx_query (select_spend_by_key e key)) e b n k key r p sn wn i
      \<lparr>tx_db = d, tx_aborted = False\<rparr> = (Inr a, t)"
    by (auto simp: ignore_result_def tx_oks reserveEnvelopeSpendTx_def)
  show ?thesis by (rule reserve_with_consistent [OF d _ r]) (simp add: tx_oks)
next
  case (OpSpendRaced e b n k key r p sn wn i)
  with ok obtain a where r: "reserve_with (\<lambda>key. tx_return None) e b n k key r p sn wn i
      \<lparr>tx_db = d, tx_aborted = False\<rparr> = (Inr a, t)"
    by (auto simp: ignore_result_def tx_oks reserveEnvelopeSpendRaced_def)
  show ?thesis by (rule reserve_with_consistent [OF d _ r]) (simp add: tx_oks)
qed (use d ok in \<open>auto simp: ignore_result_def tx_oks intro: create_consistent bind_consistent
    capture_consistent release_consistent expire_consistent recover_consistent contract_consistent\<close>)

interpretation envelope: consistent_store envelope_body envelope_consistent
  by unfold_locales (rule envelope_body_consistent)

section \<open>Spend rows are never lost\<close>

text \<open>The columns of a spend that no statement changes.\<close>

definition spend_identity :: "ExecutionEnvelopeSpend \<Rightarrow> uuid \<times> uuid \<times> uuid \<times> string \<times> string \<times> int64 \<times> int64" where
  "spend_identity s = (es_ID s, es_EnvelopeID s, es_BuyerID s, es_IdempotencyKey s, es_RequestID s,
     es_ReservedNanos s, es_ReservedTokens s)"

definition rows_kept :: "envelope_db \<Rightarrow> envelope_db \<Rightarrow> bool" where
  "rows_kept d d' = prefix (map spend_identity (spends d)) (map spend_identity (spends d'))"

lemma rows_kept_preorder: "reflp rows_kept" "transp rows_kept"
  by (auto simp: rows_kept_def intro!: reflpI transpI intro: prefix_order.trans)

lemma update_envelopes_rows: "update_envelopes c u d = Inr (a, d') \<Longrightarrow> rows_kept d d'"
  by (auto simp: update_envelopes_def rows_kept_def)

lemma update_spends_rows:
  assumes "\<And>s s'. u s = Inr s' \<Longrightarrow> spend_identity s' = spend_identity s" and "update_spends c u d = Inr (a, d')"
  shows "rows_kept d d'"
  using assms(2) update_where_map [of u spend_identity c "spends d"] assms(1)
  by (auto simp: update_spends_def rows_kept_def)

lemma other_stmts_rows:
  "insert_spend s d = Inr (a, d') \<Longrightarrow> rows_kept d d'"
  "insert_event i ev d = Inr (a, d') \<Longrightarrow> rows_kept d d'"
  "insert_envelope e d = Inr (a, d') \<Longrightarrow> rows_kept d d'"
  by (auto simp: insert_spend_def insert_event_def insert_envelope_def rows_kept_def split: if_splits)

lemma void_rows: "void_spend i now d = Inr (a, d') \<Longrightarrow> rows_kept d d'"
  unfolding void_spend_def by (erule update_spends_rows [rotated]) (auto simp: spend_identity_def)

lemma bind_rows: "bind_stmt i c d = Inr (a, d') \<Longrightarrow> rows_kept d d'"
  unfolding bind_stmt_def by (erule update_spends_rows [rotated]) (auto simp: spend_identity_def split: if_splits)

lemma captured_rows:
  "update_spends cond (\<lambda>r. Inr (r\<lparr>es_State := st, es_CapturedNanos := n, es_CapturedTokens := k,
     es_FinalizedAt := f\<rparr>)) d = Inr (a, d') \<Longrightarrow> rows_kept d d'"
  by (erule update_spends_rows [rotated]) (auto simp: spend_identity_def)

lemmas rows_kept_stmts = update_envelopes_rows other_stmts_rows void_rows bind_rows captured_rows

lemmas rows_monos = tx_mono_stmt [OF rows_kept_preorder(1)] tx_mono_query [OF rows_kept_preorder(1)]
  tx_mono_return [OF rows_kept_preorder(1)] tx_mono_fail [OF rows_kept_preorder(1)]
  tx_mono_handle [OF rows_kept_preorder(2)] tx_mono_bind [OF rows_kept_preorder]
  tx_mono_foldM [OF rows_kept_preorder] tx_mono_if tx_mono_option tx_mono_sum

lemma release_hold_mono: "tx_mono rows_kept (release_hold s msg ev now)"
  unfolding release_hold_def by (intro rows_monos rows_kept_stmts) assumption+

lemma reserve_with_mono:
  "(\<And>k. tx_mono rows_kept (sel k)) \<Longrightarrow> tx_mono rows_kept (reserve_with sel i b n k key r p sn wn sid)"
  unfolding reserve_with_def reserve_after_select_def Let_def
  by (intro rows_monos rows_kept_stmts) assumption+

lemma capture_mono: "tx_mono rows_kept (captureEnvelopeSpendTx c n k now)"
  unfolding captureEnvelopeSpendTx_def Let_def
  by (intro rows_monos; erule rows_kept_stmts)

lemma recover_one_mono: "tx_mono rows_kept (recover_one now s k)"
  unfolding recover_one_def Let_def by (intro rows_monos release_hold_mono; erule rows_kept_stmts)

lemma envelope_body_mono: "tx_mono rows_kept (envelope_body op)"
proof (cases op)
  case (OpCreate deps st b req now i)
  then show ?thesis
    by (simp add: ignore_result_def CreateExecutionEnvelope_def Let_def split: sum.split prod.split)
      (intro rows_monos rows_kept_stmts conjI allI impI; assumption)
next
  case (OpExpire locked limit now)
  then show ?thesis
    by (simp only: envelope_body.simps ignore_result_def ReleaseExpiredExecutionEnvelopes_def expire_one_def)
      (intro rows_monos rows_kept_stmts; assumption)
next
  case (OpRecover locked grace limit now)
  then show ?thesis
    by (simp only: envelope_body.simps ignore_result_def RecoverOrphanEnvelopeSpends_def)
      (intro rows_monos recover_one_mono)
next
  case (OpContract c st)
  then show ?thesis by (auto intro!: rows_monos simp: rows_kept_def)
qed (auto simp: ignore_result_def reserveEnvelopeSpendTx_def reserveEnvelopeSpendRaced_def
    bindEnvelopeSpendContractTx_def releaseEnvelopeSpendForContractTx_def
    intro!: rows_monos reserve_with_mono capture_mono release_hold_mono intro: rows_kept_stmts)

lemma history_rows_kept:
  "rows_kept d (fold (\<lambda>op d. snd (run_tx (envelope_body op) d)) ops d)"
  using rows_kept_preorder envelope_body_mono by (rule envelope.history_mono)

section \<open>Properties of the store\<close>

definition emptyEnvelopeDb :: envelope_db where
  "emptyEnvelopeDb = \<lparr>envelopes = [], spends = [], envelope_events = [], contracts = []\<rparr>"

definition envelope_history :: "envelope_op list \<Rightarrow> envelope_db \<Rightarrow> envelope_db" where
  "envelope_history ops d = fold (\<lambda>op d. snd (run_tx (envelope_body op) d)) ops d"

lemma empty_consistent: "envelope_consistent emptyEnvelopeDb"
  by (simp add: envelope_consistent_defs emptyEnvelopeDb_def map_filter_simps)

lemma env_history_consistent: "envelope_consistent d \<Longrightarrow> envelope_consistent (envelope_history ops d)"
  unfolding envelope_history_def by (rule envelope.history_consistent)

abbreviation holds_of :: "ExecutionEnvelope \<Rightarrow> spend_state \<Rightarrow> envelope_db \<Rightarrow> ExecutionEnvelopeSpend list" where
  "holds_of e st d \<equiv> filter (\<lambda>s. es_EnvelopeID s = ee_ID e \<and> es_State s = st) (spends d)"

lemma sum_countW: "(\<Sum>s\<leftarrow>ss. countW i s) = int (length (filter (\<lambda>s. es_EnvelopeID s = i) ss))"
  by (induction ss) (simp_all add: countW_def)

text \<open>
  C1. Whatever creates, spends (raced or not), contract bindings, captures, releases, expiries
  and recoveries the store has served, in any order, each envelope's counters are exactly
  what its spend rows add up to, and reserved plus spent never exceeds the granted cap, nor
  the requests their limit.
\<close>

theorem envelope_never_overcommitted:
  assumes "d = envelope_history ops emptyEnvelopeDb" and "e \<in> set (envelopes d)"
  shows "sint (ee_SpentNanos e) + sint (ee_ReservedNanos e) \<le> sint (ee_CapNanos e)
    \<and> sint (ee_ReservedNanos e) = (\<Sum>s\<leftarrow>holds_of e RESERVED d. sint (es_ReservedNanos s))
    \<and> sint (ee_SpentNanos e) = (\<Sum>s\<leftarrow>holds_of e CAPTURED d. sint (es_CapturedNanos s))
    \<and> sint (ee_RequestCount e) = int (length (filter (\<lambda>s. es_EnvelopeID s = ee_ID e) (spends d)))
    \<and> sint (ee_RequestCount e) \<le> sint (ee_MaxRequests e)"
proof -
  have "envelope_consistent d" unfolding assms(1) by (intro env_history_consistent empty_consistent)
  with assms(2) have sums: "env_sums (spends d) e" and checks: "env_checks e"
    by (simp_all add: envelope_consistent_def)
  have "(\<Sum>s\<leftarrow>holds_of e RESERVED d. sint (es_ReservedNanos s)) = (\<Sum>s\<leftarrow>spends d. reservedW (ee_ID e) s)"
    "(\<Sum>s\<leftarrow>holds_of e CAPTURED d. sint (es_CapturedNanos s)) = (\<Sum>s\<leftarrow>spends d. spentW (ee_ID e) s)"
    by (simp_all add: sum_list_map_filter' reservedW_def spentW_def)
  with sums checks show ?thesis unfolding env_sums_def env_checks_def sum_countW by metis
qed

lemma find_unique_key:
  assumes "envelope_consistent d" and "s \<in> set (spends d)"
  shows "select_spend_by_key (es_EnvelopeID s) (es_IdempotencyKey s) d = Some s"
proof -
  let ?P = "\<lambda>r. es_EnvelopeID r = es_EnvelopeID s \<and> es_IdempotencyKey r = es_IdempotencyKey s"
  have "distinct (map (\<lambda>s. (es_EnvelopeID s, es_IdempotencyKey s)) (spends d))"
    using assms(1) by (simp add: envelope_consistent_defs)
  then have uniq: "r = s" if "r \<in> set (spends d)" "?P r" for r
    using assms(2) that by (auto simp: distinct_map dest: inj_onD)
  obtain r where "find ?P (spends d) = Some r"
    using assms(2) by (cases "find ?P (spends d)") (auto simp: find_None_iff)
  then have "r \<in> set (spends d)" "?P r" by (auto simp: find_Some_iff)
  with uniq \<open>find ?P (spends d) = Some r\<close> show ?thesis by (simp add: select_spend_by_key_def)
qed

text \<open>A committed spend is in the table, under its key, with the amount asked for.\<close>

lemma reserve_ok_row:
  assumes d: "envelope_consistent d"
    and ok: "run_tx (reserveEnvelopeSpendTx i b n k key rid p sn wn sid) d = (Inr r, d1)"
  shows "r \<in> set (spends d1)" and "es_EnvelopeID r = i" and "es_IdempotencyKey r = TrimSpace key"
    and "es_BuyerID r = b" and "es_ReservedNanos r = n"
    and "\<not> (rid \<noteq> [] \<and> es_RequestID r \<noteq> [] \<and> es_RequestID r \<noteq> rid)"
    and "i \<noteq> uuid_Nil" and "b \<noteq> uuid_Nil" and "\<not> n \<le>s 0" and "TrimSpace key \<noteq> []"
proof -
  obtain found t where found: "found = select_spend_by_key i (TrimSpace key) d"
    and t: "reserve_after_select found i b n k (TrimSpace key) rid p sn wn sid
        \<lparr>tx_db = d, tx_aborted = False\<rparr> = (Inr r, t)" "d1 = tx_db t"
    and g: "i \<noteq> uuid_Nil" "b \<noteq> uuid_Nil" "\<not> n \<le>s 0" "TrimSpace key \<noteq> []"
    using ok by (auto simp: run_tx_ok reserveEnvelopeSpendTx_def reserve_with_def tx_oks Let_def split: if_splits)
  show "i \<noteq> uuid_Nil" "b \<noteq> uuid_Nil" "\<not> n \<le>s 0" "TrimSpace key \<noteq> []" using g by auto
  have replayed: "\<not> (rid \<noteq> [] \<and> es_RequestID r \<noteq> [] \<and> es_RequestID r \<noteq> rid)" if "found \<noteq> None"
    using t(1) that by (auto simp: reserve_after_select_def tx_oks split: if_splits)
  from reserve_after_select_ok [OF d t(1)]
  show "r \<in> set (spends d1)" "es_EnvelopeID r = i" "es_IdempotencyKey r = TrimSpace key"
    "es_BuyerID r = b" "es_ReservedNanos r = n" "\<not> (rid \<noteq> [] \<and> es_RequestID r \<noteq> [] \<and> es_RequestID r \<noteq> rid)"
    using t(2) found replayed
    by (auto simp: select_spend_by_key_def find_Some_iff newSpend_def)
qed

lemma rows_kept_member:
  assumes "rows_kept d d'" and "s \<in> set (spends d)"
  obtains s' where "s' \<in> set (spends d')" and "spend_identity s' = spend_identity s"
proof -
  have "spend_identity s \<in> set (map spend_identity (spends d'))"
    using assms set_mono_prefix by (fastforce simp: rows_kept_def)
  then show ?thesis using that by auto
qed

lemma reserve_replay:
  assumes "envelope_consistent d" and "s \<in> set (spends d)" and "es_EnvelopeID s = i"
    and "es_IdempotencyKey s = TrimSpace key" and "es_BuyerID s = b" and "es_ReservedNanos s = n"
    and "\<not> (rid \<noteq> [] \<and> es_RequestID s \<noteq> [] \<and> es_RequestID s \<noteq> rid)"
    and "i \<noteq> uuid_Nil" and "b \<noteq> uuid_Nil" and "\<not> n \<le>s 0" and "TrimSpace key \<noteq> []" and "\<not> k <s 0"
  shows "run_tx (reserveEnvelopeSpendTx i b n k key rid p sn wn sid) d = (Inr s, d)"
proof -
  have "select_spend_by_key i (TrimSpace key) d = Some s"
    using find_unique_key [OF assms(1,2)] assms(3,4) by simp
  then show ?thesis
    using assms(5-)
    by (simp add: run_tx_def reserveEnvelopeSpendTx_def reserve_with_def reserve_after_select_def
        tx_query_def tx_stmt_def tx_simps Let_def)
qed

text \<open>
  C14. A spend is idempotent for ever: once a spend has been granted, the same call (same
  envelope, buyer, amount, key and request) returns the same spend and leaves the database
  untouched, whatever other operations ran in between, whatever the clocks say and even when
  the envelope has expired or is exhausted since.
\<close>

theorem envelope_spend_idempotent:
  assumes "d = envelope_history before emptyEnvelopeDb"
    and "run_tx (reserveEnvelopeSpendTx i b n k key rid p sn wn sid) d = (Inr r, d1)"
    and "d2 = envelope_history between d1" and "\<not> k' <s 0"
  shows "\<exists>r'. run_tx (reserveEnvelopeSpendTx i b n k' key rid p' sn' wn' sid') d2 = (Inr r', d2)
    \<and> es_ID r' = es_ID r \<and> es_ReservedTokens r' = es_ReservedTokens r"
proof -
  have d: "envelope_consistent d" unfolding assms(1) by (intro env_history_consistent empty_consistent)
  note row = reserve_ok_row [OF d assms(2)]
  have "envelope_body (OpSpend i b n k key rid p sn wn sid) = ignore_result (reserveEnvelopeSpendTx i b n k key rid p sn wn sid)"
    by simp
  with assms(2) have "snd (run_tx (envelope_body (OpSpend i b n k key rid p sn wn sid)) d) = d1"
    by (auto simp: run_tx_def ignore_result_def tx_simps split: prod.splits sum.splits if_splits)
  with envelope.run_consistent [OF d] have "envelope_consistent d1" by metis
  then have d2: "envelope_consistent d2" unfolding assms(3) by (rule env_history_consistent)
  have "rows_kept d1 d2" unfolding assms(3) envelope_history_def by (rule history_rows_kept)
  then obtain s where s: "s \<in> set (spends d2)" "spend_identity s = spend_identity r"
    using row(1) by (rule rows_kept_member)
  have "run_tx (reserveEnvelopeSpendTx i b n k' key rid p' sn' wn' sid') d2 = (Inr s, d2)"
    using s row assms(4) by (intro reserve_replay [OF d2 s(1)]) (auto simp: spend_identity_def)
  with s(2) show ?thesis by (auto simp: spend_identity_def)
qed

text \<open>
  C37. A spend that is overtaken by a concurrent spend of the same key (its first look-up found
  nothing, the row was committed before its claim) never charges twice: nothing is written.
  But it does not replay the winner either: the unique violation has aborted the
  transaction, so the compensating update is refused and the caller gets that error.
\<close>

theorem envelope_raced_spend_fails:
  assumes "d = envelope_history before emptyEnvelopeDb"
    and "s \<in> set (spends d)" and "es_EnvelopeID s = i" and "es_IdempotencyKey s = TrimSpace key"
    and "e \<in> set (envelopes d)" and "claim_cond i n k b p sn e = Inr True" and "claim_set n k e = Inr e'"
    and "i \<noteq> uuid_Nil" and "b \<noteq> uuid_Nil" and "TrimSpace key \<noteq> []" and "0 \<le> sint k"
  shows "run_tx (reserveEnvelopeSpendRaced i b n k key rid p sn wn sid) d = (Inl errInFailedTransaction, d)"
proof -
  have d: "envelope_consistent d" unfolding assms(1) by (intro env_history_consistent empty_consistent)
  have pos: "\<not> n \<le>s 0" "\<not> k <s 0" using claim_cond_True [OF assms(6)] assms(11) by (auto simp: i64)
  have "update_where (claim_cond i n k b p sn) (claim_set n k) (envelopes d) =
      bind_result (claim_cond i n k b p sn e) (\<lambda>hit. if hit
        then bind_result (claim_set n k e) (\<lambda>e'. Inr (1, replace_row ee_ID e' (envelopes d)))
        else Inr (0, envelopes d))"
    using d assms(5) claim_cond_True [OF assms(6)]
    by (intro update_where_key) (auto simp: envelope_consistent_defs claim_off dest: claim_same)
  then have "update_envelopes (claim_cond i n k b p sn) (claim_set n k) d =
      Inr (1, d\<lparr>envelopes := replace_row ee_ID e' (envelopes d)\<rparr>)"
    by (simp add: update_envelopes_def assms(6,7))
  moreover have "insert_spend (newSpend sid i b (TrimSpace key) rid n k wn)
      (d\<lparr>envelopes := replace_row ee_ID e' (envelopes d)\<rparr>) = Inl errUniqueViolation"
    using assms(2-4) by (auto simp: insert_spend_def newSpend_def)
  ultimately show ?thesis
    using assms(8-10) pos
    by (simp add: run_tx_def reserveEnvelopeSpendRaced_def reserve_with_def reserve_after_select_def
        tx_stmt_def tx_simps Let_def)
qed

lemma find_unique_contract:
  assumes "envelope_consistent d" and "s \<in> set (spends d)" and "es_ContractID s = Some c"
  shows "select_spend_by_contract c d = Some s"
  using assms find_unique_index [of es_ContractID "spends d"]
  by (simp add: select_spend_by_contract_def envelope_consistent_defs)

lemma capture_stmt_defined:
  assumes d: "envelope_consistent d" and s: "s \<in> set (spends d)" "es_State s = RESERVED"
    and n: "0 < sint n" "sint n \<le> sint (es_ReservedNanos s)"
    and rel: "0 \<le> sint rel" "sint rel \<le> sint (es_ReservedTokens s)"
    and ver: "\<forall>e\<in>set (envelopes d). sint (ee_Version e) < maxInt64"
  obtains e e' where "e \<in> set (envelopes d)" "ee_ID e = es_EnvelopeID s"
    "capture_set (es_ReservedNanos s) n rel e = Inr e'"
    "update_envelopes (capture_cond (es_EnvelopeID s) (es_ReservedNanos s) n rel)
       (capture_set (es_ReservedNanos s) n rel) d =
     Inr (1, d\<lparr>envelopes := replace_row ee_ID e' (envelopes d)\<rparr>)"
proof -
  obtain e where e: "e \<in> set (envelopes d)" "ee_ID e = es_EnvelopeID s"
    using d s(1) by (force simp: envelope_consistent_defs)
  have chk: "env_checks e" "spend_checks s" using d e(1) s(1) by (simp_all add: envelope_consistent_def)
  note sums = in_reserved_sum [OF d s e]
  note bounds = sint64_bounds [of "ee_CapNanos e"] sint64_bounds [of "ee_TokenCount e"]
    sint64_bounds [of "ee_ReservedNanos e"]
  have "in64 (sint (ee_SpentNanos e) + sint n)" "in64 (sint (ee_ReservedNanos e) - sint (es_ReservedNanos s))"
    "in64 (sint (ee_TokenCount e) - sint rel)" "in64 (sint (ee_Version e) + 1)"
    using chk n rel sums bounds ver [rule_format, OF e(1)]
    by (auto simp: in64_def env_checks_def spend_checks_def)
  note defined = this [THEN sint64_of_int_in64]
  obtain x :: int64 where x: "sint x = sint (ee_SpentNanos e) + sint n" using defined(1) by blast
  obtain r :: int64 where r: "sint r = sint (ee_ReservedNanos e) - sint (es_ReservedNanos s)" using defined(2) by blast
  obtain k :: int64 where k: "sint k = sint (ee_TokenCount e) - sint rel" using defined(3) by blast
  obtain v :: int64 where v: "sint v = sint (ee_Version e) + 1" using defined(4) by blast
  let ?e' = "e\<lparr>ee_ReservedNanos := r, ee_SpentNanos := x, ee_TokenCount := k, ee_Version := v\<rparr>"
  have set: "capture_set (es_ReservedNanos s) n rel e = Inr ?e'"
    unfolding capture_set_Inr using x r k v by blast
  have "sql_add (ee_SpentNanos e) n = Inr x" using x by simp
  then have cond: "capture_cond (es_EnvelopeID s) (es_ReservedNanos s) n rel e = Inr True"
    using e(2) sums chk n rel x by (auto simp: capture_cond_def sle64 env_checks_def spend_checks_def)
  have "update_where (capture_cond (es_EnvelopeID s) (es_ReservedNanos s) n rel)
      (capture_set (es_ReservedNanos s) n rel) (envelopes d) =
    bind_result (capture_cond (es_EnvelopeID s) (es_ReservedNanos s) n rel e) (\<lambda>hit. if hit
      then bind_result (capture_set (es_ReservedNanos s) n rel e) (\<lambda>r'. Inr (1, replace_row ee_ID r' (envelopes d)))
      else Inr (0, envelopes d))"
    using d e by (intro update_where_key) (auto simp: envelope_consistent_defs capture_cond_def capture_set_Inr)
  with that [OF e set] show ?thesis by (simp add: update_envelopes_def cond set)
qed

lemma hold_capturable:
  assumes d: "envelope_consistent d" and s: "s \<in> set (spends d)" "es_State s = RESERVED"
    and c: "es_ContractID s = Some c" "c \<noteq> uuid_Nil"
    and n: "0 < sint n" "sint n \<le> sint (es_ReservedNanos s)" and k: "0 \<le> sint k"
    and ver: "\<forall>e\<in>set (envelopes d). sint (ee_Version e) < maxInt64"
  shows "\<exists>d' e e'. run_tx (captureEnvelopeSpendTx c n k now) d = (Inr (), d')
    \<and> e \<in> set (envelopes d) \<and> ee_ID e = es_EnvelopeID s \<and> e' \<in> set (envelopes d') \<and> ee_ID e' = ee_ID e
    \<and> capture_set (es_ReservedNanos s) n (es_ReservedTokens s - captured_tokens s k) e = Inr e'"
proof -
  let ?rel = "es_ReservedTokens s - captured_tokens s k"
  have sel: "select_spend_by_contract c d = Some s" using d s(1) c(1) by (rule find_unique_contract)
  have "spend_checks s" using d s(1) by (simp add: envelope_consistent_def)
  note tok = captured_tokens_bounds [OF this k]
  obtain e e' where e: "e \<in> set (envelopes d)" "ee_ID e = es_EnvelopeID s"
    and e': "capture_set (es_ReservedNanos s) n ?rel e = Inr e'"
    and upd: "update_envelopes (capture_cond (es_EnvelopeID s) (es_ReservedNanos s) n ?rel)
        (capture_set (es_ReservedNanos s) n ?rel) d =
      Inr (1, d\<lparr>envelopes := replace_row ee_ID e' (envelopes d)\<rparr>)"
    using capture_stmt_defined [OF d s n tok(4,5) ver] by blast
  let ?d = "d\<lparr>envelopes := replace_row ee_ID e' (envelopes d)\<rparr>"
  have "update_spends (\<lambda>r. Inr (es_ID r = es_ID s \<and> es_State r = RESERVED))
      (\<lambda>r. Inr (r\<lparr>es_State := CAPTURED, es_CapturedNanos := n,
        es_CapturedTokens := captured_tokens s k, es_FinalizedAt := Some now\<rparr>)) ?d
    = Inr (1, ?d\<lparr>spends := replace_row es_ID (captured_row s n k now) (spends ?d)\<rparr>)"
    unfolding captured_row_def using d s
    by (intro update_reserved_spend) (simp_all add: envelope_consistent_defs)
  moreover have "\<not> n \<le>s 0" "\<not> k <s 0" "\<not> es_ReservedNanos s <s n" using n k by (simp_all add: i64)
  ultimately have "\<exists>d'. run_tx (captureEnvelopeSpendTx c n k now) d = (Inr (), d') \<and> envelopes d' = envelopes ?d"
    using sel s(2) c(2) upd
    by (simp add: run_tx_def captureEnvelopeSpendTx_def tx_query_def tx_stmt_def tx_simps Let_def
        insert_event_def flip: captured_tokens_def)
  then obtain d' where "run_tx (captureEnvelopeSpendTx c n k now) d = (Inr (), d')" "envelopes d' = envelopes ?d"
    by blast
  moreover have "e' \<in> set (envelopes ?d)" "ee_ID e' = ee_ID e"
    using d e e' by (auto simp: in_replace_row envelope_consistent_defs capture_set_Inr)
  ultimately show ?thesis using e e' by metis
qed

text \<open>
  C27. A hold is a promise the store can keep: as long as the envelope's version counter has
  room, every reserved spend bound to a contract can be captured for any amount up to the
  reservation. None of the accounting refusals of the capture is ever taken, and the
  envelope moves exactly that amount to spent and gives the whole hold back.
\<close>

theorem envelope_hold_capturable:
  assumes "d = envelope_history before emptyEnvelopeDb"
    and "s \<in> set (spends d)" and "es_State s = RESERVED" and "es_ContractID s = Some c" and "c \<noteq> uuid_Nil"
    and "0 < sint n" and "sint n \<le> sint (es_ReservedNanos s)" and "0 \<le> sint k"
    and "\<forall>e\<in>set (envelopes d). sint (ee_Version e) < maxInt64"
  shows "\<exists>d' e e'. run_tx (captureEnvelopeSpendTx c n k now) d = (Inr (), d')
    \<and> e \<in> set (envelopes d) \<and> ee_ID e = es_EnvelopeID s \<and> e' \<in> set (envelopes d') \<and> ee_ID e' = ee_ID e
    \<and> sint (ee_SpentNanos e') = sint (ee_SpentNanos e) + sint n
    \<and> sint (ee_ReservedNanos e') = sint (ee_ReservedNanos e) - sint (es_ReservedNanos s)"
proof -
  have d: "envelope_consistent d" unfolding assms(1) by (intro env_history_consistent empty_consistent)
  have "sint (ee_SpentNanos e') = sint (ee_SpentNanos e) + sint n
      \<and> sint (ee_ReservedNanos e') = sint (ee_ReservedNanos e) - sint (es_ReservedNanos s)"
    if "capture_set (es_ReservedNanos s) n rel e = Inr e'" for rel e e'
    using that by (auto simp: capture_set_Inr)
  with hold_capturable [OF d assms(2-)] show ?thesis by metis
qed

lemma ceil_div999: "(k + 999) div 1000 = - (- k div 1000 :: int)"
proof -
  have r: "0 \<le> k mod 1000" "k mod 1000 < 1000" by simp_all
  have "k + 999 = k mod 1000 + 999 + k div 1000 * 1000" by simp
  then have "(k + 999) div 1000 = k div 1000 + (k mod 1000 + 999) div 1000"
    by (metis div_mult_self1 zero_neq_numeral)
  also have "(k mod 1000 + 999) div 1000 = (if k mod 1000 = 0 then 0 else 1)"
    using r by (auto intro: int_div_pos_eq [where r = "k mod 1000 - 1"])
  finally show ?thesis by (simp add: ceil_div)
qed

text \<open>
  The funding hold is never below the exact liability: \<^verbatim>\<open>ceilNanosToMicros\<close> is the ceiling
  in micros, and beyond the last amount for which the intermediate sum fits \<^verbatim>\<open>int64\<close> it is
  negative, which the funding check refuses; it never silently under-holds.
\<close>

theorem ceilNanosToMicros_covers:
  "(if sint n \<le> 0 then ceilNanosToMicros n = 0
    else if sint n \<le> maxInt64 - 999 then sint (ceilNanosToMicros n) = \<lceil>of_int (sint n) / (1000 :: rat)\<rceil>
    else sint (ceilNanosToMicros n) < 0)"
proof -
  have sum: "sint (n + NanosPerMicro - 1) = wrap64 (sint n + 999)"
    using sint64_add [of n 999] by (simp add: NanosPerMicro_def ac_simps)
  consider "sint n \<le> 0" | (fits) "0 < sint n" "sint n \<le> maxInt64 - 999" | (over) "maxInt64 - 999 < sint n"
    by linarith
  then show ?thesis
  proof cases
    case fits
    then have "sint (n + NanosPerMicro - 1) = sint n + 999" unfolding sum by (intro wrap64_id) (simp add: in64_def)
    with fits have "sint (ceilNanosToMicros n) = (sint n + 999) div 1000"
      by (simp add: ceilNanosToMicros_def sle64 sint_go_div)
    also have "\<dots> = - (- sint n div 1000)" by (simp add: ceil_div999)
    also have "\<dots> = \<lceil>of_int (sint n) / (1000 :: rat)\<rceil>"
      using round_div_rat(1) [of "sint n" 1000] by (simp add: round_div_def)
    finally show ?thesis using fits by simp
  next
    case over
    have "sint (n + NanosPerMicro - 1) = sint n + 999 - 18446744073709551616"
      unfolding sum using over sint64_bounds [of n] by (simp add: wrap64_once)
    then have neg: "sint (n + NanosPerMicro - 1) \<le> - 1000" using sint64_bounds [of n] by linarith
    let ?a = "sint (n + NanosPerMicro - 1)"
    have q: "?a sdiv 1000 = - (- ?a div 1000)" using neg by (simp add: signed_divide_int_def sgn_if)
    have "1 \<le> - ?a div 1000" using neg by simp
    moreover have "- ?a div 1000 \<le> - ?a" using neg by (intro int_div_less_self_le) simp_all
    ultimately have "in64 (?a sdiv 1000)" "?a sdiv 1000 < 0"
      unfolding q in64_def using sint64_bounds [of "n + NanosPerMicro - 1"] by linarith+
    then show ?thesis
      using over by (simp add: ceilNanosToMicros_def sle64 go_div_def sint64_of_int_in64)
  qed (simp add: ceilNanosToMicros_def sle64)
qed

section \<open>A concrete store\<close>

text \<open>One envelope with a cap of 1000 nanos and one spend of 500 bound to contract 9.\<close>

definition demo_settlement :: settlement where
  "demo_settlement = \<lparr>settlementLoaded = True, settlementCurrency = \<lparr>cur_code = ''usd'', cur_exponent = 2\<rparr>\<rparr>"

definition demo_profile :: VLLMRuntimeProfile where
  "demo_profile = \<lparr>vp_RuntimeProfileID = ''p'', vp_ProfileSHA256 = replicate 64 (CHR ''a''), vp_ModelAlias = ''m''\<rparr>"

definition demo_deps :: envelope_deps where
  "demo_deps = \<lparr>vllmProfileByID = (\<lambda>_. Some demo_profile), validateVLLMRuntimeProfile = (\<lambda>_. Inr ()),
     buyerInputRate = (\<lambda>_. Inr 1), buyerOutputRate = (\<lambda>_. Inr 1), sha256_json = (\<lambda>_. ''d''),
     evaluateRealtimeBuyerFunding = (\<lambda>_ _ _. Inr ())\<rparr>"

definition demo_request :: ExecutionEnvelopeCreateRequest where
  "demo_request = \<lparr>cr_RuntimeProfileID = ''p'', cr_CapNanos = 1000, cr_MaxRequests = 10, cr_MaxTokens = 100,
     cr_PerRequestCeilingNanos = 600, cr_TTLSeconds = 60\<rparr>"

definition demo_ops :: "envelope_op list" where
  "demo_ops = [OpCreate demo_deps demo_settlement 7 demo_request 0 1,
     OpSpend 1 7 500 10 ''k'' ''r'' demo_profile 1 1 2, OpContract 9 ''EXECUTING'', OpBind 2 9]"

definition demo_db :: envelope_db where
  "demo_db = envelope_history demo_ops emptyEnvelopeDb"

definition demo_spend :: "envelope_db \<Rightarrow> ExecutionEnvelopeSpend result \<times> envelope_db" where
  "demo_spend = run_tx (reserveEnvelopeSpendTx 1 7 500 10 ''k'' ''r'' demo_profile 1 1 2)"

definition demo_created :: envelope_db where
  "demo_created = envelope_history [OpCreate demo_deps demo_settlement 7 demo_request 0 1] emptyEnvelopeDb"

lemma demo_db_rows: "length (envelopes demo_db) = 1" "length (spends demo_db) = 1"
  by code_simp+

lemma demo_envelope: "hd (envelopes demo_db) \<in> set (envelopes demo_db)" "hd (spends demo_db) \<in> set (spends demo_db)"
  using demo_db_rows by (auto intro!: hd_in_set)

theorem envelope_never_overcommitted_witness:
  "sint (ee_ReservedNanos (hd (envelopes demo_db))) = 500
   \<and> sint (ee_SpentNanos (hd (envelopes demo_db))) + 500 \<le> sint (ee_CapNanos (hd (envelopes demo_db)))"
proof -
  have r: "sint (ee_ReservedNanos (hd (envelopes demo_db))) = 500" by code_simp
  with envelope_never_overcommitted [OF demo_db_def demo_envelope(1)] show ?thesis by simp
qed

theorem envelope_spend_idempotent_witness:
  "isOK (fst (demo_spend demo_created)) \<and>
   (let d2 = envelope_history [OpContract 9 ''EXECUTING'', OpExpire (\<lambda>_. False) 10 (10 ^ 9)] (snd (demo_spend demo_created))
    in isOK (fst (demo_spend d2)) \<and> snd (demo_spend d2) = d2)"
proof -
  have ok: "isOK (fst (demo_spend demo_created))" by code_simp
  then obtain r where r: "demo_spend demo_created = (Inr r, snd (demo_spend demo_created))"
    by (cases "demo_spend demo_created") (auto simp: isOK_iff)
  have k: "\<not> (10 :: int64) <s 0" by (simp add: sless64)
  let ?d2 = "envelope_history [OpContract 9 ''EXECUTING'', OpExpire (\<lambda>_. False) 10 (10 ^ 9)] (snd (demo_spend demo_created))"
  obtain r' where "demo_spend ?d2 = (Inr r', ?d2)"
    using envelope_spend_idempotent [OF demo_created_def r [unfolded demo_spend_def] refl k]
    unfolding demo_spend_def by blast
  with ok show ?thesis unfolding Let_def by (simp only: fst_conv snd_conv isOK_simps simp_thms)
qed

theorem envelope_raced_spend_fails_witness:
  "run_tx (reserveEnvelopeSpendRaced 1 7 400 10 ''k'' ''r2'' demo_profile 2 2 3) demo_db =
     (Inl errInFailedTransaction, demo_db)"
proof -
  have "es_EnvelopeID (hd (spends demo_db)) = 1" "es_IdempotencyKey (hd (spends demo_db)) = TrimSpace ''k''"
    "claim_cond 1 400 10 7 demo_profile 2 (hd (envelopes demo_db)) = Inr True"
    "isOK (claim_set 400 10 (hd (envelopes demo_db)))" "TrimSpace ''k'' \<noteq> []"
    by code_simp+
  then show ?thesis
    by (auto simp: isOK_iff intro!: envelope_raced_spend_fails [OF demo_db_def demo_envelope(2) _ _ demo_envelope(1)])
qed

theorem envelope_hold_capturable_witness:
  "\<exists>d' e e'. run_tx (captureEnvelopeSpendTx 9 400 5 3) demo_db = (Inr (), d')
    \<and> e \<in> set (envelopes demo_db) \<and> e' \<in> set (envelopes d')
    \<and> sint (ee_SpentNanos e') = sint (ee_SpentNanos e) + 400
    \<and> sint (ee_ReservedNanos e') = sint (ee_ReservedNanos e) - 500"
proof -
  have "es_State (hd (spends demo_db)) = RESERVED" "es_ContractID (hd (spends demo_db)) = Some 9"
    "es_ReservedNanos (hd (spends demo_db)) = 500"
    "list_all (\<lambda>e. sint (ee_Version e) < maxInt64) (envelopes demo_db)"
    by code_simp+
  then show ?thesis
    using envelope_hold_capturable [OF demo_db_def demo_envelope(2), of 9 400 5 3]
    by (auto simp: list_all_iff)
qed
end
