(* ===== verification/Liveness_Index.thy ===== *)
theory Liveness_Index
  imports Go_Prelude
begin

text \<open>
  \<^verbatim>\<open>src/src/control/liveness_index.go\<close>: the in-process presence index, a dense array of
  last-seen epochs with a 64-bucket timing wheel of slot sets, each bucket cut into 16 shards.
  Epochs and slots are \<^verbatim>\<open>uint32\<close>, so all arithmetic on them wraps at \<open>2^32\<close>. A method is one
  atomic step on the index: a shard lock is held around each change of a shard and its
  membership words, and without interference the re-read under the lock returns what the
  first read returned, so the retry loop of \<^verbatim>\<open>moveToBucket\<close> runs once. The \<^verbatim>\<open>nil\<close> receiver is
  left out. The size statistics (\<^verbatim>\<open>HotBytes\<close> and its parts) are not modelled.
\<close>

unbundle bit_operations_syntax

type_synonym uint32 = "32 word"

section \<open>The index\<close>

definition liveDeviceWindowEpochs :: uint32 where "liveDeviceWindowEpochs = 45"
definition liveMemberPosMask :: uint32 where "liveMemberPosMask = 2 ^ 24 - 1"

abbreviation "errInvalidDeviceSlot \<equiv> Sentinel ''errInvalidDeviceSlot''"
abbreviation "errStaleHeartbeatObservation \<equiv> Sentinel ''errStaleHeartbeatObservation''"

record LiveDeviceIndex =
  li_n :: uint32
  li_epochs :: "uint32 list"
  li_member :: "uint32 list"
  li_wheel :: "nat \<Rightarrow> nat \<Rightarrow> uint32 list"
  li_lastTick :: uint32

definition NewLiveDeviceIndex :: "uint32 \<Rightarrow> LiveDeviceIndex" where
  "NewLiveDeviceIndex slots =
     \<lparr>li_n = slots, li_epochs = replicate (unat slots) 0, li_member = replicate (unat slots) 0,
      li_wheel = (\<lambda>_ _. []), li_lastTick = 0\<rparr>"

definition packLiveMember :: "uint32 \<Rightarrow> uint32 \<Rightarrow> uint32" where
  "packLiveMember bucket pos = push_bit 24 (bucket + 1) OR (pos AND (2 ^ 24 - 1))"

definition unpackLiveMember :: "uint32 \<Rightarrow> (uint32 \<times> uint32) option" where
  "unpackLiveMember m = (if m = 0 then None else Some (drop_bit 24 m - 1, m AND (2 ^ 24 - 1)))"

definition set_wheel :: "nat \<Rightarrow> nat \<Rightarrow> uint32 list \<Rightarrow> (nat \<Rightarrow> nat \<Rightarrow> uint32 list) \<Rightarrow> nat \<Rightarrow> nat \<Rightarrow> uint32 list" where
  "set_wheel b s xs w = w(b := (w b)(s := xs))"

definition wheel_shard :: "uint32 \<Rightarrow> nat" where
  "wheel_shard slot = unat (slot AND 15)"

definition IsLive :: "LiveDeviceIndex \<Rightarrow> uint32 \<Rightarrow> uint32 \<Rightarrow> bool" where
  "IsLive idx slot nowEpoch =
     (if li_n idx \<le> slot then False
      else let epoch = li_epochs idx ! unat slot in
        epoch \<le> nowEpoch \<and> nowEpoch - epoch < liveDeviceWindowEpochs)"

text \<open>\<^verbatim>\<open>removeLocked\<close>: the last occupant of the shard takes the freed position.\<close>

definition removeLocked :: "uint32 \<Rightarrow> nat \<Rightarrow> uint32 \<Rightarrow> uint32 \<Rightarrow> LiveDeviceIndex \<Rightarrow> LiveDeviceIndex" where
  "removeLocked b s pos slot idx =
     (let cur = li_wheel idx (unat b) s;
          last = (word_of_int (int (length cur) - 1) :: uint32);
          (cur', member') =
            (if pos < last then
               (let moved = cur ! unat last in
                (cur[unat pos := moved], (li_member idx)[unat moved := packLiveMember b pos]))
             else (cur, li_member idx))
      in idx\<lparr>li_wheel := set_wheel (unat b) s (take (unat last) cur') (li_wheel idx),
             li_member := member'[unat slot := 0]\<rparr>)"

text \<open>Appending a slot to a shard of the target bucket, unless its positions are used up.\<close>

definition appendSlot :: "uint32 \<Rightarrow> uint32 \<Rightarrow> LiveDeviceIndex \<Rightarrow> LiveDeviceIndex" where
  "appendSlot slot newB idx =
     (let s = wheel_shard slot; dst = li_wheel idx (unat newB) s;
          pos = (of_nat (length dst) :: uint32)
      in if liveMemberPosMask < pos then idx
         else idx\<lparr>li_wheel := set_wheel (unat newB) s (dst @ [slot]) (li_wheel idx),
                  li_member := (li_member idx)[unat slot := packLiveMember newB pos]\<rparr>)"

definition moveToBucket :: "uint32 \<Rightarrow> uint32 \<Rightarrow> LiveDeviceIndex \<Rightarrow> LiveDeviceIndex" where
  "moveToBucket slot newB idx =
     (case unpackLiveMember (li_member idx ! unat slot) of
        None \<Rightarrow> appendSlot slot newB idx
      | Some (oldB, oldPos) \<Rightarrow>
          if oldB = newB then idx
          else appendSlot slot newB (removeLocked oldB (wheel_shard slot) oldPos slot idx))"

definition Heartbeat :: "uint32 \<Rightarrow> uint32 \<Rightarrow> uint32 \<Rightarrow> LiveDeviceIndex \<Rightarrow> unit result \<times> LiveDeviceIndex" where
  "Heartbeat slot observed0 nowEpoch idx =
     (if li_n idx \<le> slot then (Inl errInvalidDeviceSlot, idx)
      else let observed = (if nowEpoch < observed0 then nowEpoch else observed0) in
        if liveDeviceWindowEpochs < nowEpoch - observed then (Inl errStaleHeartbeatObservation, idx)
        else (Inr (), moveToBucket slot (observed mod 64)
               (idx\<lparr>li_epochs := (li_epochs idx)[unat slot := observed]\<rparr>)))"

text \<open>
  The compaction loop over one shard: \<^verbatim>\<open>i\<close> is the read position, \<^verbatim>\<open>kept\<close> the prefix written so
  far, which never overtakes the read position.
\<close>

fun expire_loop :: "(uint32 \<Rightarrow> bool) \<Rightarrow> uint32 \<Rightarrow> nat \<Rightarrow> uint32 list \<Rightarrow> uint32 list \<Rightarrow> uint32 list
    \<Rightarrow> uint32 list \<times> uint32 list" where
  "expire_loop live b i [] kept member = (kept, member)"
| "expire_loop live b i (slot # rest) kept member =
     (if live slot
      then expire_loop live b (i + 1) rest (kept @ [slot])
        (if length kept \<noteq> i then member[unat slot := packLiveMember b (of_nat (length kept))] else member)
      else expire_loop live b (i + 1) rest kept (member[unat slot := 0]))"

definition expireShard :: "uint32 \<Rightarrow> uint32 \<Rightarrow> nat \<Rightarrow> LiveDeviceIndex \<Rightarrow> LiveDeviceIndex" where
  "expireShard b nowEpoch s idx =
     (case expire_loop (\<lambda>slot. IsLive idx slot nowEpoch) b 0 (li_wheel idx (unat b) s) [] (li_member idx) of
        (kept, member) \<Rightarrow> idx\<lparr>li_wheel := set_wheel (unat b) s kept (li_wheel idx), li_member := member\<rparr>)"

definition expireBucket :: "uint32 \<Rightarrow> uint32 \<Rightarrow> LiveDeviceIndex \<Rightarrow> LiveDeviceIndex" where
  "expireBucket b nowEpoch idx = fold (expireShard b nowEpoch) [0..<16] idx"

text \<open>
  The loop of \<^verbatim>\<open>Tick\<close>: it counts up with wrap-around and stops at \<^verbatim>\<open>nowEpoch\<close>. It returns the
  epochs it ran its body for, one per iteration, beside the index.
\<close>

definition tick_body :: "uint32 \<Rightarrow> uint32 \<Rightarrow> LiveDeviceIndex \<Rightarrow> LiveDeviceIndex" where
  "tick_body t nowEpoch idx =
     (let idx1 = (if liveDeviceWindowEpochs \<le> t
                  then expireBucket ((t - liveDeviceWindowEpochs) mod 64) nowEpoch idx else idx)
      in expireBucket ((t + 1) mod 64) nowEpoch idx1)"

function tick_loop :: "uint32 \<Rightarrow> uint32 \<Rightarrow> LiveDeviceIndex \<Rightarrow> uint32 list \<times> LiveDeviceIndex" where
  "tick_loop t nowEpoch idx =
     (let idx1 = tick_body t nowEpoch idx in
      if t = nowEpoch then ([t], idx1)
      else case tick_loop (t + 1) nowEpoch idx1 of (ts, idx2) \<Rightarrow> (t # ts, idx2))"
  by pat_completeness auto
termination
proof (relation "measure (\<lambda>(t, now, _). unat (now - t))", goal_cases)
  case (2 t now idx idx1)
  then have "now - t \<noteq> 0" by simp
  then have "unat (now - t - 1) < unat (now - t)" 
    by (metis diff_less unat_gt_0 unat_minus_one zero_less_one)
  then show ?case by (simp add: algebra_simps)
qed simp

definition Tick_swept :: "uint32 \<Rightarrow> LiveDeviceIndex \<Rightarrow> uint32 list \<times> LiveDeviceIndex" where
  "Tick_swept nowEpoch idx =
     (let prev = li_lastTick idx in
      if prev \<noteq> 0 \<and> nowEpoch < prev then ([], idx)
      else let start =
             (if prev \<noteq> 0 \<and> prev < nowEpoch
              then (if 64 < nowEpoch - prev then nowEpoch - 64 + 1 else prev + 1)
              else nowEpoch)
        in case tick_loop start nowEpoch idx of (ts, idx1) \<Rightarrow> (ts, idx1\<lparr>li_lastTick := nowEpoch\<rparr>))"

definition Tick :: "uint32 \<Rightarrow> LiveDeviceIndex \<Rightarrow> LiveDeviceIndex" where
  "Tick nowEpoch idx = snd (Tick_swept nowEpoch idx)"

definition LiveSlots :: "LiveDeviceIndex \<Rightarrow> uint32 \<Rightarrow> uint32 list" where
  "LiveSlots idx nowEpoch =
     (if li_n idx = 0 then []
      else concat (map (\<lambda>age.
             concat (map (\<lambda>s. filter (\<lambda>slot. IsLive idx slot nowEpoch)
               (li_wheel idx (unat ((nowEpoch - of_nat age) mod 64)) s)) [0..<16]))
        (takeWhile (\<lambda>age. of_nat age \<le> nowEpoch) [0..<45])))"

section \<open>Membership words\<close>

lemma and_mask24: "(p :: 32 word) AND (2 ^ 24 - 1) = take_bit 24 p"
  by (simp only: take_bit_eq_mask mask_eq_exp_minus_1)

lemma take24_id: "p < 2 ^ 24 \<Longrightarrow> take_bit 24 (p :: 32 word) = p"
  by (rule word_unat_eq_iff [THEN iffD2]) (simp add: unsigned_take_bit_eq take_bit_nat_eq_self_iff word_less_nat_alt)

lemma drop_push24:
  assumes "unat (x :: 32 word) < 256"
  shows "drop_bit 24 (push_bit 24 x) = x"
proof -
  have "unat (push_bit 24 x) = unat x * 2 ^ 24"
    using assms by (simp add: push_bit_eq_mult unat_word_ariths)
  then have "unat (drop_bit 24 (push_bit 24 x)) = unat x"
    by (simp only: drop_bit_eq_div unat_div) simp
  then show ?thesis by (simp add: word_unat_eq_iff)
qed

lemma unat_Suc_bucket: "b < 64 \<Longrightarrow> unat (b + 1 :: 32 word) = unat b + 1"
  by (simp add: unat_word_ariths word_less_nat_alt)

lemma drop_pack:
  assumes "b < 64"
  shows "drop_bit 24 (packLiveMember b p) = b + 1"
proof -
  have "drop_bit 24 (take_bit 24 p) = 0" by (simp add: drop_bit_take_bit)
  moreover have "drop_bit 24 (push_bit 24 (b + 1)) = b + 1"
    using assms by (intro drop_push24) (simp add: unat_Suc_bucket word_less_nat_alt)
  ultimately show ?thesis by (simp only: packLiveMember_def and_mask24 drop_bit_or) simp
qed

lemma take_pack: "p < 2 ^ 24 \<Longrightarrow> packLiveMember b p AND (2 ^ 24 - 1) = p"
  by (simp only: packLiveMember_def and_mask24 take_bit_or take_bit_push_bit) (simp add: take24_id)

lemma unpack_pack:
  assumes "b < 64" and "p < 2 ^ 24"
  shows "unpackLiveMember (packLiveMember b p) = Some (b, p)"
proof -
  have "b + 1 \<noteq> 0" using unat_Suc_bucket [OF assms(1)] by (metis Suc_eq_plus1 nat.distinct(1) unat_0)
  then have "packLiveMember b p \<noteq> 0" using drop_pack [OF assms(1), of p] by auto
  with drop_pack [OF assms(1), of p] take_pack [OF assms(2), of b] show ?thesis
    by (simp add: unpackLiveMember_def)
qed

lemma pack_nonzero: "b < 64 \<Longrightarrow> p < 2 ^ 24 \<Longrightarrow> packLiveMember b p \<noteq> 0"
  using unpack_pack [of b p] by (auto simp: unpackLiveMember_def)

lemma of_nat_pos: "c < 2 ^ 24 \<Longrightarrow> (of_nat c :: uint32) < 2 ^ 24" "c < 2 ^ 24 \<Longrightarrow> unat (of_nat c :: uint32) = c"
  by (simp_all add: word_less_nat_alt unat_of_nat)

lemma of_nat_bucket: "c < 64 \<Longrightarrow> (of_nat c :: uint32) < 64" "c < 64 \<Longrightarrow> unat (of_nat c :: uint32) = c"
  by (simp_all add: word_less_nat_alt unat_of_nat)

lemma unpack_pack_nat:
  "b < 64 \<Longrightarrow> p < 2 ^ 24 \<Longrightarrow>
     unpackLiveMember (packLiveMember (of_nat b) (of_nat p)) = Some (of_nat b, of_nat p)"
  by (rule unpack_pack [OF of_nat_bucket(1) of_nat_pos(1)])

lemma pack_inj:
  assumes "packLiveMember (of_nat b) (of_nat p) = packLiveMember (of_nat b') (of_nat p')"
    and "b < 64" "b' < 64" "p < 2 ^ 24" "p' < 2 ^ 24"
  shows "b = b' \<and> p = p'"
proof -
  have "Some (of_nat b :: uint32, of_nat p :: uint32) = Some (of_nat b', of_nat p')"
    by (simp only: unpack_pack_nat [OF assms(2,4), symmetric] unpack_pack_nat [OF assms(3,5), symmetric]
        assms(1))
  then have "(of_nat b :: uint32) = of_nat b'" "(of_nat p :: uint32) = of_nat p'" by simp_all
  then show ?thesis using of_nat_bucket(2) of_nat_pos(2) assms(2-5) by metis
qed

section \<open>The wheel invariant\<close>

text \<open>
  Position \<open>p\<close> of shard \<open>s\<close> of bucket \<open>b\<close> holds a slot of that shard whose membership word
  points back to it, and a slot whose membership word is not zero is found on the wheel.
\<close>

definition placed :: "LiveDeviceIndex \<Rightarrow> nat \<Rightarrow> nat \<Rightarrow> nat \<Rightarrow> bool" where
  "placed idx b s p = (let x = li_wheel idx b s ! p in
     b < 64 \<and> p < 2 ^ 24 \<and> x < li_n idx \<and> wheel_shard x = s \<and>
     li_member idx ! unat x = packLiveMember (of_nat b) (of_nat p))"

definition on_wheel :: "LiveDeviceIndex \<Rightarrow> nat \<Rightarrow> uint32 \<Rightarrow> bool" where
  "on_wheel idx b x \<longleftrightarrow> x \<in> set (li_wheel idx b (wheel_shard x))"

definition wheel_ok :: "LiveDeviceIndex \<Rightarrow> bool" where
  "wheel_ok idx \<longleftrightarrow>
     length (li_epochs idx) = unat (li_n idx) \<and> length (li_member idx) = unat (li_n idx) \<and>
     (\<forall>b s p. p < length (li_wheel idx b s) \<longrightarrow> placed idx b s p) \<and>
     (\<forall>x < li_n idx. li_member idx ! unat x \<noteq> 0 \<longrightarrow> (\<exists>b. on_wheel idx b x))"

lemma wheel_placed: "wheel_ok idx \<Longrightarrow> p < length (li_wheel idx b s) \<Longrightarrow> placed idx b s p"
  by (simp add: wheel_ok_def)

lemma wheel_elem:
  assumes "wheel_ok idx" and "x \<in> set (li_wheel idx b s)"
  obtains p where "p < length (li_wheel idx b s)" "li_wheel idx b s ! p = x" "b < 64" "p < 2 ^ 24"
    "x < li_n idx" "wheel_shard x = s" "li_member idx ! unat x = packLiveMember (of_nat b) (of_nat p)"
  using assms wheel_placed [OF assms(1)] by (metis in_set_conv_nth placed_def)

lemma wheel_unique:
  assumes "wheel_ok idx" "p < length (li_wheel idx b s)" "q < length (li_wheel idx c r)"
    and "li_wheel idx b s ! p = li_wheel idx c r ! q"
  shows "b = c \<and> s = r \<and> p = q"
  using wheel_placed [OF assms(1,2)] wheel_placed [OF assms(1,3)] assms(4) pack_inj
  unfolding placed_def Let_def by metis

lemma wheel_distinct: "wheel_ok idx \<Longrightarrow> distinct (li_wheel idx b s)"
  by (metis distinct_conv_nth wheel_unique)

lemma wheel_len: "wheel_ok idx \<Longrightarrow> length (li_wheel idx b s) \<le> 2 ^ 24"
  using wheel_placed [of idx "length (li_wheel idx b s) - 1" b s]
  by (cases "li_wheel idx b s") (auto simp: placed_def Let_def)

text \<open>The bucket a slot is in, read off its membership word.\<close>

definition bucket_of :: "LiveDeviceIndex \<Rightarrow> uint32 \<Rightarrow> nat option" where
  "bucket_of idx x = map_option (\<lambda>(b, p). unat b) (unpackLiveMember (li_member idx ! unat x))"

lemma bucket_of_iff:
  assumes "wheel_ok idx" "x < li_n idx"
  shows "bucket_of idx x = Some b \<longleftrightarrow> on_wheel idx b x"
proof
  assume b: "on_wheel idx b x"
  then obtain p where "b < 64" "p < 2 ^ 24" "li_member idx ! unat x = packLiveMember (of_nat b) (of_nat p)"
    unfolding on_wheel_def using wheel_elem [OF assms(1)] by metis
  then show "bucket_of idx x = Some b"
    using unpack_pack_nat [of b p] of_nat_bucket(2) [of b] by (simp only: bucket_of_def) simp
next
  assume b: "bucket_of idx x = Some b"
  then have "li_member idx ! unat x \<noteq> 0" by (auto simp: bucket_of_def unpackLiveMember_def)
  then obtain c where c: "on_wheel idx c x" using assms by (auto simp: wheel_ok_def)
  then obtain p where "c < 64" "p < 2 ^ 24" "li_member idx ! unat x = packLiveMember (of_nat c) (of_nat p)"
    unfolding on_wheel_def using wheel_elem [OF assms(1)] by metis
  then have "bucket_of idx x = Some c"
    using unpack_pack_nat [of c p] of_nat_bucket(2) [of c] by (simp only: bucket_of_def) simp
  with b c show "on_wheel idx b x" by simp
qed

lemma bucket_of_None: "bucket_of idx x = None \<longleftrightarrow> li_member idx ! unat x = 0"
  by (simp add: bucket_of_def unpackLiveMember_def)


text \<open>
  Every operation rewrites one shard and some membership words. It keeps the invariant when
  the words of the new occupants point at their positions, those of the dropped ones are
  zero, the others are left alone and the newcomers came from nowhere else.
\<close>

definition put_shard :: "nat \<Rightarrow> nat \<Rightarrow> uint32 list \<Rightarrow> uint32 list \<Rightarrow> LiveDeviceIndex \<Rightarrow> LiveDeviceIndex" where
  "put_shard b s xs m idx = idx\<lparr>li_wheel := set_wheel b s xs (li_wheel idx), li_member := m\<rparr>"

lemma put_shard_simps [simp]:
  "li_n (put_shard b s xs m idx) = li_n idx" "li_epochs (put_shard b s xs m idx) = li_epochs idx"
  "li_member (put_shard b s xs m idx) = m" "li_lastTick (put_shard b s xs m idx) = li_lastTick idx"
  "li_wheel (put_shard b s xs m idx) c r = (if c = b \<and> r = s then xs else li_wheel idx c r)"
  by (simp_all add: put_shard_def set_wheel_def)

definition shard_change :: "nat \<Rightarrow> nat \<Rightarrow> uint32 list \<Rightarrow> uint32 list \<Rightarrow> LiveDeviceIndex \<Rightarrow> bool" where
  "shard_change b s xs m idx \<longleftrightarrow> b < 64 \<and> length m = length (li_member idx) \<and>
     (\<forall>p < length xs. p < 2 ^ 24 \<and> xs ! p < li_n idx \<and> wheel_shard (xs ! p) = s \<and>
        m ! unat (xs ! p) = packLiveMember (of_nat b) (of_nat p)) \<and>
     (\<forall>y < li_n idx. y \<notin> set xs \<longrightarrow> m ! unat y =
        (if y \<in> set (li_wheel idx b s) then 0 else li_member idx ! unat y)) \<and>
     (\<forall>y \<in> set xs. y \<in> set (li_wheel idx b s) \<or> li_member idx ! unat y = 0)"

lemma shard_changeD:
  assumes "shard_change b s xs m idx"
  shows "b < 64" "length m = length (li_member idx)"
    "p < length xs \<Longrightarrow> p < 2 ^ 24 \<and> xs ! p < li_n idx \<and> wheel_shard (xs ! p) = s \<and>
        m ! unat (xs ! p) = packLiveMember (of_nat b) (of_nat p)"
    "y < li_n idx \<Longrightarrow> y \<notin> set xs \<Longrightarrow> m ! unat y =
        (if y \<in> set (li_wheel idx b s) then 0 else li_member idx ! unat y)"
    "y \<in> set xs \<Longrightarrow> y \<in> set (li_wheel idx b s) \<or> li_member idx ! unat y = 0"
  using assms unfolding shard_change_def by blast+

lemma pack_nat_nonzero: "b < 64 \<Longrightarrow> p < 2 ^ 24 \<Longrightarrow> packLiveMember (of_nat b) (of_nat p) \<noteq> 0"
  by (rule pack_nonzero [OF of_nat_bucket(1) of_nat_pos(1)])

lemma put_shard_placed:
  assumes "wheel_ok idx" "shard_change b s xs m idx"
    and p: "p < length (li_wheel (put_shard b s xs m idx) c r)"
  shows "placed (put_shard b s xs m idx) c r p"
proof (cases "c = b \<and> r = s")
  case True
  with p shard_changeD(1,3) [OF assms(2)] show ?thesis by (simp add: placed_def Let_def)
next
  case False
  then have at: "p < length (li_wheel idx c r)" using p by (simp split: if_splits)
  let ?x = "li_wheel idx c r ! p"
  have pl: "placed idx c r p" by (rule wheel_placed [OF assms(1) at])
  have old: "?x \<notin> set (li_wheel idx b s)"
    using wheel_unique [OF assms(1) at] False by (metis in_set_conv_nth)
  moreover from pl have "li_member idx ! unat ?x \<noteq> 0"
    using pack_nat_nonzero by (simp only: placed_def Let_def) metis
  ultimately have "?x \<notin> set xs" using shard_changeD(5) [OF assms(2)] by blast
  with old pl have "m ! unat ?x = li_member idx ! unat ?x"
    using shard_changeD(4) [OF assms(2), of ?x] by (simp add: placed_def Let_def)
  with pl False show ?thesis by (simp only: placed_def Let_def put_shard_simps if_False)
qed

lemma put_shard_ok:
  assumes "wheel_ok idx" "shard_change b s xs m idx"
  shows "wheel_ok (put_shard b s xs m idx)"
proof -
  note ch = shard_changeD [OF assms(2)]
  have "\<exists>c. on_wheel (put_shard b s xs m idx) c y" if y: "y < li_n idx" "m ! unat y \<noteq> 0" for y
  proof (cases "y \<in> set xs")
    case True
    then have "wheel_shard y = s" using ch(3) by (metis in_set_conv_nth)
    with True show ?thesis by (auto simp: on_wheel_def)
  next
    case False
    with y ch(4) have out: "y \<notin> set (li_wheel idx b s)" "li_member idx ! unat y \<noteq> 0"
      by (metis, metis)
    then obtain c where "on_wheel idx c y" using assms(1) y by (auto simp: wheel_ok_def)
    with out have "on_wheel (put_shard b s xs m idx) c y" by (auto simp: on_wheel_def)
    then show ?thesis by blast
  qed
  with assms(1) ch(2) put_shard_placed [OF assms] show ?thesis by (simp add: wheel_ok_def)
qed

lemma put_shard_bucket:
  assumes "wheel_ok idx" "shard_change b s xs m idx" "y < li_n idx"
  shows "bucket_of (put_shard b s xs m idx) y =
    (if y \<in> set xs then Some b else if y \<in> set (li_wheel idx b s) then None else bucket_of idx y)"
proof (cases "y \<in> set xs")
  case True
  then have "wheel_shard y = s" using shard_changeD(3) [OF assms(2)] by (metis in_set_conv_nth)
  with True have "on_wheel (put_shard b s xs m idx) b y" by (simp add: on_wheel_def)
  with True show ?thesis using bucket_of_iff [OF put_shard_ok [OF assms(1,2)], of y b] assms(3) by simp
next
  case False
  with shard_changeD(4) [OF assms(2,3)] show ?thesis
    by (simp add: bucket_of_def unpackLiveMember_def)
qed

section \<open>The operations on the wheel\<close>


lemma unat_inj_iff [simp]: "unat (x :: uint32) = unat y \<longleftrightarrow> x = y"
  by (simp only: word_unat_eq_iff)

lemma unat_pred_length:
  "xs \<noteq> [] \<Longrightarrow> length xs \<le> 2 ^ 24 \<Longrightarrow>
     unat (word_of_int (int (length xs) - 1) :: uint32) = length xs - 1"
proof -
  assume a: "xs \<noteq> []" "length xs \<le> 2 ^ 24"
  then have "(word_of_int (int (length xs) - 1) :: uint32) = of_nat (length xs - 1)"
    by (cases xs) simp_all
  moreover have "length xs - 1 < 2 ^ 24" using a by (cases xs) auto
  ultimately show ?thesis using of_nat_pos(2) by metis
qed

lemma wheel_elemD:
  assumes "wheel_ok idx" and "x \<in> set (li_wheel idx b s)"
  shows "b < 64 \<and> x < li_n idx \<and> wheel_shard x = s \<and> li_member idx ! unat x \<noteq> 0"
  using assms by (rule wheel_elem) (metis pack_nat_nonzero)

text \<open>Deletion by moving the last element into the gap.\<close>

definition swap_delete :: "nat \<Rightarrow> 'a list \<Rightarrow> 'a list" where
  "swap_delete q xs = take (length xs - 1) (xs[q := xs ! (length xs - 1)])"

lemma swap_delete_nth:
  "p < length xs - 1 \<Longrightarrow> swap_delete q xs ! p = (if p = q then xs ! (length xs - 1) else xs ! p)"
  by (simp add: swap_delete_def)

lemma length_swap_delete [simp]: "length (swap_delete q xs) = length xs - 1"
  by (simp add: swap_delete_def)

lemma set_swap_delete:
  assumes "distinct xs" "q < length xs"
  shows "set (swap_delete q xs) = set xs - {xs ! q}"
proof
  show "set (swap_delete q xs) \<subseteq> set xs - {xs ! q}"
  proof
    fix y assume "y \<in> set (swap_delete q xs)"
    then obtain p where "p < length xs - 1" "y = (if p = q then xs ! (length xs - 1) else xs ! p)"
      by (metis in_set_conv_nth length_swap_delete swap_delete_nth)
    with assms show "y \<in> set xs - {xs ! q}" by (auto simp: nth_eq_iff_index_eq)
  qed
  show "set xs - {xs ! q} \<subseteq> set (swap_delete q xs)"
  proof
    fix y assume "y \<in> set xs - {xs ! q}"
    then obtain p where p: "p < length xs" "xs ! p = y" "p \<noteq> q" by (auto simp: in_set_conv_nth)
    show "y \<in> set (swap_delete q xs)"
    proof (cases "p = length xs - 1")
      case True
      with p assms(2) have "q < length (swap_delete q xs)" "swap_delete q xs ! q = y"
        by (auto simp: swap_delete_nth)
      then show ?thesis by (metis nth_mem)
    next
      case False
      with p have "p < length (swap_delete q xs)" "swap_delete q xs ! p = y"
        by (auto simp: swap_delete_nth)
      then show ?thesis by (metis nth_mem)
    qed
  qed
qed

lemma removeLocked_put:
  assumes "wheel_ok idx" and "li_wheel idx (unat b) s ! unat pos = slot"
    and "unat pos < length (li_wheel idx (unat b) s)"
  shows "removeLocked b s pos slot idx = put_shard (unat b) s (swap_delete (unat pos) (li_wheel idx (unat b) s))
    (((li_member idx)[unat (last (li_wheel idx (unat b) s)) := packLiveMember b pos])[unat slot := 0]) idx"
proof -
  let ?cur = "li_wheel idx (unat b) s"
  have ne: "?cur \<noteq> []" using assms(3) by auto
  have len: "unat (word_of_int (int (length ?cur) - 1) :: uint32) = length ?cur - 1"
    by (rule unat_pred_length [OF ne wheel_len [OF assms(1)]])
  show ?thesis
  proof (cases "unat pos < length ?cur - 1")
    case True
    with ne len show ?thesis
      by (simp add: removeLocked_def Let_def put_shard_def swap_delete_def word_less_nat_alt last_conv_nth)
  next
    case False
    with assms(3) have eq: "unat pos = length ?cur - 1" by simp
    with assms(2) ne have "last ?cur = slot" by (simp add: last_conv_nth)
    with eq ne len False show ?thesis
      by (simp add: removeLocked_def Let_def put_shard_def swap_delete_def word_less_nat_alt)
  qed
qed

lemma removeLocked_change:
  assumes "wheel_ok idx" and "li_wheel idx (unat b) s ! unat pos = slot"
    and "unat pos < length (li_wheel idx (unat b) s)"
  shows "shard_change (unat b) s (swap_delete (unat pos) (li_wheel idx (unat b) s))
    (((li_member idx)[unat (last (li_wheel idx (unat b) s)) := packLiveMember b pos])[unat slot := 0]) idx"
    (is "shard_change _ _ ?xs ?m _")
proof -
  let ?cur = "li_wheel idx (unat b) s"
  have d: "distinct ?cur" by (rule wheel_distinct [OF assms(1)])
  have ne: "?cur \<noteq> []" using assms(3) by auto
  have set: "set ?xs = set ?cur - {slot}" using set_swap_delete [OF d assms(3)] assms(2) by simp
  have lm: "length (li_member idx) = unat (li_n idx)" using assms(1) by (simp add: wheel_ok_def)
  have pl: "placed idx (unat b) s p" if "p < length ?cur" for p by (rule wheel_placed [OF assms(1) that])
  have at: "?m ! unat (?xs ! p) = packLiveMember (of_nat (unat b)) (of_nat p)"
    if p: "p < length ?xs" for p
  proof (cases "p = unat pos")
    case True
    with p have x: "?xs ! p = last ?cur" "last ?cur \<noteq> slot" using ne d assms(2,3)
      by (auto simp: swap_delete_nth last_conv_nth nth_eq_iff_index_eq)
    moreover have "unat (last ?cur) < length (li_member idx)"
      using pl [of "length ?cur - 1"] ne lm by (simp add: placed_def Let_def last_conv_nth word_less_nat_alt)
    ultimately show ?thesis using True by simp
  next
    case False
    with p have x: "?xs ! p = ?cur ! p" "?cur ! p \<noteq> slot" "?cur ! p \<noteq> last ?cur" using ne d assms(2,3)
      by (auto simp: swap_delete_nth last_conv_nth nth_eq_iff_index_eq)
    then have "?m ! unat (?xs ! p) = li_member idx ! unat (?cur ! p)" by simp
    with pl [of p] p show ?thesis by (simp add: placed_def Let_def)
  qed
  have frame: "?m ! unat y = (if y \<in> set ?cur then 0 else li_member idx ! unat y)"
    if y: "y < li_n idx" "y \<notin> set ?xs" for y
  proof (cases "y = slot")
    case True
    with y lm assms show ?thesis by (auto simp: word_less_nat_alt)
  next
    case False
    with y set have "y \<notin> set ?cur" by simp
    moreover from this ne have "y \<noteq> last ?cur" by auto
    ultimately show ?thesis using False by simp
  qed
  have "?xs ! p < li_n idx \<and> wheel_shard (?xs ! p) = s \<and> p < 2 ^ 24" if "p < length ?xs" for p
  proof -
    from that set have "?xs ! p \<in> set ?cur" by (metis DiffD1 nth_mem)
    then have "?xs ! p < li_n idx \<and> wheel_shard (?xs ! p) = s" using wheel_elemD [OF assms(1)] by blast
    moreover have "p < 2 ^ 24" using pl [of p] that by (simp add: placed_def Let_def)
    ultimately show ?thesis by blast
  qed
  moreover have "unat b < 64" using pl [OF assms(3)] by (simp add: placed_def Let_def)
  ultimately show ?thesis unfolding shard_change_def using at frame set by (simp del: length_swap_delete)
qed

lemma removeLocked_ok:
  assumes "wheel_ok idx" "li_wheel idx (unat b) s ! unat pos = slot" "unat pos < length (li_wheel idx (unat b) s)"
  shows "wheel_ok (removeLocked b s pos slot idx)"
  unfolding removeLocked_put [OF assms] by (rule put_shard_ok [OF assms(1) removeLocked_change [OF assms]])

lemma removeLocked_bucket:
  assumes "wheel_ok idx" "li_wheel idx (unat b) s ! unat pos = slot" "unat pos < length (li_wheel idx (unat b) s)"
    and "y < li_n idx"
  shows "bucket_of (removeLocked b s pos slot idx) y = (if y = slot then None else bucket_of idx y)"
proof -
  have slot: "slot \<in> set (li_wheel idx (unat b) s)" using assms(2,3) by auto
  have "bucket_of idx y = Some (unat b)" if "y \<in> set (li_wheel idx (unat b) s)"
    using bucket_of_iff [OF assms(1,4), of "unat b"] that wheel_elemD [OF assms(1) that] by (simp add: on_wheel_def)
  with slot show ?thesis
    unfolding removeLocked_put [OF assms(1-3)]
      put_shard_bucket [OF assms(1) removeLocked_change [OF assms(1-3)] assms(4)]
      set_swap_delete [OF wheel_distinct [OF assms(1)] assms(3)] assms(2)
    by (simp split: if_splits)
qed

lemma removeLocked_frame [simp]:
  "li_n (removeLocked b s pos slot idx) = li_n idx"
  "li_epochs (removeLocked b s pos slot idx) = li_epochs idx"
  "li_lastTick (removeLocked b s pos slot idx) = li_lastTick idx"
  "c \<noteq> unat b \<Longrightarrow> li_wheel (removeLocked b s pos slot idx) c r = li_wheel idx c r"
  by (simp_all add: removeLocked_def Let_def set_wheel_def split: prod.splits)

lemma appendSlot_frame [simp]:
  "li_n (appendSlot slot b idx) = li_n idx" "li_epochs (appendSlot slot b idx) = li_epochs idx"
  "li_lastTick (appendSlot slot b idx) = li_lastTick idx"
  by (simp_all add: appendSlot_def Let_def)

lemma appendSlot_put:
  assumes "wheel_ok idx"
  shows "appendSlot slot b idx =
    (let dst = li_wheel idx (unat b) (wheel_shard slot) in
     if length dst < 2 ^ 24
     then put_shard (unat b) (wheel_shard slot) (dst @ [slot])
       ((li_member idx)[unat slot := packLiveMember b (of_nat (length dst))]) idx
     else idx)"
proof -
  let ?dst = "li_wheel idx (unat b) (wheel_shard slot)"
  have "length ?dst \<le> 2 ^ 24" by (rule wheel_len [OF assms])
  then have "liveMemberPosMask < of_nat (length ?dst) \<longleftrightarrow> \<not> length ?dst < 2 ^ 24"
    by (simp add: liveMemberPosMask_def word_less_nat_alt unat_of_nat) linarith
  then show ?thesis by (simp add: appendSlot_def Let_def put_shard_def)
qed

lemma appendSlot_change:
  assumes "wheel_ok idx" "slot < li_n idx" "b < 64" "li_member idx ! unat slot = 0"
    and "length (li_wheel idx (unat b) (wheel_shard slot)) < 2 ^ 24"
  shows "shard_change (unat b) (wheel_shard slot) (li_wheel idx (unat b) (wheel_shard slot) @ [slot])
     ((li_member idx)[unat slot := packLiveMember b (of_nat (length (li_wheel idx (unat b) (wheel_shard slot))))]) idx"
    (is "shard_change _ ?s (?dst @ _) ?m _")
proof -
  have lm: "unat slot < length (li_member idx)" using assms(1,2) by (simp add: wheel_ok_def word_less_nat_alt)
  have fresh: "slot \<notin> set ?dst" using wheel_elemD [OF assms(1)] assms(4) by blast
  have "placed idx (unat b) ?s p" if "p < length ?dst" for p by (rule wheel_placed [OF assms(1) that])
  moreover have "slot \<noteq> ?dst ! p" if "p < length ?dst" for p
    using that fresh by (metis nth_mem)
  ultimately have "p < 2 ^ 24 \<and> (?dst @ [slot]) ! p < li_n idx \<and> wheel_shard ((?dst @ [slot]) ! p) = ?s \<and>
      ?m ! unat ((?dst @ [slot]) ! p) = packLiveMember (of_nat (unat b)) (of_nat p)"
    if "p < length (?dst @ [slot])" for p
    using that lm assms(2,5) by (cases "p < length ?dst") (auto simp: placed_def Let_def nth_append less_Suc_eq)
  moreover have "?m ! unat y = (if y \<in> set ?dst then 0 else li_member idx ! unat y)"
    if "y \<notin> set (?dst @ [slot])" for y using that by auto
  moreover have "unat b < 64" using assms(3) by (simp add: word_less_nat_alt)
  ultimately show ?thesis unfolding shard_change_def using assms(4) by simp
qed

lemma appendSlot_ok:
  assumes "wheel_ok idx" "slot < li_n idx" "b < 64" "li_member idx ! unat slot = 0"
  shows "wheel_ok (appendSlot slot b idx)"
  using appendSlot_put [OF assms(1), of slot b] put_shard_ok [OF assms(1) appendSlot_change [OF assms]] assms(1)
  by (simp add: Let_def)

lemma appendSlot_bucket:
  assumes "wheel_ok idx" "slot < li_n idx" "b < 64" "li_member idx ! unat slot = 0" "y < li_n idx"
  shows "bucket_of (appendSlot slot b idx) y =
    (if y = slot \<and> length (li_wheel idx (unat b) (wheel_shard slot)) < 2 ^ 24 then Some (unat b) else bucket_of idx y)"
proof (cases "length (li_wheel idx (unat b) (wheel_shard slot)) < 2 ^ 24")
  case True
  have "bucket_of idx y = Some (unat b)" if "y \<in> set (li_wheel idx (unat b) (wheel_shard slot))"
    using bucket_of_iff [OF assms(1,5), of "unat b"] that wheel_elemD [OF assms(1) that] by (simp add: on_wheel_def)
  with True show ?thesis
    using put_shard_bucket [OF assms(1) appendSlot_change [OF assms(1-4) True] assms(5)]
    by (simp add: appendSlot_put [OF assms(1)] Let_def split: if_splits)
next
  case False
  then show ?thesis by (simp add: appendSlot_put [OF assms(1)] Let_def)
qed

lemma unpack_on_wheel:
  assumes "wheel_ok idx" "slot < li_n idx" "unpackLiveMember (li_member idx ! unat slot) = Some (b, pos)"
  shows "li_wheel idx (unat b) (wheel_shard slot) ! unat pos = slot"
    and "unat pos < length (li_wheel idx (unat b) (wheel_shard slot))" and "bucket_of idx slot = Some (unat b)"
proof -
  show bk: "bucket_of idx slot = Some (unat b)" using assms(3) by (simp add: bucket_of_def)
  then have "slot \<in> set (li_wheel idx (unat b) (wheel_shard slot))"
    using bucket_of_iff [OF assms(1,2)] by (simp add: on_wheel_def)
  then obtain p where p: "p < length (li_wheel idx (unat b) (wheel_shard slot))"
      "li_wheel idx (unat b) (wheel_shard slot) ! p = slot" "unat b < 64" "p < 2 ^ 24"
      "li_member idx ! unat slot = packLiveMember (of_nat (unat b)) (of_nat p)"
    using wheel_elem [OF assms(1)] by metis
  then have "pos = of_nat p" using assms(3) unpack_pack_nat [of "unat b" p] by simp
  then have "unat pos = p" using of_nat_pos(2) [OF p(4)] by simp
  with p show "li_wheel idx (unat b) (wheel_shard slot) ! unat pos = slot"
    "unat pos < length (li_wheel idx (unat b) (wheel_shard slot))" by simp_all
qed

lemma moveToBucket_frame [simp]:
  "li_n (moveToBucket slot b idx) = li_n idx" "li_epochs (moveToBucket slot b idx) = li_epochs idx"
  "li_lastTick (moveToBucket slot b idx) = li_lastTick idx"
  by (simp_all add: moveToBucket_def split: option.splits prod.splits)

lemma moveToBucket_effect:
  assumes "wheel_ok idx" "slot < li_n idx" "b < 64"
  shows "wheel_ok (moveToBucket slot b idx)"
    and "y < li_n idx \<Longrightarrow> y \<noteq> slot \<Longrightarrow> bucket_of (moveToBucket slot b idx) y = bucket_of idx y"
    and "length (li_wheel idx (unat b) (wheel_shard slot)) < 2 ^ 24 \<or> bucket_of idx slot = Some (unat b) \<Longrightarrow>
      bucket_of (moveToBucket slot b idx) slot = Some (unat b)"
proof -
  have "wheel_ok (moveToBucket slot b idx) \<and>
    (\<forall>y < li_n idx. y \<noteq> slot \<longrightarrow> bucket_of (moveToBucket slot b idx) y = bucket_of idx y) \<and>
    (length (li_wheel idx (unat b) (wheel_shard slot)) < 2 ^ 24 \<or> bucket_of idx slot = Some (unat b) \<longrightarrow>
      bucket_of (moveToBucket slot b idx) slot = Some (unat b))"
  proof (cases "unpackLiveMember (li_member idx ! unat slot)")
    case None
    then have "li_member idx ! unat slot = 0" by (simp add: unpackLiveMember_def split: if_splits)
    moreover from None have "bucket_of idx slot = None" by (simp add: bucket_of_def)
    ultimately show ?thesis
      using None assms appendSlot_ok appendSlot_bucket by (simp add: moveToBucket_def)
  next
    case (Some old)
    obtain ob op where old: "old = (ob, op)" by (cases old)
    note at = unpack_on_wheel [OF assms(1,2) Some [unfolded old]]
    show ?thesis
    proof (cases "ob = b")
      case True
      with Some old at(3) assms(1) show ?thesis by (simp add: moveToBucket_def)
    next
      case False
      let ?r = "removeLocked ob (wheel_shard slot) op slot idx"
      have r: "wheel_ok ?r" "\<And>y. y < li_n idx \<Longrightarrow> bucket_of ?r y = (if y = slot then None else bucket_of idx y)"
        using removeLocked_ok removeLocked_bucket assms(1) at by simp_all
      then have m: "li_member ?r ! unat slot = 0"
        using bucket_of_None [of ?r slot] r(2) [OF assms(2)] by simp
      have "moveToBucket slot b idx = appendSlot slot b ?r" using Some old False by (simp add: moveToBucket_def)
      moreover have "unat b \<noteq> unat ob" using False by simp
      ultimately show ?thesis
        using appendSlot_ok [OF r(1) _ assms(3) m] appendSlot_bucket [OF r(1) _ assms(3) m] r(2) assms(2) at(3) False
        by simp
    qed
  qed
  then show "wheel_ok (moveToBucket slot b idx)"
    and "y < li_n idx \<Longrightarrow> y \<noteq> slot \<Longrightarrow> bucket_of (moveToBucket slot b idx) y = bucket_of idx y"
    and "length (li_wheel idx (unat b) (wheel_shard slot)) < 2 ^ 24 \<or> bucket_of idx slot = Some (unat b) \<Longrightarrow>
      bucket_of (moveToBucket slot b idx) slot = Some (unat b)" by blast+
qed

section \<open>Expiry\<close>

lemma expire_loop_kept: "fst (expire_loop live b i rest kept member) = kept @ filter live rest"
  by (induction live b i rest kept member rule: expire_loop.induct) simp_all

lemma expire_loop_length: "length (snd (expire_loop live b i rest kept member)) = length member"
  by (induction live b i rest kept member rule: expire_loop.induct) simp_all

lemma expire_loop_frame:
  "y \<notin> set rest \<Longrightarrow> snd (expire_loop live b i rest kept member) ! unat y = member ! unat y"
  by (induction live b i rest kept member rule: expire_loop.induct) auto

lemma expire_loop_dead:
  "y \<in> set rest \<Longrightarrow> \<not> live y \<Longrightarrow> unat y < length member \<Longrightarrow> distinct rest \<Longrightarrow>
     snd (expire_loop live b i rest kept member) ! unat y = 0"
  by (induction live b i rest kept member rule: expire_loop.induct) (auto simp: expire_loop_frame)

lemma expire_loop_live:
  assumes "distinct (kept @ rest)" "\<forall>y \<in> set rest. unat y < length member"
    and "\<forall>p < length kept. member ! unat (kept ! p) = packLiveMember b (of_nat p)"
    and "\<forall>j < length rest. member ! unat (rest ! j) = packLiveMember b (of_nat (i + j))"
    and "p < length (kept @ filter live rest)"
  shows "snd (expire_loop live b i rest kept member) ! unat ((kept @ filter live rest) ! p) =
    packLiveMember b (of_nat p)"
  using assms
proof (induction live b i rest kept member rule: expire_loop.induct)
  case (1 live b i kept member)
  then show ?case by simp
next
  case (2 live b i slot rest kept member)
  have later: "slot \<noteq> rest ! j" if "j < length rest" for j using 2(3) that by (metis distinct.simps(2) distinct_append nth_mem)
  have early: "slot \<noteq> kept ! j" if "j < length kept" for j using 2(3) that by (auto dest: nth_mem)
  have tail: "member ! unat (rest ! j) = packLiveMember b (of_nat (i + 1 + j))" if "j < length rest" for j
    using 2(6) [rule_format, of "Suc j"] that by simp
  have bound: "unat slot < length member" using 2(4) by simp
  show ?case
  proof (cases "live slot")
    case True
    let ?m = "if length kept \<noteq> i then member[unat slot := packLiveMember b (of_nat (length kept))] else member"
    have here: "?m ! unat slot = packLiveMember b (of_nat (length kept))"
      using bound 2(6) [rule_format, of 0] by auto
    have "\<forall>p < length (kept @ [slot]). ?m ! unat ((kept @ [slot]) ! p) = packLiveMember b (of_nat p)"
      using here early 2(5) by (auto simp: nth_append less_Suc_eq)
    moreover have "\<forall>j < length rest. ?m ! unat (rest ! j) = packLiveMember b (of_nat (i + 1 + j))"
      using tail later by auto
    ultimately show ?thesis using 2(1) [OF True] True 2(3,4,7) by simp
  next
    case False
    let ?m = "member[unat slot := 0]"
    have "\<forall>p < length kept. ?m ! unat (kept ! p) = packLiveMember b (of_nat p)" using early 2(5) by auto
    moreover have "\<forall>j < length rest. ?m ! unat (rest ! j) = packLiveMember b (of_nat (i + 1 + j))"
      using tail later by auto
    ultimately show ?thesis using 2(2) [OF False] False 2(3,4,7) by simp
  qed
qed

lemma expireShard_put:
  "expireShard b now s idx = put_shard (unat b) s (filter (\<lambda>x. IsLive idx x now) (li_wheel idx (unat b) s))
     (snd (expire_loop (\<lambda>x. IsLive idx x now) b 0 (li_wheel idx (unat b) s) [] (li_member idx))) idx"
  using expire_loop_kept [of "\<lambda>x. IsLive idx x now" b 0 "li_wheel idx (unat b) s" "[]" "li_member idx"]
  by (simp add: expireShard_def put_shard_def case_prod_beta)

lemma expireShard_change:
  assumes "wheel_ok idx" "b < 64"
  shows "shard_change (unat b) s (filter (\<lambda>x. IsLive idx x now) (li_wheel idx (unat b) s))
     (snd (expire_loop (\<lambda>x. IsLive idx x now) b 0 (li_wheel idx (unat b) s) [] (li_member idx))) idx"
    (is "shard_change _ _ (filter ?live ?cur) ?m _")
proof -
  have lm: "length (li_member idx) = unat (li_n idx)" using assms(1) by (simp add: wheel_ok_def)
  have el: "y < li_n idx \<and> wheel_shard y = s" if "y \<in> set ?cur" for y using wheel_elemD [OF assms(1) that] by blast
  have d: "distinct ?cur" by (rule wheel_distinct [OF assms(1)])
  have "member ! unat (?cur ! j) = packLiveMember b (of_nat j)" if "j < length ?cur" "member = li_member idx" for j member
    using wheel_placed [OF assms(1) that(1)] that(2) by (simp add: placed_def Let_def)
  then have live: "?m ! unat (filter ?live ?cur ! p) = packLiveMember b (of_nat p)"
    if "p < length (filter ?live ?cur)" for p
    using expire_loop_live [of "[]" ?cur "li_member idx" b 0 p ?live] that d el lm
    by (simp add: word_less_nat_alt)
  have "filter ?live ?cur ! p \<in> set ?cur" if "p < length (filter ?live ?cur)" for p
    using nth_mem [OF that] by simp
  moreover have "p < 2 ^ 24" if "p < length (filter ?live ?cur)" for p
    using that length_filter_le [of ?live ?cur] wheel_len [OF assms(1), of "unat b" s] by linarith
  moreover have "?m ! unat y = (if y \<in> set ?cur then 0 else li_member idx ! unat y)"
    if "y < li_n idx" "y \<notin> set (filter ?live ?cur)" for y
    using that expire_loop_frame expire_loop_dead d lm by (simp add: word_less_nat_alt)
  ultimately show ?thesis
    unfolding shard_change_def using live el expire_loop_length assms(2) by (simp add: word_less_nat_alt)
qed

lemma expireShard_frame [simp]:
  "li_n (expireShard b now s idx) = li_n idx" "li_epochs (expireShard b now s idx) = li_epochs idx"
  "li_lastTick (expireShard b now s idx) = li_lastTick idx"
  by (simp_all add: expireShard_put)

lemma IsLive_cong: "li_n i = li_n j \<Longrightarrow> li_epochs i = li_epochs j \<Longrightarrow> IsLive i x now = IsLive j x now"
  by (simp add: IsLive_def)

text \<open>What expiry may do to the bucket of a slot: keep it, or clear it when the slot is dead.\<close>

definition drops_only_dead :: "uint32 \<Rightarrow> LiveDeviceIndex \<Rightarrow> LiveDeviceIndex \<Rightarrow> bool" where
  "drops_only_dead now i j \<longleftrightarrow> wheel_ok j \<and> li_n j = li_n i \<and> li_epochs j = li_epochs i \<and>
     li_lastTick j = li_lastTick i \<and>
     (\<forall>y < li_n i. bucket_of j y = bucket_of i y \<or> bucket_of j y = None \<and> \<not> IsLive i y now)"

lemma drops_only_dead_refl: "wheel_ok i \<Longrightarrow> drops_only_dead now i i"
  by (simp add: drops_only_dead_def)

lemma drops_only_dead_trans: "drops_only_dead now i j \<Longrightarrow> drops_only_dead now j k \<Longrightarrow> drops_only_dead now i k"
  unfolding drops_only_dead_def using IsLive_cong [of j i] by metis

lemma drops_only_dead_fold:
  assumes "wheel_ok i" "\<And>x j. x \<in> set xs \<Longrightarrow> wheel_ok j \<Longrightarrow> drops_only_dead now j (f x j)"
  shows "drops_only_dead now i (fold f xs i)"
  using assms
proof (induction xs arbitrary: i)
  case Nil
  then show ?case by (simp add: drops_only_dead_refl)
next
  case (Cons x xs)
  have "drops_only_dead now i (f x i)" using Cons.prems by simp
  moreover from this have "drops_only_dead now (f x i) (fold f xs (f x i))"
    using Cons by (simp add: drops_only_dead_def)
  ultimately show ?case using drops_only_dead_trans by simp
qed

lemma expireShard_drops:
  assumes "wheel_ok idx" "b < 64"
  shows "drops_only_dead now idx (expireShard b now s idx)"
proof -
  note ch = expireShard_change [OF assms, of s now]
  have "bucket_of idx y = Some (unat b)" if "y < li_n idx" "y \<in> set (li_wheel idx (unat b) s)" for y
    using bucket_of_iff [OF assms(1) that(1), of "unat b"] that(2) wheel_elemD [OF assms(1) that(2)]
    by (simp add: on_wheel_def)
  then show ?thesis
    unfolding drops_only_dead_def expireShard_put using put_shard_ok [OF assms(1) ch] put_shard_bucket [OF assms(1) ch]
    by simp
qed

lemma expireBucket_drops: "wheel_ok idx \<Longrightarrow> b < 64 \<Longrightarrow> drops_only_dead now idx (expireBucket b now idx)"
  unfolding expireBucket_def by (rule drops_only_dead_fold) (simp_all add: expireShard_drops)

lemma mod64_less: "(x :: uint32) mod 64 < 64"
  by (simp add: word_mod_less_divisor)

lemma tick_body_drops:
  assumes "wheel_ok idx"
  shows "drops_only_dead now idx (tick_body t now idx)"
proof -
  have "drops_only_dead now idx (if liveDeviceWindowEpochs \<le> t
      then expireBucket ((t - liveDeviceWindowEpochs) mod 64) now idx else idx)" (is "drops_only_dead _ _ ?i")
    using assms by (simp add: expireBucket_drops drops_only_dead_refl mod64_less)
  moreover from this have "wheel_ok ?i" by (simp only: drops_only_dead_def)
  then have "drops_only_dead now ?i (expireBucket ((t + 1) mod 64) now ?i)"
    by (rule expireBucket_drops [OF _ mod64_less])
  ultimately show ?thesis unfolding tick_body_def Let_def by (rule drops_only_dead_trans)
qed

lemma unat_dist_Suc:
  assumes "t \<noteq> (now :: uint32)"
  shows "unat (now - t) = Suc (unat (now - (t + 1)))"
proof -
  have nz: "now - t \<noteq> 0" using assms by simp
  have "unat (now - (t + 1)) = unat (now - t) - 1" using unat_minus_one [OF nz] by (simp add: diff_diff_eq)
  then show ?thesis using nz by (metis Suc_pred' unat_gt_0)
qed

lemma tick_loop_fold:
  "tick_loop t now idx =
     (map (\<lambda>j. t + of_nat j) [0..<Suc (unat (now - t))],
      fold (\<lambda>k. tick_body k now) (map (\<lambda>j. t + of_nat j) [0..<Suc (unat (now - t))]) idx)"
proof (induction t now idx rule: tick_loop.induct)
  case (1 t now idx)
  show ?case
  proof (cases "t = now")
    case True
    then show ?thesis by (subst tick_loop.simps) simp
  next
    case False
    have "[0..<Suc (Suc n)] = 0 # map Suc [0..<Suc n]" for n
      by (subst upt_conv_Cons) (simp_all only: map_Suc_upt zero_less_Suc)
    then have "map (\<lambda>j. t + of_nat j) [0..<Suc (unat (now - t))] =
        t # map (\<lambda>j. t + 1 + of_nat j) [0..<Suc (unat (now - (t + 1)))]"
      unfolding unat_dist_Suc [OF False]
      by (simp only: list.map map_map) (simp add: add.assoc comp_def)
    then show ?thesis using 1 [OF refl False] False
      by (subst tick_loop.simps) (simp only: Let_def if_False fold_simps prod.case)
  qed
qed

lemma tick_fold_drops:
  "wheel_ok idx \<Longrightarrow> drops_only_dead now idx (fold (\<lambda>k. tick_body k now) ts idx)"
  by (rule drops_only_dead_fold) (simp_all add: tick_body_drops)

lemma drops_ok: "drops_only_dead now i j \<Longrightarrow> wheel_ok j"
  by (simp add: drops_only_dead_def)

text \<open>A bucket is clean when all its slots are live; a sweep of the bucket makes it so.\<close>

definition clean :: "uint32 \<Rightarrow> nat \<Rightarrow> nat set \<Rightarrow> LiveDeviceIndex \<Rightarrow> bool" where
  "clean now b ss i \<longleftrightarrow>
     (\<forall>y < li_n i. wheel_shard y \<in> ss \<longrightarrow> bucket_of i y = Some b \<longrightarrow> IsLive i y now)"

lemma drops_clean: "drops_only_dead now i j \<Longrightarrow> clean now b ss i \<Longrightarrow> clean now b ss j"
  unfolding drops_only_dead_def clean_def using IsLive_cong [of j i] by (metis option.distinct(1))

lemma expireShard_clean:
  assumes "wheel_ok idx" "b < 64"
  shows "clean now (unat b) {s} (expireShard b now s idx)"
proof -
  have "bucket_of idx y \<noteq> Some (unat b)" if "y < li_n idx" "y \<notin> set (li_wheel idx (unat b) (wheel_shard y))" for y
    using that bucket_of_iff [OF assms(1) that(1)] by (simp add: on_wheel_def)
  moreover have "IsLive (expireShard b now s idx) y now = IsLive idx y now" for y by (rule IsLive_cong) simp_all
  ultimately show ?thesis
    unfolding clean_def using put_shard_bucket [OF assms(1) expireShard_change [OF assms, of s now]]
    by (auto simp: expireShard_put [symmetric] split: if_splits)
qed

lemma expireShards_clean:
  assumes "wheel_ok idx" "b < 64"
  shows "clean now (unat b) (set ss) (fold (expireShard b now) ss idx)"
  using assms(1)
proof (induction ss arbitrary: idx)
  case Nil
  then show ?case by (simp add: clean_def)
next
  case (Cons s ss)
  let ?i = "expireShard b now s idx"
  have ok: "wheel_ok ?i" using expireShard_drops [OF Cons.prems assms(2)] by (simp add: drops_only_dead_def)
  have "drops_only_dead now ?i (fold (expireShard b now) ss ?i)"
    by (rule drops_only_dead_fold [OF ok]) (simp add: expireShard_drops assms(2))
  then have "clean now (unat b) {s} (fold (expireShard b now) ss ?i)"
    using expireShard_clean [OF Cons.prems assms(2)] drops_clean by blast
  then show ?case using Cons.IH [OF ok] by (auto simp: clean_def)
qed

lemma wheel_shard_mod: "wheel_shard x = unat x mod 16"
proof -
  have "x AND 15 = x mod 16"
    using take_bit_eq_mask [of 4 x] by (simp add: mask_eq_exp_minus_1 take_bit_eq_mod)
  then show ?thesis by (simp add: wheel_shard_def unat_mod)
qed

lemma wheel_shard_less: "wheel_shard x < 16"
  by (simp add: wheel_shard_mod)

lemma expireBucket_clean: "wheel_ok idx \<Longrightarrow> b < 64 \<Longrightarrow> clean now (unat b) UNIV (expireBucket b now idx)"
  using expireShards_clean [of idx b now "[0..<16]"] wheel_shard_less by (simp add: expireBucket_def clean_def)

lemma tick_body_clean:
  assumes "wheel_ok idx"
  shows "clean now (unat ((t + 1) mod 64)) UNIV (tick_body t now idx)"
    and "45 \<le> t \<Longrightarrow> clean now (unat ((t - 45) mod 64)) UNIV (tick_body t now idx)"
proof -
  let ?i = "if liveDeviceWindowEpochs \<le> t then expireBucket ((t - liveDeviceWindowEpochs) mod 64) now idx else idx"
  have ok: "wheel_ok ?i" using assms drops_ok [OF expireBucket_drops [OF assms mod64_less]] by simp
  show "clean now (unat ((t + 1) mod 64)) UNIV (tick_body t now idx)"
    unfolding tick_body_def Let_def by (rule expireBucket_clean [OF ok mod64_less])
  assume "45 \<le> t"
  then have "?i = expireBucket ((t - 45) mod 64) now idx" by (simp add: liveDeviceWindowEpochs_def)
  then have "clean now (unat ((t - 45) mod 64)) UNIV ?i"
    by (simp only: expireBucket_clean [OF assms mod64_less])
  then show "clean now (unat ((t - 45) mod 64)) UNIV (tick_body t now idx)"
    unfolding tick_body_def Let_def by (rule drops_clean [OF expireBucket_drops [OF ok mod64_less]])
qed

lemma tick_fold_clean:
  assumes "wheel_ok idx" "t \<in> set ts"
  shows "clean now (unat ((t + 1) mod 64)) UNIV (fold (\<lambda>k. tick_body k now) ts idx)"
    and "45 \<le> t \<Longrightarrow> clean now (unat ((t - 45) mod 64)) UNIV (fold (\<lambda>k. tick_body k now) ts idx)"
proof -
  obtain as bs where ts: "ts = as @ t # bs" using assms(2) by (meson split_list)
  let ?i = "fold (\<lambda>k. tick_body k now) as idx"
  have ok: "wheel_ok ?i" by (rule drops_ok [OF tick_fold_drops [OF assms(1)]])
  have later: "drops_only_dead now (tick_body t now ?i) (fold (\<lambda>k. tick_body k now) bs (tick_body t now ?i))"
    by (rule tick_fold_drops [OF drops_ok [OF tick_body_drops [OF ok]]])
  have fold: "fold (\<lambda>k. tick_body k now) ts idx = fold (\<lambda>k. tick_body k now) bs (tick_body t now ?i)"
    by (simp add: ts)
  show "clean now (unat ((t + 1) mod 64)) UNIV (fold (\<lambda>k. tick_body k now) ts idx)"
    unfolding fold by (rule drops_clean [OF later tick_body_clean(1) [OF ok]])
  assume "45 \<le> t"
  then show "clean now (unat ((t - 45) mod 64)) UNIV (fold (\<lambda>k. tick_body k now) ts idx)"
    unfolding fold by (rule drops_clean [OF later tick_body_clean(2) [OF ok]])
qed

section \<open>Reading the live slots\<close>

lemma takeWhile_le_upt: "takeWhile (\<lambda>a. a \<le> m) [0..<n] = [0..<min n (Suc m)]"
  by (induction n) (auto simp: takeWhile_tail min_def not_le less_Suc_eq_le le_Suc_eq)

lemma of_nat_le_age: "a < 45 \<Longrightarrow> of_nat a \<le> (now :: uint32) \<longleftrightarrow> a \<le> unat now"
  by (simp add: word_le_nat_alt unat_of_nat)

definition ages :: "uint32 \<Rightarrow> nat list" where "ages now = [0..<min 45 (Suc (unat now))]"

lemma takeWhile_ages: "takeWhile (\<lambda>age. of_nat age \<le> (now :: uint32)) [0..<45] = ages now"
proof -
  have "takeWhile (\<lambda>age. of_nat age \<le> now) [0..<45] = takeWhile (\<lambda>a. a \<le> unat now) [0..<45]"
    by (rule takeWhile_cong) (simp_all only: set_upt of_nat_le_age atLeastLessThan_iff)
  then show ?thesis by (simp only: takeWhile_le_upt ages_def)
qed

definition age_bucket :: "uint32 \<Rightarrow> nat \<Rightarrow> nat" where
  "age_bucket now a = unat ((now - of_nat a) mod 64)"

lemma age_bucket_nat:
  assumes "a \<in> set (ages now)"
  shows "age_bucket now a = (unat now - a) mod 64"
proof -
  have a: "a < 45" "a \<le> unat now" using assms by (auto simp: ages_def)
  then have "unat (now - of_nat a) = unat now - a"
    using of_nat_le_age [OF a(1), of now] by (simp add: unat_sub unat_of_nat)
  then show ?thesis by (simp add: age_bucket_def unat_mod)
qed

lemma age_bucket_inj:
  assumes "a \<in> set (ages now)" "c \<in> set (ages now)" "age_bucket now a = age_bucket now c"
  shows "a = c"
proof -
  have less: False if ac: "a < c" "a \<in> set (ages now)" "c \<in> set (ages now)" "age_bucket now a = age_bucket now c" for a c
  proof -
    have "(unat now - a) mod 64 = (unat now - c) mod 64" using ac by (simp add: age_bucket_nat)
    then have "64 dvd (unat now - a) - (unat now - c)" using ac(1) by (intro mod_eq_dvd_iff_nat [THEN iffD1]) auto
    moreover have "(unat now - a) - (unat now - c) = c - a" using ac by (auto simp: ages_def)
    ultimately have "64 \<le> c - a" using ac(1) by (auto dest: dvd_imp_le)
    then show False using ac by (auto simp: ages_def)
  qed
  then show ?thesis using assms by (metis linorder_neqE_nat)
qed

lemma LiveSlots_alt:
  "LiveSlots idx now =
     (if li_n idx = 0 then []
      else concat (map (\<lambda>a. concat (map (\<lambda>s. filter (\<lambda>x. IsLive idx x now) (li_wheel idx (age_bucket now a) s)) [0..<16]))
        (ages now)))"
  unfolding LiveSlots_def takeWhile_ages age_bucket_def ..

lemma LiveSlots_iff:
  assumes "wheel_ok idx"
  shows "x \<in> set (LiveSlots idx now) \<longleftrightarrow>
    IsLive idx x now \<and> (\<exists>a \<in> set (ages now). bucket_of idx x = Some (age_bucket now a))"
proof -
  have "x \<in> set (li_wheel idx b s) \<longleftrightarrow> s = wheel_shard x \<and> bucket_of idx x = Some b"
    if "IsLive idx x now" for b s
  proof -
    have "x < li_n idx" using that by (simp add: IsLive_def split: if_splits)
    then have "bucket_of idx x = Some b \<longleftrightarrow> x \<in> set (li_wheel idx b (wheel_shard x))"
      using bucket_of_iff [OF assms] by (simp add: on_wheel_def)
    then show ?thesis using wheel_elemD [OF assms] by blast
  qed
  moreover have "li_n idx \<noteq> 0" if "IsLive idx x now" using that by (auto simp: IsLive_def)
  ultimately show ?thesis using wheel_shard_less [of x] by (auto simp: LiveSlots_alt simp del: upt_rec_numeral)
qed

lemma distinct_concat_map:
  assumes "distinct xs" "\<And>x. x \<in> set xs \<Longrightarrow> distinct (f x)"
    and "\<And>x y z. x \<in> set xs \<Longrightarrow> y \<in> set xs \<Longrightarrow> z \<in> set (f x) \<Longrightarrow> z \<in> set (f y) \<Longrightarrow> x = y"
  shows "distinct (concat (map f xs))"
  using assms
proof (induction xs)
  case (Cons x xs)
  have "set (f x) \<inter> set (concat (map f xs)) = {}" using Cons.prems(1,3) by fastforce
  moreover have "distinct (concat (map f xs))" using Cons by (metis distinct.simps(2) list.set_intros(2))
  ultimately show ?case using Cons.prems(2) by simp
qed simp

lemma LiveSlots_distinct:
  assumes "wheel_ok idx"
  shows "distinct (LiveSlots idx now)"
proof -
  have shard: "distinct (concat (map (\<lambda>s. filter (\<lambda>x. IsLive idx x now) (li_wheel idx b s)) ss))"
    if "distinct ss" for b ss
    using that by (rule distinct_concat_map) (auto simp: wheel_distinct [OF assms] dest: wheel_elemD [OF assms])
  have "b = c" if "z \<in> set (li_wheel idx b s)" "z \<in> set (li_wheel idx c r)" for z b c s r
    using that wheel_unique [OF assms] by (metis in_set_conv_nth)
  then have same: "a = c" if "a \<in> set (ages now)" "c \<in> set (ages now)"
      "z \<in> set (li_wheel idx (age_bucket now a) s)" "z \<in> set (li_wheel idx (age_bucket now c) r)" for z a c s r
    using that age_bucket_inj by blast
  have "distinct (concat (map (\<lambda>a. concat (map (\<lambda>s. filter (\<lambda>x. IsLive idx x now)
      (li_wheel idx (age_bucket now a) s)) ss)) (ages now)))" if "distinct ss" for ss
    by (rule distinct_concat_map) (auto simp: ages_def [symmetric] shard [OF that] intro: same, simp add: ages_def)
  from this [OF distinct_upt] show ?thesis unfolding LiveSlots_alt by (simp del: upt_rec_numeral)
qed


section \<open>Histories\<close>

datatype live_op = OpHeartbeat uint32 uint32 uint32 | OpTick uint32

fun live_step :: "live_op \<Rightarrow> LiveDeviceIndex \<Rightarrow> LiveDeviceIndex" where
  "live_step (OpHeartbeat slot observed now) idx = snd (Heartbeat slot observed now idx)"
| "live_step (OpTick now) idx = Tick now idx"

fun live_clock :: "live_op \<Rightarrow> uint32" where
  "live_clock (OpHeartbeat slot observed now) = now"
| "live_clock (OpTick now) = now"

text \<open>What a history says a slot was last seen at: the clamped observation it last accepted.\<close>

fun seen_step :: "uint32 \<Rightarrow> live_op \<Rightarrow> uint32 \<Rightarrow> uint32" where
  "seen_step x (OpHeartbeat slot observed now) e =
     (if slot = x \<and> now - min observed now \<le> 45 then min observed now else e)"
| "seen_step x (OpTick now) e = e"

abbreviation last_seen :: "uint32 \<Rightarrow> live_op list \<Rightarrow> uint32" where
  "last_seen x ops \<equiv> fold (seen_step x) ops 0"

lemma epochs_update_ok:
  "wheel_ok idx \<Longrightarrow> wheel_ok (idx\<lparr>li_epochs := (li_epochs idx)[i := e]\<rparr>)"
  by (simp add: wheel_ok_def placed_def on_wheel_def)

lemma bucket_of_epochs [simp]: "bucket_of (idx\<lparr>li_epochs := es\<rparr>) = bucket_of idx"
  by (rule ext) (simp add: bucket_of_def)

lemma Heartbeat_cases:
  obtains (rejected) "snd (Heartbeat slot observed now idx) = idx"
      "li_n idx \<le> slot \<or> \<not> now - min observed now \<le> 45"
  | (accepted) "slot < li_n idx" "now - min observed now \<le> 45"
      "snd (Heartbeat slot observed now idx) = moveToBucket slot (min observed now mod 64)
         (idx\<lparr>li_epochs := (li_epochs idx)[unat slot := min observed now]\<rparr>)"
proof -
  have "(if now < observed then now else observed) = min observed now" by (auto simp: min_def)
  then show ?thesis using that
    by (cases "li_n idx \<le> slot"; cases "now - min observed now \<le> 45")
      (simp_all add: Heartbeat_def liveDeviceWindowEpochs_def Let_def not_le not_less)
qed

lemma Heartbeat_ok: "wheel_ok idx \<Longrightarrow> wheel_ok (snd (Heartbeat slot observed now idx))"
  by (rule Heartbeat_cases [of slot observed now idx])
    (simp_all add: moveToBucket_effect(1) epochs_update_ok mod64_less)

lemma Tick_cases:
  obtains (ignored) "Tick now idx = idx" "li_lastTick idx \<noteq> 0" "now < li_lastTick idx"
  | (swept) ts where "Tick now idx = (fold (\<lambda>t. tick_body t now) ts idx)\<lparr>li_lastTick := now\<rparr>"
      "\<not> (li_lastTick idx \<noteq> 0 \<and> now < li_lastTick idx)"
proof (cases "li_lastTick idx \<noteq> 0 \<and> now < li_lastTick idx")
  case True
  then show ?thesis using ignored by (simp add: Tick_def Tick_swept_def)
next
  case False
  then show ?thesis using swept unfolding Tick_def Tick_swept_def Let_def tick_loop_fold by (simp only: if_False prod.case snd_conv) blast
qed

lemma lastTick_ok [simp]: "wheel_ok (idx\<lparr>li_lastTick := t\<rparr>) = wheel_ok idx"
  by (simp add: wheel_ok_def placed_def on_wheel_def)

lemma lastTick_bucket [simp]: "bucket_of (idx\<lparr>li_lastTick := t\<rparr>) = bucket_of idx"
  by (rule ext) (simp add: bucket_of_def)

lemma lastTick_live [simp]: "IsLive (idx\<lparr>li_lastTick := t\<rparr>) = IsLive idx"
  by (intro ext) (simp add: IsLive_def)

lemma Tick_ok: "wheel_ok idx \<Longrightarrow> wheel_ok (Tick now idx)"
  by (rule Tick_cases [of now idx]) (simp_all add: drops_ok [OF tick_fold_drops])

lemma New_ok: "wheel_ok (NewLiveDeviceIndex n)"
  by (simp add: wheel_ok_def NewLiveDeviceIndex_def word_less_nat_alt)

interpretation live: safe_system "\<lambda>idx. \<exists>n. idx = NewLiveDeviceIndex n"
  "\<lambda>idx idx'. \<exists>e. idx' = live_step e idx" wheel_ok
proof
  fix s assume "\<exists>n. s = NewLiveDeviceIndex n" then show "wheel_ok s" using New_ok by blast
next
  fix s t assume "wheel_ok s" "\<exists>e. t = live_step e s"
  then show "wheel_ok t" using Heartbeat_ok Tick_ok by (metis live_step.elims)
qed


lemma live_step_seen:
  assumes "wheel_ok idx"
  shows "li_n (live_step e idx) = li_n idx \<and>
    (\<forall>x < li_n idx. li_epochs (live_step e idx) ! unat x = seen_step x e (li_epochs idx ! unat x))"
proof (cases e)
  case (OpHeartbeat slot observed now)
  have len: "length (li_epochs idx) = unat (li_n idx)" using assms by (simp add: wheel_ok_def)
  from OpHeartbeat len show ?thesis
    by (cases rule: Heartbeat_cases [of slot observed now idx]) (auto simp: nth_list_update word_less_nat_alt word_le_nat_alt)
next
  case (OpTick now)
  with tick_fold_drops [OF assms, of now] show ?thesis
    by (cases rule: Tick_cases [of now idx]) (simp_all add: drops_only_dead_def)
qed

lemma live_step_ok: "wheel_ok idx \<Longrightarrow> wheel_ok (live_step e idx)"
  using live.step_inv by blast

lemma history_seen:
  "wheel_ok idx \<Longrightarrow> wheel_ok (fold live_step ops idx) \<and> li_n (fold live_step ops idx) = li_n idx \<and>
     (\<forall>x < li_n idx. li_epochs (fold live_step ops idx) ! unat x = fold (seen_step x) ops (li_epochs idx ! unat x))"
proof (induction ops arbitrary: idx)
  case (Cons e ops)
  then show ?case using live_step_seen [OF Cons.prems, of e] live_step_ok by simp
qed simp

lemma IsLive_history:
  "IsLive (fold live_step ops (NewLiveDeviceIndex n)) x now \<longleftrightarrow>
     x < n \<and> unat (last_seen x ops) \<le> unat now \<and> unat now < unat (last_seen x ops) + 45"
proof -
  have "wheel_ok (NewLiveDeviceIndex n)" "li_n (NewLiveDeviceIndex n) = n" by (simp_all add: New_ok) (simp add: NewLiveDeviceIndex_def)
  moreover have "li_epochs (NewLiveDeviceIndex n) ! unat x = 0" if "x < n"
    using that by (simp add: NewLiveDeviceIndex_def word_less_nat_alt)
  moreover have "e \<le> now \<and> now - e < 45 \<longleftrightarrow> unat e \<le> unat now \<and> unat now < unat e + 45" for e :: uint32
    by (auto simp: word_le_nat_alt word_less_nat_alt unat_sub)
  ultimately show ?thesis using history_seen [of "NewLiveDeviceIndex n" ops]
    by (auto simp: IsLive_def liveDeviceWindowEpochs_def Let_def)
qed

text \<open>
  A slot is in place at \<open>now\<close>: on the wheel in the bucket of its epoch, or dead from \<open>now\<close> on,
  or never seen.
\<close>

definition in_place :: "uint32 \<Rightarrow> LiveDeviceIndex \<Rightarrow> bool" where
  "in_place now idx \<longleftrightarrow> (\<forall>x < li_n idx. let e = li_epochs idx ! unat x in
     e \<le> now \<and> (bucket_of idx x = Some (unat (e mod 64)) \<or> 45 \<le> now - e \<or> e = 0))"

lemma in_placeI:
  assumes "\<And>x. x < li_n idx \<Longrightarrow> li_epochs idx ! unat x \<le> now"
    and "\<And>x. x < li_n idx \<Longrightarrow> bucket_of idx x = Some (unat (li_epochs idx ! unat x mod 64)) \<or>
      45 \<le> now - li_epochs idx ! unat x \<or> li_epochs idx ! unat x = 0"
  shows "in_place now idx"
  using assms by (simp add: in_place_def Let_def)

lemma in_placeD:
  assumes "in_place now idx" "x < li_n idx"
  shows "li_epochs idx ! unat x \<le> now"
    and "bucket_of idx x = Some (unat (li_epochs idx ! unat x mod 64)) \<or>
      45 \<le> now - li_epochs idx ! unat x \<or> li_epochs idx ! unat x = 0"
  using assms by (simp_all add: in_place_def Let_def)

lemma IsLive_iff:
  "x < li_n idx \<Longrightarrow> IsLive idx x now \<longleftrightarrow>
     li_epochs idx ! unat x \<le> now \<and> now - li_epochs idx ! unat x < 45"
  unfolding IsLive_def liveDeviceWindowEpochs_def Let_def by (auto dest: leD)

lemma in_place_later: "in_place t idx \<Longrightarrow> t \<le> now \<Longrightarrow> in_place now idx"
proof -
  assume "in_place t idx" "t \<le> now"
  moreover have "45 \<le> now - e" if "45 \<le> t - e" "e \<le> t" "t \<le> now" for e :: uint32
    using that by (auto simp: word_le_nat_alt unat_sub)
  ultimately show ?thesis unfolding in_place_def Let_def by (meson order_trans)
qed

lemma shard_room:
  assumes "wheel_ok idx" "li_n idx \<le> 2 ^ 28" "slot < li_n idx" "bucket_of idx slot \<noteq> Some b"
  shows "length (li_wheel idx b (wheel_shard slot)) < 2 ^ 24"
proof -
  let ?cur = "li_wheel idx b (wheel_shard slot)"
  have out: "slot \<notin> set ?cur" using bucket_of_iff [OF assms(1,3), of b] assms(4) by (simp add: on_wheel_def)
  let ?S = "{x. x < li_n idx \<and> wheel_shard x = wheel_shard slot}"
  have "unat (li_n idx) \<le> 2 ^ 28" using assms(2) by (simp add: word_le_nat_alt)
  then have "(\<lambda>x. unat x div 16) ` ?S \<subseteq> {..< 2 ^ 24}" by (auto simp: word_less_nat_alt)
  moreover have inj: "inj_on (\<lambda>x. unat x div 16) ?S"
    by (rule inj_onI) (metis (mono_tags) div_mult_mod_eq mem_Collect_eq unat_inj_iff wheel_shard_mod)
  ultimately have "card ?S \<le> card {..< 2 ^ 24 :: nat}" by (intro card_inj_on_le) simp_all
  then have "card ?S \<le> 2 ^ 24" by (simp only: card_lessThan)
  moreover have "set ?cur \<subseteq> ?S" using wheel_elemD [OF assms(1)] by auto
  then have "set ?cur \<subset> ?S" using out assms(3) by auto
  then have "card (set ?cur) < card ?S" by (rule psubset_card_mono [rotated]) simp
  ultimately show ?thesis using distinct_card [OF wheel_distinct [OF assms(1)], of b "wheel_shard slot"] by linarith
qed

lemma in_place_heartbeat:
  assumes "wheel_ok idx" "li_n idx \<le> 2 ^ 28" "in_place now idx"
  shows "in_place now (snd (Heartbeat slot observed now idx))"
proof (cases rule: Heartbeat_cases [of slot observed now idx])
  case rejected
  then show ?thesis using assms(3) by simp
next
  case accepted
  let ?e = "min observed now" and ?i = "idx\<lparr>li_epochs := (li_epochs idx)[unat slot := min observed now]\<rparr>"
  have ok: "wheel_ok ?i" by (rule epochs_update_ok [OF assms(1)])
  have slot: "slot < li_n ?i" "?e mod 64 < 64" using accepted(1) mod64_less by simp_all
  note eff = moveToBucket_effect [OF ok slot]
  have "length (li_wheel ?i (unat (?e mod 64)) (wheel_shard slot)) < 2 ^ 24 \<or> bucket_of ?i slot = Some (unat (?e mod 64))"
    using shard_room [OF ok] assms(2) slot(1) by auto
  then have "bucket_of (moveToBucket slot (?e mod 64) ?i) slot = Some (unat (?e mod 64))" by (rule eff(3))
  moreover have "unat slot < length (li_epochs idx)" using assms(1) accepted(1) by (simp add: wheel_ok_def word_less_nat_alt)
  ultimately show ?thesis
    unfolding accepted(3) in_place_def using assms(3) eff(2)
    by (auto simp: in_place_def Let_def nth_list_update)
qed

lemma in_place_tick:
  assumes "wheel_ok idx" "in_place now idx"
  shows "in_place now (Tick now idx)"
proof (cases rule: Tick_cases [of now idx])
  case ignored
  then show ?thesis using assms(2) by simp
next
  case (swept ts)
  let ?j = "fold (\<lambda>t. tick_body t now) ts idx"
  have d: "li_n ?j = li_n idx" "li_epochs ?j = li_epochs idx"
    "\<And>y. y < li_n idx \<Longrightarrow> bucket_of ?j y = bucket_of idx y \<or> \<not> IsLive idx y now"
    using tick_fold_drops [OF assms(1), of now ts] by (auto simp: drops_only_dead_def)
  have "45 \<le> now - li_epochs idx ! unat y" if "y < li_n idx" "\<not> IsLive idx y now" for y
    using that(2) IsLive_iff [OF that(1), of now] in_placeD(1) [OF assms(2) that(1)] by simp
  with d have "bucket_of ?j y = bucket_of idx y \<or> 45 \<le> now - li_epochs idx ! unat y" if "y < li_n idx" for y
    using that by blast
  with in_placeD [OF assms(2)] show ?thesis
    unfolding swept(1) by (intro in_placeI) (simp_all add: d(1,2), metis)
qed

lemma in_place_history:
  assumes "wheel_ok idx" "li_n idx \<le> 2 ^ 28" "in_place t idx" "sorted (map live_clock ops)"
    and "\<forall>e \<in> set ops. t \<le> live_clock e \<and> live_clock e \<le> now" "t \<le> now"
  shows "in_place now (fold live_step ops idx)"
  using assms
proof (induction ops arbitrary: t idx)
  case Nil
  then show ?case using in_place_later by simp
next
  case (Cons e ops)
  have "in_place (live_clock e) idx" using Cons.prems(3,5) in_place_later by simp
  then have "in_place (live_clock e) (live_step e idx)"
    using Cons.prems(1,2) in_place_heartbeat in_place_tick by (cases e) simp_all
  moreover have "wheel_ok (live_step e idx)" "li_n (live_step e idx) = li_n idx"
    using live_step_ok live_step_seen Cons.prems(1) by blast+
  ultimately show ?case using Cons.IH [of "live_step e idx" "live_clock e"] Cons.prems(2,4,5) by simp
qed

lemma Tick_ts:
  assumes "li_lastTick idx = 0 \<or> li_lastTick idx \<le> now"
  obtains start where
    "fst (Tick_swept now idx) = map (\<lambda>j. start + of_nat j) [0..<Suc (unat (now - start))]"
    "Tick now idx = (fold (\<lambda>t. tick_body t now) (fst (Tick_swept now idx)) idx)\<lparr>li_lastTick := now\<rparr>"
    "unat (now - start) < 64"
    "li_lastTick idx \<noteq> 0 \<Longrightarrow> li_lastTick idx < now \<Longrightarrow>
       start = (if unat (now - li_lastTick idx) \<le> 64 then li_lastTick idx + 1 else now - 63)"
    "li_lastTick idx = 0 \<or> li_lastTick idx = now \<Longrightarrow> start = now"
proof -
  let ?p = "li_lastTick idx"
  define start where
    "start = (if ?p \<noteq> 0 \<and> ?p < now then (if 64 < now - ?p then now - 64 + 1 else ?p + 1) else now)"
  have "\<not> (?p \<noteq> 0 \<and> now < ?p)" using assms by (auto simp: not_less)
  then have "Tick_swept now idx =
      (case tick_loop start now idx of (ts, idx1) \<Rightarrow> (ts, idx1\<lparr>li_lastTick := now\<rparr>))"
    by (simp only: Tick_swept_def Let_def if_False start_def)
  then have eq: "fst (Tick_swept now idx) = map (\<lambda>j. start + of_nat j) [0..<Suc (unat (now - start))]"
    "Tick now idx = (fold (\<lambda>t. tick_body t now) (fst (Tick_swept now idx)) idx)\<lparr>li_lastTick := now\<rparr>"
    by (simp_all only: Tick_def tick_loop_fold prod.case fst_conv snd_conv)
  have gap: "64 < now - ?p \<longleftrightarrow> \<not> unat (now - ?p) \<le> 64" by (simp add: word_less_nat_alt not_le)
  have bound: "unat (now - start) < 64"
  proof (cases "?p \<noteq> 0 \<and> ?p < now \<and> \<not> 64 < now - ?p")
    case True
    then have "now - ?p \<noteq> 0" by auto
    then have "unat (now - (?p + 1)) = unat (now - ?p) - 1" "0 < unat (now - ?p)"
      using unat_minus_one [of "now - ?p"] by (simp_all add: diff_diff_eq unat_gt_0)
    moreover have "unat (now - ?p) \<le> 64" using True gap by blast
    ultimately have "unat (now - (?p + 1)) < 64" by linarith
    then show ?thesis using True by (simp add: start_def)
  next
    case False
    have "now - (now - 64 + 1) = 63" by simp
    with False show ?thesis by (auto simp: start_def)
  qed
  have "now - 64 + 1 = now - 63" by simp
  then have "start = (if unat (now - ?p) \<le> 64 then ?p + 1 else now - 63)" if "?p \<noteq> 0" "?p < now"
    using that gap by (simp add: start_def)
  moreover have "start = now" if "?p = 0 \<or> ?p = now" using that by (auto simp: start_def)
  ultimately show ?thesis using eq bound by (intro that [of start])
qed

lemma all_buckets_swept:
  assumes "b < 64"
  obtains j where "j < 64" "unat ((start + of_nat j + 1 :: uint32) mod 64) = b"
proof -
  have "unat ((start + of_nat j + 1 :: uint32) mod 64) = (unat start + j + 1) mod 64" for j
    by (simp add: unat_mod unat_word_ariths unat_of_nat mod_simps mod_mod_cancel)
  moreover have "(unat start + (b + 127 - unat start mod 64) mod 64 + 1) mod 64 = b"
  proof -
    have split: "x + (b + 127 - r) + 1 = 64 * (q + 2) + b" if "x = 64 * q + r" "r < 64" for x q r :: nat
      using that by simp
    have "unat start + (b + 127 - unat start mod 64) + 1 = 64 * (unat start div 64 + 2) + b"
      by (rule split) simp_all
    then have "(unat start + (b + 127 - unat start mod 64) + 1) mod 64 = b"
      using assms by (simp only: mod_mult_self4 mod_less)
    then show ?thesis by (metis mod_add_left_eq mod_add_right_eq)
  qed
  ultimately show ?thesis using that [of "(b + 127 - unat start mod 64) mod 64"] by simp
qed

section \<open>Properties\<close>

text \<open>
  C40. A membership word round-trips: unpacking a packed bucket and position gives them back
  for every bucket of the wheel and every 24-bit position, such a word is never the
  \<^verbatim>\<open>0\<close> that stands for absence, and packing what an arbitrary non-zero word unpacks to
  gives the word.
\<close>

theorem membership_word_roundtrip:
  "(b < 64 \<longrightarrow> p < 2 ^ 24 \<longrightarrow> packLiveMember b p \<noteq> 0 \<and> unpackLiveMember (packLiveMember b p) = Some (b, p)) \<and>
   (unpackLiveMember m = Some (c, q) \<longrightarrow> packLiveMember c q = m)"
proof -
  have "push_bit 24 (drop_bit 24 m) OR take_bit 24 (take_bit 24 m) = (m :: uint32)"
    by (rule bit_word_eqI) (auto simp: bit_simps)
  then have "packLiveMember (drop_bit 24 m - 1) (m AND (2 ^ 24 - 1)) = m"
    by (simp only: packLiveMember_def and_mask24 diff_add_cancel)
  then have "packLiveMember c q = m" if "unpackLiveMember m = Some (c, q)"
    using that unfolding unpackLiveMember_def by (simp only: split: if_splits) auto
  then show ?thesis using unpack_pack pack_nonzero by blast
qed

theorem membership_word_roundtrip_witness:
  "unpackLiveMember (packLiveMember 63 16777215) = Some (63, 16777215) \<and>
   packLiveMember 4 7 = 0x5000007"
proof -
  have "unpackLiveMember 0x5000007 = Some (4, 7)" by code_simp
  then show ?thesis
    using membership_word_roundtrip [of 63 16777215 "0x5000007" 4 7] by simp
qed

text \<open>
  C35. The wheel never loses its books: in every state reached by any sequence of heartbeats
  and ticks at any clocks, including clocks that run backwards, each wheel position holds a
  slot of its shard whose membership word points back at it, no slot is on the wheel twice,
  and a slot whose word is not zero is on the wheel.
\<close>

theorem live_index_invariant:
  assumes "reach (\<lambda>idx. \<exists>n. idx = NewLiveDeviceIndex n) (\<lambda>idx idx'. \<exists>e. idx' = live_step e idx) idx"
  shows "wheel_ok idx \<and>
    (\<forall>b s p c r q. p < length (li_wheel idx b s) \<longrightarrow> q < length (li_wheel idx c r) \<longrightarrow>
       li_wheel idx b s ! p = li_wheel idx c r ! q \<longrightarrow> b = c \<and> s = r \<and> p = q)"
  using live.reach_inv [OF assms] wheel_unique by blast

theorem live_index_invariant_witness:
  "wheel_ok (snd (Heartbeat 1 100 100 (NewLiveDeviceIndex 2)))"
proof -
  have "reach (\<lambda>idx. \<exists>n. idx = NewLiveDeviceIndex n) (\<lambda>idx idx'. \<exists>e. idx' = live_step e idx)
      (live_step (OpHeartbeat 1 100 100) (NewLiveDeviceIndex 2))"
    by (rule reach_step [OF reach_init]) blast+
  from live_index_invariant [OF this] show ?thesis by simp
qed

text \<open>
  C26. The presence index never reports a device twice and never reports a dead one, whatever
  heartbeats and ticks at whatever clocks came before, and a device that sent no heartbeat
  is never reported once the clock is 45 or more.
\<close>

theorem LiveSlots_sound:
  assumes "idx = fold live_step ops (NewLiveDeviceIndex n)"
  shows "distinct (LiveSlots idx now) \<and>
    (\<forall>x \<in> set (LiveSlots idx now). x < n \<and> IsLive idx x now \<and>
       unat (last_seen x ops) \<le> unat now \<and> unat now < unat (last_seen x ops) + 45)"
proof -
  have ok: "wheel_ok idx" unfolding assms using history_seen [OF New_ok] by blast
  have "IsLive idx x now" if "x \<in> set (LiveSlots idx now)" for x using LiveSlots_iff [OF ok] that by blast
  then show ?thesis using LiveSlots_distinct [OF ok] IsLive_history [of ops n] unfolding assms by blast
qed

theorem LiveSlots_sound_witness:
  "distinct (LiveSlots (fold live_step [OpHeartbeat 1 100 90, OpTick 95] (NewLiveDeviceIndex 4)) 130)"
  using LiveSlots_sound [OF refl, of "[OpHeartbeat 1 100 90, OpTick 95]" 4 130] by blast

text \<open>
  C3. When clocks do not run backwards, the index misses nobody: with at most \<open>2^28\<close> slots
  and a clock of 45 or more that is not behind any earlier one, the slots returned are
  exactly those whose last accepted heartbeat observation, clamped to its clock, is less than
  45 seconds old.
\<close>

theorem LiveSlots_complete:
  assumes "idx = fold live_step ops (NewLiveDeviceIndex n)" "n \<le> 2 ^ 28"
    and "sorted (map live_clock ops)" "\<forall>e \<in> set ops. live_clock e \<le> now" "45 \<le> now"
  shows "set (LiveSlots idx now) =
    {x. x < n \<and> unat (last_seen x ops) \<le> unat now \<and> unat now < unat (last_seen x ops) + 45}"
proof -
  have n: "li_n (NewLiveDeviceIndex n) = n" by (simp add: NewLiveDeviceIndex_def)
  have ok: "wheel_ok idx" and len: "li_n idx = n" 
    unfolding assms(1) using history_seen [OF New_ok, of ops n] n by simp_all
  have "in_place 0 (NewLiveDeviceIndex n)"
    by (rule in_placeI) (simp_all add: NewLiveDeviceIndex_def word_less_nat_alt)
  then have place: "in_place now idx"
    unfolding assms(1) using in_place_history [OF New_ok, of n 0 ops now] assms(2-4) n by simp
  have "\<exists>a \<in> set (ages now). bucket_of idx x = Some (age_bucket now a)" if live: "IsLive idx x now" for x
  proof -
    have x: "x < li_n idx" using live by (simp add: IsLive_def split: if_splits)
    let ?e = "li_epochs idx ! unat x"
    have e: "?e \<le> now" "now - ?e < 45" using live IsLive_iff [OF x] by simp_all
    then have "?e \<noteq> 0" using assms(5) by auto
    then have "bucket_of idx x = Some (unat (?e mod 64))" using in_placeD(2) [OF place x] e by auto
    moreover have "age_bucket now (unat (now - ?e)) = unat (?e mod 64)" by (simp add: age_bucket_def)
    moreover have "unat (now - ?e) \<in> set (ages now)"
      using e by (auto simp: ages_def word_less_nat_alt word_le_nat_alt unat_sub)
    ultimately show ?thesis by metis
  qed
  then have "x \<in> set (LiveSlots idx now) \<longleftrightarrow> IsLive idx x now" for x using LiveSlots_iff [OF ok] by blast
  then show ?thesis using IsLive_history [of ops n] unfolding assms(1) by blast
qed

theorem LiveSlots_complete_witness:
  "set (LiveSlots (fold live_step [OpHeartbeat 1 100 90, OpTick 95] (NewLiveDeviceIndex 4)) 130) = {1}"
proof -
  have "x < 4 \<and> unat (last_seen x [OpHeartbeat 1 100 90, OpTick 95]) \<le> unat (130 :: uint32) \<and>
      unat (130 :: uint32) < unat (last_seen x [OpHeartbeat 1 100 90, OpTick 95]) + 45 \<longleftrightarrow> x = 1" for x :: uint32
    by (auto simp: min_def)
  then show ?thesis
    using LiveSlots_complete [OF refl, of 4 "[OpHeartbeat 1 100 90, OpTick 95]" 130] by simp
qed

lemma swept_live:
  assumes "wheel_ok idx" "unat (now - start) = 63"
    and x: "x \<in> set (li_wheel (fold (\<lambda>t. tick_body t now) (map (\<lambda>j. start + of_nat j) [0..<Suc (unat (now - start))]) idx) b s)"
  shows "IsLive idx x now"
proof -
  define ts where "ts = map (\<lambda>j. start + of_nat j) [0..<Suc (unat (now - start))]"
  let ?j = "fold (\<lambda>t. tick_body t now) ts idx"
  have d: "drops_only_dead now idx ?j" by (rule tick_fold_drops [OF assms(1)])
  note el = wheel_elemD [OF drops_ok [OF d] x [folded ts_def]]
  have "bucket_of ?j x = Some b" using bucket_of_iff [OF drops_ok [OF d]] el x by (simp add: on_wheel_def ts_def)
  moreover obtain k where k: "k < 64" "unat ((start + of_nat k + 1 :: uint32) mod 64) = b"
    using all_buckets_swept el by blast
  have "start + of_nat k \<in> set ts" using k(1) assms(2) by (simp add: ts_def)
  from tick_fold_clean(1) [OF assms(1) this, of now] have "clean now b UNIV ?j" by (simp only: k(2))
  ultimately have "IsLive ?j x now" using el by (simp add: clean_def)
  then show ?thesis using IsLive_cong [of ?j idx] d by (simp add: drops_only_dead_def)
qed

text \<open>
  C30. A tick that is not behind the last one runs its loop at most 64 times, the last time for
  the new clock; a tick behind the last one does not run it and changes nothing. The first
  tick, and one in the same second, runs it once. When the tick is no more than 64
  seconds late the loop runs once for each missed second, in order, and otherwise for the last
  64 seconds; late by 64 seconds or more it leaves live slots only on the wheel.
\<close>

theorem Tick_bounded:
  assumes "wheel_ok idx" and ts: "ts = fst (Tick_swept now idx)"
  shows "length ts \<le> 64 \<and>
    (li_lastTick idx \<noteq> 0 \<and> now < li_lastTick idx \<longrightarrow> ts = [] \<and> Tick now idx = idx) \<and>
    (li_lastTick idx = 0 \<or> li_lastTick idx \<le> now \<longrightarrow>
       ts \<noteq> [] \<and> last ts = now \<and> Tick now idx = (fold (\<lambda>t. tick_body t now) ts idx)\<lparr>li_lastTick := now\<rparr>) \<and>
    (li_lastTick idx = 0 \<or> li_lastTick idx = now \<longrightarrow> ts = [now]) \<and>
    (li_lastTick idx \<noteq> 0 \<and> li_lastTick idx < now \<longrightarrow>
       ts = (if unat (now - li_lastTick idx) \<le> 64
         then map (\<lambda>j. li_lastTick idx + 1 + of_nat j) [0..<unat (now - li_lastTick idx)]
         else map (\<lambda>j. now - 63 + of_nat j) [0..<64]) \<and>
       (64 \<le> unat (now - li_lastTick idx) \<longrightarrow>
          (\<forall>b s. \<forall>x \<in> set (li_wheel (Tick now idx) b s). IsLive idx x now)))"
proof (cases "li_lastTick idx \<noteq> 0 \<and> now < li_lastTick idx")
  case True
  then show ?thesis by (auto simp: ts Tick_def Tick_swept_def)
next
  case False
  let ?p = "li_lastTick idx"
  have ahead: "?p = 0 \<or> ?p \<le> now" using False by (auto simp: not_less)
  obtain start where st: "ts = map (\<lambda>j. start + of_nat j) [0..<Suc (unat (now - start))]"
    "Tick now idx = (fold (\<lambda>t. tick_body t now) ts idx)\<lparr>li_lastTick := now\<rparr>" "unat (now - start) < 64"
    "?p \<noteq> 0 \<Longrightarrow> ?p < now \<Longrightarrow> start = (if unat (now - ?p) \<le> 64 then ?p + 1 else now - 63)"
    "?p = 0 \<or> ?p = now \<Longrightarrow> start = now"
    unfolding ts using Tick_ts [OF ahead] by blast
  have "last ts = now" "ts \<noteq> []" "length ts \<le> 64" using st(3) by (simp_all add: st(1))
  moreover have "ts = [now]" if "?p = 0 \<or> ?p = now" using st(5) that by (simp add: st(1))
  moreover have "ts = (if unat (now - ?p) \<le> 64 then map (\<lambda>j. ?p + 1 + of_nat j) [0..<unat (now - ?p)]
      else map (\<lambda>j. now - 63 + of_nat j) [0..<64])" if "?p \<noteq> 0" "?p < now"
  proof (cases "unat (now - ?p) \<le> 64")
    case True
    then show ?thesis using st(4) that unat_dist_Suc [of ?p now] by (simp add: st(1))
  next
    case late: False
    then have "start = now - 63" using st(4) that by simp
    then show ?thesis using late by (simp add: st(1) del: upt_Suc)
  qed
  moreover have "IsLive idx x now"
    if "?p \<noteq> 0" "?p < now" "64 \<le> unat (now - ?p)" "x \<in> set (li_wheel (Tick now idx) b s)" for b s x
  proof (rule swept_live [OF assms(1)])
    show "unat (now - start) = 63" using st(4) that unat_dist_Suc [of ?p now] by (auto split: if_splits)
    show "x \<in> set (li_wheel (fold (\<lambda>t. tick_body t now) (map (\<lambda>j. start + of_nat j) [0..<Suc (unat (now - start))]) idx) b s)"
      using that(4) unfolding st(2) unfolding st(1) by simp
  qed
  ultimately show ?thesis using st(2) False by auto
qed

theorem Tick_bounded_witness:
  "length (fst (Tick_swept 200 ((NewLiveDeviceIndex 4)\<lparr>li_lastTick := 10\<rparr>))) = 64"
proof -
  have "wheel_ok ((NewLiveDeviceIndex 4)\<lparr>li_lastTick := 10\<rparr>)" using New_ok by simp
  from Tick_bounded [OF this refl, of 200] show ?thesis by simp
qed

end
