(* ===== verification/Votes.thy ===== *)
theory Votes
  imports Sql_Tx "HOL-Library.AList" "HOL-Library.Product_Lexorder" "HOL-Library.List_Lexorder" "HOL-Library.Char_ord"
begin

text \<open>
  The voting half of \<^verbatim>\<open>src/src/control/verification.go\<close>: votes on a chunk, one vote per supplier,
  verification classes of a worker build, agreement of two results and the majority vote.
  A UUID is compared as its 16 bytes, which is the order of the number they spell. Go's order
  on byte slices and strings is the lexicographic one. The governed embedding comparator
  \<^verbatim>\<open>CompareEmbeddings\<close> is a parameter: nothing is assumed of it.
\<close>

type_synonym bytes = "8 word list"

datatype chunkVote = ChunkVote (supplierID: uuid) (taskID: uuid) (vote_bytes: bytes)
  (vote_engine: string) (vote_buildHash: string) (vote_buildIdentityPolicy: string)

definition chunkVoteLess :: "chunkVote \<Rightarrow> chunkVote \<Rightarrow> bool" where
  "chunkVoteLess a b =
     (if taskID a \<noteq> taskID b then taskID a < taskID b
      else if supplierID a \<noteq> supplierID b then supplierID a < supplierID b
      else if vote_bytes a \<noteq> vote_bytes b then vote_bytes a < vote_bytes b
      else if vote_engine a \<noteq> vote_engine b then vote_engine a < vote_engine b
      else if vote_buildHash a \<noteq> vote_buildHash b then vote_buildHash a < vote_buildHash b
      else vote_buildIdentityPolicy a < vote_buildIdentityPolicy b)"

text \<open>The order is the lexicographic one on the fields, so votes are linearly ordered.\<close>

definition vote_key where
  "vote_key v = (taskID v, supplierID v, vote_bytes v, vote_engine v, vote_buildHash v, vote_buildIdentityPolicy v)"

lemma chunkVoteLess_key: "chunkVoteLess a b \<longleftrightarrow> vote_key a < vote_key b"
  by (auto simp: chunkVoteLess_def vote_key_def less_prod_simp)

lemma vote_key_inj: "vote_key a = vote_key b \<longleftrightarrow> a = b"
  by (cases a; cases b) (auto simp: vote_key_def)

instantiation chunkVote :: linorder
begin

definition less_chunkVote :: "chunkVote \<Rightarrow> chunkVote \<Rightarrow> bool" where "less_chunkVote = chunkVoteLess"

definition less_eq_chunkVote :: "chunkVote \<Rightarrow> chunkVote \<Rightarrow> bool" where
  "less_eq_chunkVote a b \<longleftrightarrow> a = b \<or> chunkVoteLess a b"

instance
proof
  fix a b c :: chunkVote
  have le: "a \<le> b \<longleftrightarrow> vote_key a \<le> vote_key b" for a b :: chunkVote
    by (auto simp: less_eq_chunkVote_def chunkVoteLess_key vote_key_inj [symmetric])
  show "a < b \<longleftrightarrow> a \<le> b \<and> \<not> b \<le> a" unfolding le by (auto simp: less_chunkVote_def chunkVoteLess_key)
  show "a \<le> a" unfolding le ..
  show "a \<le> b \<Longrightarrow> b \<le> c \<Longrightarrow> a \<le> c" unfolding le by (rule order_trans)
  show "a \<le> b \<Longrightarrow> b \<le> a \<Longrightarrow> a = b" unfolding le by (auto simp: vote_key_inj [symmetric])
  show "a \<le> b \<or> b \<le> a" unfolding le by (rule linear)
qed

end

text \<open>
  The representative of a supplier is its least vote. The Go map is an association list here;
  the order it is walked in does not matter, since the result is sorted by a linear order.
\<close>

definition represent :: "chunkVote \<Rightarrow> (uuid \<times> chunkVote) list \<Rightarrow> (uuid \<times> chunkVote) list" where
  "represent vote reps =
     (case map_of reps (supplierID vote) of
        None \<Rightarrow> AList.update (supplierID vote) vote reps
      | Some current \<Rightarrow> if chunkVoteLess vote current then AList.update (supplierID vote) vote reps else reps)"

definition independentSupplierVotes :: "chunkVote list \<Rightarrow> chunkVote list" where
  "independentSupplierVotes all =
     (if length all \<le> 1 then all else sort (map snd (fold represent all [])))"

definition minIndependentSuppliersForRedundancy :: nat where "minIndependentSuppliersForRedundancy = 2"

definition independentSupplierCountSatisfiesRedundancy :: "nat \<Rightarrow> bool" where
  "independentSupplierCountSatisfiesRedundancy n \<longleftrightarrow> minIndependentSuppliersForRedundancy \<le> n"

definition independentRedundancyMatch :: "chunkVote list \<Rightarrow> bool" where
  "independentRedundancyMatch all = independentSupplierCountSatisfiesRedundancy (length (independentSupplierVotes all))"

section \<open>Worker builds\<close>

definition currentEngineBuildIdentityPolicy :: string where "currentEngineBuildIdentityPolicy = ''merc_agent_running_executable_sha256_v1''"
definition externalRunnerBuildIdentityPolicy :: string where "externalRunnerBuildIdentityPolicy = ''merc_external_runner_artifact_config_sha256_v1''"

definition validCurrentEngineBuildIdentityPolicy :: "string \<Rightarrow> bool" where
  "validCurrentEngineBuildIdentityPolicy policy \<longleftrightarrow>
     policy = currentEngineBuildIdentityPolicy \<or> policy = externalRunnerBuildIdentityPolicy"

definition engineBuildHashPattern :: "string \<Rightarrow> bool" where
  "engineBuildHashPattern s \<longleftrightarrow> length s = 16 \<and> list_all (\<lambda>c. c \<in> set ''0123456789abcdef'') s"

fun sameVerificationClass :: "string \<Rightarrow> string \<Rightarrow> string \<Rightarrow> string \<Rightarrow> string list \<Rightarrow> bool" where
  "sameVerificationClass aEngine aBuild bEngine bBuild policies =
     (if aBuild = [] \<or> bBuild = [] then False
      else if policies = [] then aEngine = bEngine \<and> aBuild = bBuild
      else if length policies \<noteq> 2 \<or> \<not> validCurrentEngineBuildIdentityPolicy (policies ! 0) \<or>
        \<not> validCurrentEngineBuildIdentityPolicy (policies ! 1) then False
      else aEngine = bEngine \<and> aBuild = bBuild \<and> policies ! 0 = policies ! 1)"

definition classKey :: "string \<Rightarrow> string \<Rightarrow> string list \<Rightarrow> string" where
  "classKey engine buildHash policies =
     (if buildHash = [] then []
      else if 0 < length policies then
        (if length policies \<noteq> 1 \<or> \<not> validCurrentEngineBuildIdentityPolicy (policies ! 0) then []
         else engine @ ''|'' @ buildHash @ ''|'' @ policies ! 0)
      else engine @ ''|'' @ buildHash)"

definition byteExactJobType :: "string \<Rightarrow> bool" where
  "byteExactJobType jobType \<longleftrightarrow> jobType \<noteq> ''embed''"

definition byteHoneypotComparable :: "string \<Rightarrow> string \<Rightarrow> string \<Rightarrow> string \<Rightarrow> string list \<Rightarrow> bool" where
  "byteHoneypotComparable jobType answerClass engine buildHash policies =
     (if \<not> byteExactJobType jobType then True
      else answerClass \<noteq> [] \<and> answerClass = classKey engine buildHash policies)"

text \<open>\<^verbatim>\<open>strings.Split\<close> with a one-character separator.\<close>

fun split_on :: "char \<Rightarrow> string \<Rightarrow> string list" where
  "split_on c [] = [[]]"
| "split_on c (x # xs) =
     (if x = c then [] # split_on c xs
      else case split_on c xs of [] \<Rightarrow> [[x]] | part # parts \<Rightarrow> (x # part) # parts)"

abbreviation "errHoneypotBlankClass \<equiv> Msg ''byte-exact honeypot requires a non-blank answer_class''"

definition validateHoneypotSeed :: "string \<Rightarrow> string \<Rightarrow> unit result" where
  "validateHoneypotSeed jobType answerClass =
     (if byteExactJobType jobType \<and> answerClass = [] then Inl (Wrap ''job_type'' errHoneypotBlankClass)
      else if byteExactJobType jobType then
        (let parts = split_on CHR ''|'' answerClass in
         if length parts \<noteq> 3 \<or> TrimSpace (parts ! 0) = [] \<or> \<not> engineBuildHashPattern (parts ! 1) \<or>
           \<not> validCurrentEngineBuildIdentityPolicy (parts ! 2)
         then Inl (Msg ''byte-exact honeypot answer_class must bind engine|16-lowerhex-build|current-build-policy'')
         else Inr ())
      else Inr ())"

section \<open>Agreement and majority\<close>

definition resultsAgree :: "(bytes \<Rightarrow> bytes \<Rightarrow> bool) \<Rightarrow> string \<Rightarrow> bytes \<Rightarrow> bytes \<Rightarrow> bool" where
  "resultsAgree CompareEmbeddings jobType a b =
     (if jobType = ''embed'' then CompareEmbeddings a b
      else if jobType = ''batch_infer'' then a = b
      else if jobType = ''media_transcode'' then a = b
      else if jobType = ''media_rendering'' then a = b
      else False)"

text \<open>A nil slice and an empty one compare the same, so the empty vote is the empty list.\<close>

definition majorityVote :: "(bytes \<Rightarrow> bytes \<Rightarrow> bool) \<Rightarrow> string \<Rightarrow> bytes list \<Rightarrow> bytes" where
  "majorityVote ce jobType results =
     (if results = [] then []
      else case find (\<lambda>r. length results < length (filter (resultsAgree ce jobType r) results) * 2) results of
          Some r \<Rightarrow> r
        | None \<Rightarrow> hd results)"

section \<open>One vote per supplier\<close>

definition votes_of :: "uuid \<Rightarrow> chunkVote list \<Rightarrow> chunkVote set" where
  "votes_of s all = {v \<in> set all. supplierID v = s}"

definition least_vote :: "chunkVote list \<Rightarrow> uuid \<Rightarrow> chunkVote option" where
  "least_vote all s = (if votes_of s all = {} then None else Some (Min (votes_of s all)))"

definition least_votes :: "chunkVote list \<Rightarrow> chunkVote set" where
  "least_votes all = {v \<in> set all. \<forall>w \<in> set all. supplierID w = supplierID v \<longrightarrow> v \<le> w}"

lemma finite_votes_of [simp]: "finite (votes_of s all)"
  by (simp add: votes_of_def)

lemma votes_of_snoc: "votes_of s (xs @ [x]) = (if supplierID x = s then insert x (votes_of s xs) else votes_of s xs)"
  by (auto simp: votes_of_def)

lemma represent_least:
  assumes "map_of reps = least_vote xs"
  shows "map_of (represent x reps) = least_vote (xs @ [x])"
proof
  fix s
  show "map_of (represent x reps) s = least_vote (xs @ [x]) s"
    using assms
    by (auto simp: represent_def least_vote_def votes_of_snoc update_conv' min_def less_eq_chunkVote_def
        less_chunkVote_def [symmetric] split: option.split dest: leD)
qed

lemma represent_distinct: "distinct (map fst reps) \<Longrightarrow> distinct (map fst (represent x reps))"
  by (simp add: represent_def distinct_update split: option.split)

lemma representatives:
  "map_of (fold represent all []) = least_vote all" "distinct (map fst (fold represent all []))"
proof -
  have "map_of (fold represent all []) = least_vote all \<and> distinct (map fst (fold represent all []))"
  proof (induction all rule: rev_induct)
    case Nil
    then show ?case by (simp add: least_vote_def votes_of_def fun_eq_iff)
  next
    case (snoc x xs)
    then show ?case using represent_least represent_distinct by simp
  qed
  then show "map_of (fold represent all []) = least_vote all" "distinct (map fst (fold represent all []))" by blast+
qed

lemma least_votes_iff: "v \<in> least_votes all \<longleftrightarrow> v \<in> set all \<and> (\<forall>w \<in> votes_of (supplierID v) all. v \<le> w)"
  by (auto simp: least_votes_def votes_of_def)

lemma least_vote_Some: "least_vote all s = Some v \<longleftrightarrow> v \<in> least_votes all \<and> supplierID v = s"
proof (cases "votes_of s all = {}")
  case True
  then have "\<not> (v \<in> set all \<and> supplierID v = s)" by (auto simp: votes_of_def)
  then show ?thesis using True by (auto simp: least_vote_def least_votes_iff)
next
  case False
  have "Min (votes_of s all) = v \<longleftrightarrow> v \<in> votes_of s all \<and> (\<forall>w \<in> votes_of s all. v \<le> w)"
    using Min_eq_iff [OF finite_votes_of False] by metis
  moreover have "v \<in> votes_of s all \<longleftrightarrow> v \<in> set all \<and> supplierID v = s" by (simp add: votes_of_def)
  ultimately show ?thesis using False by (auto simp: least_vote_def least_votes_iff)
qed

lemma least_votes_inj: "inj_on supplierID (least_votes all)"
  by (rule inj_onI) (metis least_vote_Some option.inject)

lemma representatives_values:
  "set (map snd (fold represent all [])) = least_votes all" "distinct (map snd (fold represent all []))"
proof -
  let ?R = "fold represent all []"
  have "snd ` set ?R = ran (map_of ?R)" using ran_distinct [OF representatives(2)] by simp
  then show set: "set (map snd ?R) = least_votes all"
    by (auto simp: representatives(1) ran_def least_vote_Some)
  have key: "supplierID v = s" if "(s, v) \<in> set ?R" for s v
    using map_of_is_SomeI [OF representatives(2) that] by (simp add: representatives(1) least_vote_Some)
  then have "map fst ?R = map supplierID (map snd ?R)" by (auto intro: map_cong)
  then show "distinct (map snd ?R)" using representatives(2) by (metis distinct_map)
qed

lemma least_votes_short: "length all \<le> 1 \<Longrightarrow> least_votes all = set all \<and> sorted all \<and> distinct all"
  by (cases all) (auto simp: least_votes_def)

lemma independent_sorted: "sorted (independentSupplierVotes all)"
  using least_votes_short [of all] by (simp add: independentSupplierVotes_def)

lemma independent_distinct: "distinct (independentSupplierVotes all)"
  using least_votes_short [of all] representatives_values(2) [of all] by (simp add: independentSupplierVotes_def)

lemma set_independent: "set (independentSupplierVotes all) = least_votes all"
  using least_votes_short [of all] representatives_values(1) [of all] by (auto simp: independentSupplierVotes_def)

lemma independent_eq: "independentSupplierVotes all = sorted_list_of_set (least_votes all)"
  by (metis independent_distinct independent_sorted set_independent sorted_list_of_set.idem_if_sorted_distinct)

lemma least_votes_cong: "set xs = set ys \<Longrightarrow> least_votes xs = least_votes ys"
  by (simp add: least_votes_def)

lemma suppliers_of_least: "supplierID ` least_votes all = supplierID ` set all"
proof -
  have "\<exists>v \<in> least_votes all. supplierID v = supplierID w" if "w \<in> set all" for w
  proof -
    have "votes_of (supplierID w) all \<noteq> {}" using that by (auto simp: votes_of_def)
    then show ?thesis using least_vote_Some [of all "supplierID w"] by (auto simp: least_vote_def)
  qed
  then have "supplierID ` set all \<subseteq> supplierID ` least_votes all"
    by (intro image_subsetI) (metis imageI)
  moreover have "least_votes all \<subseteq> set all" by (auto simp: least_votes_def)
  ultimately show ?thesis by blast
qed

lemma length_independent: "length (independentSupplierVotes all) = card (supplierID ` set all)"
proof -
  have "card (supplierID ` least_votes all) = card (least_votes all)" by (rule card_image [OF least_votes_inj])
  then show ?thesis using distinct_card [OF independent_distinct [of all]] by (simp add: set_independent suppliers_of_least)
qed

lemma least_votes_idem: "least_votes (independentSupplierVotes all) = least_votes all"
proof -
  have "v \<le> w" if "v \<in> least_votes all" "w \<in> least_votes all" "supplierID w = supplierID v" for v w
    using inj_onD [OF least_votes_inj that(3) that(2,1)] by simp
  then show ?thesis by (auto simp: least_votes_def [of "independentSupplierVotes all"] set_independent)
qed

lemma independent_idem: "independentSupplierVotes (independentSupplierVotes all) = independentSupplierVotes all"
  unfolding independent_eq [of "independentSupplierVotes all"] least_votes_idem by (rule independent_eq [symmetric])

section \<open>Agreement by bytes\<close>

definition comparedByBytes :: "string \<Rightarrow> bool" where
  "comparedByBytes jobType \<longleftrightarrow> jobType \<in> set [''batch_infer'', ''media_transcode'', ''media_rendering'']"

lemma resultsAgree_bytes: "comparedByBytes jobType \<Longrightarrow> resultsAgree ce jobType a b \<longleftrightarrow> a = b"
  by (auto simp: comparedByBytes_def resultsAgree_def)

lemma resultsAgree_unknown:
  "jobType \<noteq> ''embed'' \<Longrightarrow> \<not> comparedByBytes jobType \<Longrightarrow> \<not> resultsAgree ce jobType a b"
  by (auto simp: comparedByBytes_def resultsAgree_def)

lemma count_list_pair: "x \<noteq> y \<Longrightarrow> count_list xs x + count_list xs y \<le> length xs"
  by (induction xs) auto

lemma length_filter_eq: "length (filter ((=) x) xs) = count_list xs x"
  by (induction xs) auto

lemma majority_in: "length xs < count_list xs x * 2 \<Longrightarrow> x \<in> set xs"
  by (metis count_list_0_iff mult_0 not_less_zero)

lemma majorityVote_in: "results \<noteq> [] \<Longrightarrow> majorityVote ce jobType results \<in> set results"
  by (auto simp: majorityVote_def find_Some_iff split: option.split)

lemma majorityVote_bytes:
  assumes "comparedByBytes jobType" "length results < count_list results x * 2"
  shows "majorityVote ce jobType results = x"
proof -
  let ?P = "\<lambda>r. length results < length (filter (resultsAgree ce jobType r) results) * 2"
  have agree: "resultsAgree ce jobType r = (=) r" for r using resultsAgree_bytes [OF assms(1)] by (auto simp: fun_eq_iff)
  have P: "?P r \<longleftrightarrow> length results < count_list results r * 2" for r by (simp add: agree length_filter_eq)
  then have "?P x" "x \<in> set results" using assms(2) majority_in by simp_all
  then obtain r where r: "find ?P results = Some r"
    using find_None_iff [of ?P results] by (cases "find ?P results") auto
  then have "?P r" unfolding find_Some_iff by blast
  have "r = x" using count_list_pair [of r x results] \<open>?P r\<close> assms(2) P by fastforce
  then show ?thesis using r \<open>x \<in> set results\<close> by (auto simp: majorityVote_def)
qed

lemma majorityVote_none:
  assumes "comparedByBytes jobType" "results \<noteq> []" "\<forall>x. count_list results x * 2 \<le> length results"
  shows "majorityVote ce jobType results = hd results"
proof -
  have agree: "resultsAgree ce jobType r = (=) r" for r using resultsAgree_bytes [OF assms(1)] by (auto simp: fun_eq_iff)
  have "find (\<lambda>r. length results < length (filter (resultsAgree ce jobType r) results) * 2) results = None"
    using assms(3) by (simp add: find_None_iff agree length_filter_eq not_less)
  then show ?thesis using assms(2) by (simp add: majorityVote_def)
qed

section \<open>Class keys\<close>

lemma split_on_nonempty: "split_on c s \<noteq> []"
  by (induction s) (simp_all split: list.split)

lemma split_on_no_sep: "c \<notin> set s \<Longrightarrow> split_on c s = [s]"
  by (induction s) auto

lemma split_on_append: "c \<notin> set s \<Longrightarrow> split_on c (s @ c # t) = s # split_on c t"
  by (induction s) auto

lemma split_on_parts: "p \<in> set (split_on c s) \<Longrightarrow> c \<notin> set p"
  by (induction s arbitrary: p) (auto split: if_splits list.splits)

fun join_on :: "char \<Rightarrow> string list \<Rightarrow> string" where
  "join_on c [] = []"
| "join_on c [x] = x"
| "join_on c (x # y # zs) = x @ c # join_on c (y # zs)"

lemma join_on_Cons: "zs \<noteq> [] \<Longrightarrow> join_on c (x # zs) = x @ c # join_on c zs"
  by (cases zs) simp_all

lemma join_on_head: "join_on c ((x # part) # parts) = x # join_on c (part # parts)"
  by (cases parts) simp_all

lemma join_split: "join_on c (split_on c s) = s"
proof (induction s)
  case (Cons x s)
  obtain part parts where "split_on c s = part # parts" using split_on_nonempty by (metis list.exhaust)
  with Cons show ?case by (simp add: join_on_Cons join_on_head)
qed simp

lemma split_on_join3: "split_on c s = [a, b, d] \<Longrightarrow> s = a @ c # b @ c # d"
  using join_split [of c s] by simp

lemma hash_no_bar:
  assumes "engineBuildHashPattern h"
  shows "CHR ''|'' \<notin> set h \<and> h \<noteq> []"
proof -
  have digits: "\<forall>c \<in> set h. c \<in> set ''0123456789abcdef''" and len: "length h = 16"
    using assms unfolding engineBuildHashPattern_def list_all_iff by blast+
  have "CHR ''|'' \<notin> set ''0123456789abcdef''" by simp
  with digits len show ?thesis by (metis length_0_conv zero_neq_numeral)
qed

lemma policy_no_bar: "validCurrentEngineBuildIdentityPolicy p \<Longrightarrow> CHR ''|'' \<notin> set p"
  by (auto simp: validCurrentEngineBuildIdentityPolicy_def currentEngineBuildIdentityPolicy_def
      externalRunnerBuildIdentityPolicy_def)

lemma split_classKey:
  assumes "CHR ''|'' \<notin> set engine" "engineBuildHashPattern hash" "validCurrentEngineBuildIdentityPolicy policy"
  shows "split_on CHR ''|'' (classKey engine hash [policy]) = [engine, hash, policy]"
  using assms hash_no_bar [OF assms(2)] policy_no_bar [OF assms(3)]
  by (simp add: classKey_def split_on_append split_on_no_sep)

definition wellformed_build :: "string \<Rightarrow> string \<Rightarrow> string \<Rightarrow> bool" where
  "wellformed_build engine hash policy \<longleftrightarrow> CHR ''|'' \<notin> set engine \<and> TrimSpace engine \<noteq> [] \<and>
     engineBuildHashPattern hash \<and> validCurrentEngineBuildIdentityPolicy policy"

lemma classKey_inj:
  assumes "wellformed_build e h p" "wellformed_build e' h' p'" "classKey e h [p] = classKey e' h' [p']"
  shows "(e', h', p') = (e, h, p)"
proof -
  have "split_on CHR ''|'' (classKey e h [p]) = [e, h, p]" "split_on CHR ''|'' (classKey e' h' [p']) = [e', h', p']"
    using assms(1,2) by (simp_all add: wellformed_build_def split_classKey)
  then have "[e, h, p] = [e', h', p']" by (simp only: assms(3))
  then show ?thesis by simp
qed

lemma classKey_nonempty: "wellformed_build e h p \<Longrightarrow> classKey e h [p] \<noteq> []"
  using hash_no_bar by (auto simp: wellformed_build_def classKey_def)

lemma classKey_seed:
  "byteExactJobType jobType \<Longrightarrow> wellformed_build e h p \<Longrightarrow> validateHoneypotSeed jobType (classKey e h [p]) = Inr ()"
  using classKey_nonempty [of e h p] split_classKey [of e h p]
  by (simp add: wellformed_build_def validateHoneypotSeed_def)

lemma validateHoneypotSeed_parts:
  assumes "byteExactJobType jobType" "validateHoneypotSeed jobType answerClass = Inr ()"
  shows "\<exists>e h p. wellformed_build e h p \<and> answerClass = classKey e h [p]"
proof -
  define parts where "parts = split_on CHR ''|'' answerClass"
  have p: "length parts = 3" "TrimSpace (parts ! 0) \<noteq> []" "engineBuildHashPattern (parts ! 1)"
    "validCurrentEngineBuildIdentityPolicy (parts ! 2)"
    using assms by (auto simp: validateHoneypotSeed_def parts_def [symmetric] Let_def split: if_splits)
  then obtain a b d where abd: "parts = [a, b, d]"
    by (metis (no_types, opaque_lifting) length_0_conv length_Suc_conv numeral_3_eq_3)
  have "CHR ''|'' \<notin> set a" using split_on_parts [of a "CHR ''|''" answerClass] abd by (simp add: parts_def)
  moreover have "answerClass = a @ CHR ''|'' # b @ CHR ''|'' # d" by (rule split_on_join3) (simp add: abd [symmetric] parts_def)
  ultimately have "wellformed_build a b d \<and> answerClass = classKey a b [d]"
    using p hash_no_bar [of b] by (simp add: abd wellformed_build_def classKey_def)
  then show ?thesis by blast
qed

section \<open>Properties\<close>

text \<open>
  C15. Votes count once per supplier and do not depend on the order rows come in: the
  independent votes are exactly each supplier's least vote, sorted, so any list with the same
  votes gives the same result, there is one vote per distinct supplier, and reducing twice
  changes nothing. Redundancy counts as independent exactly when two distinct suppliers voted.
\<close>

theorem independent_votes_canonical:
  "independentSupplierVotes all =
     sorted_list_of_set {v \<in> set all. \<forall>w \<in> set all. supplierID w = supplierID v \<longrightarrow> v \<le> w} \<and>
   (set all' = set all \<longrightarrow> independentSupplierVotes all' = independentSupplierVotes all) \<and>
   independentSupplierVotes (independentSupplierVotes all) = independentSupplierVotes all \<and>
   length (independentSupplierVotes all) = card (supplierID ` set all) \<and>
   (independentRedundancyMatch all \<longleftrightarrow> 2 \<le> card (supplierID ` set all))"
proof (intro conjI impI)
  show "independentSupplierVotes all =
     sorted_list_of_set {v \<in> set all. \<forall>w \<in> set all. supplierID w = supplierID v \<longrightarrow> v \<le> w}"
    by (rule independent_eq [unfolded least_votes_def])
  show "independentSupplierVotes all' = independentSupplierVotes all" if "set all' = set all"
    unfolding independent_eq using least_votes_cong [OF that] by simp
  show "independentRedundancyMatch all \<longleftrightarrow> 2 \<le> card (supplierID ` set all)"
    by (simp add: length_independent independentRedundancyMatch_def
        independentSupplierCountSatisfiesRedundancy_def minIndependentSuppliersForRedundancy_def)
qed (rule independent_idem length_independent)+

theorem independent_votes_canonical_witness:
  "independentSupplierVotes [ChunkVote 2 7 [1] [] [] [], ChunkVote 2 5 [1] [] [] [], ChunkVote 1 6 [2] [] [] []] =
   independentSupplierVotes [ChunkVote 1 6 [2] [] [] [], ChunkVote 2 5 [1] [] [] [], ChunkVote 2 7 [1] [] [] []]"
proof -
  let ?xs = "[ChunkVote 2 7 [1] [] [] [], ChunkVote 2 5 [1] [] [] [], ChunkVote 1 6 [2] [] [] []]"
    and ?ys = "[ChunkVote 1 6 [2] [] [] [], ChunkVote 2 5 [1] [] [] [], ChunkVote 2 7 [1] [] [] []]"
  have "set ?xs = set ?ys" by auto
  then show ?thesis using independent_votes_canonical [of ?ys ?xs] by blast
qed

text \<open>
  C33. For the job types compared by bytes the majority vote returns the result that more than
  half of the votes carry, whatever the order of the votes, and the first vote when there is
  none. For a job type the comparison does not know, nothing agrees with anything, itself
  included, so the first vote is returned without a majority.
\<close>

theorem majorityVote_correct:
  "(comparedByBytes jobType \<and> length results < 2 * count_list results x \<longrightarrow> majorityVote ce jobType results = x) \<and>
   (comparedByBytes jobType \<and> results \<noteq> [] \<and> (\<forall>y. 2 * count_list results y \<le> length results) \<longrightarrow>
      majorityVote ce jobType results = hd results) \<and>
   (jobType \<noteq> ''embed'' \<and> \<not> comparedByBytes jobType \<and> results \<noteq> [] \<longrightarrow>
      majorityVote ce jobType results = hd results \<and>
      \<not> resultsAgree ce jobType (hd results) (hd results))"
proof -
  have "majorityVote ce jobType results = hd results"
    if "jobType \<noteq> ''embed''" "\<not> comparedByBytes jobType" "results \<noteq> []"
  proof -
    have "resultsAgree ce jobType r = (\<lambda>_. False)" for r using resultsAgree_unknown that by blast
    then have "find (\<lambda>r. length results < length (filter (resultsAgree ce jobType r) results) * 2) results = None"
      by (simp add: find_None_iff)
    then show ?thesis using that(3) by (simp add: majorityVote_def)
  qed
  then show ?thesis
    using majorityVote_bytes [of jobType results x ce] majorityVote_none [of jobType results ce] resultsAgree_unknown
    by (auto simp: mult.commute)
qed

theorem majorityVote_correct_witness:
  "majorityVote (\<lambda>_ _. False) ''batch_infer'' [[1], [2], [2]] = [2]"
  using majorityVote_correct [of "''batch_infer''" "[[1], [2], [2]]" "[2]" "\<lambda>_ _. False"]
  by (simp add: comparedByBytes_def)

text \<open>
  C32. A probe is seeded and compared consistently. For a job type compared by bytes a seed is
  accepted exactly when it is the class key of one engine without a separator in its name, one
  16-digit lower-case hex build hash and one current policy, and these are unique. A worker of
  such a build is then compared with the stored answer exactly when it is that build.
\<close>

theorem honeypot_seed_unique:
  assumes "byteExactJobType jobType"
  shows "(validateHoneypotSeed jobType answerClass = Inr () \<longleftrightarrow>
      (\<exists>!(e, h, p). wellformed_build e h p \<and> answerClass = classKey e h [p])) \<and>
    (wellformed_build e h p \<and> wellformed_build e' h' p' \<longrightarrow>
      validateHoneypotSeed jobType (classKey e h [p]) = Inr () \<and>
      (byteHoneypotComparable jobType (classKey e h [p]) e' h' [p'] \<longleftrightarrow> (e', h', p') = (e, h, p)))"
proof -
  have "validateHoneypotSeed jobType answerClass = Inr () \<longleftrightarrow>
      (\<exists>!(e, h, p). wellformed_build e h p \<and> answerClass = classKey e h [p])"
  proof
    assume "validateHoneypotSeed jobType answerClass = Inr ()"
    then obtain a b d where abd: "wellformed_build a b d" "answerClass = classKey a b [d]"
      using validateHoneypotSeed_parts [OF assms] by metis
    show "\<exists>!(e, h, p). wellformed_build e h p \<and> answerClass = classKey e h [p]"
    proof (rule ex1I [of _ "(a, b, d)"])
      show "case (a, b, d) of (e, h, p) \<Rightarrow> wellformed_build e h p \<and> answerClass = classKey e h [p]" using abd by simp
      fix x assume "case x of (e, h, p) \<Rightarrow> wellformed_build e h p \<and> answerClass = classKey e h [p]"
      then show "x = (a, b, d)" using classKey_inj [OF abd(1)] abd(2) by (cases x) auto
    qed
  next
    assume "\<exists>!(e, h, p). wellformed_build e h p \<and> answerClass = classKey e h [p]"
    then show "validateHoneypotSeed jobType answerClass = Inr ()" using classKey_seed [OF assms] by blast
  qed
  moreover have "byteHoneypotComparable jobType (classKey e h [p]) e' h' [p'] \<longleftrightarrow> (e', h', p') = (e, h, p)"
    if "wellformed_build e h p" "wellformed_build e' h' p'"
    using classKey_inj [OF that] classKey_nonempty [OF that(1)] assms by (auto simp: byteHoneypotComparable_def)
  ultimately show ?thesis using classKey_seed [OF assms] by blast
qed

theorem honeypot_seed_unique_witness:
  "validateHoneypotSeed ''batch_infer''
     (classKey ''mlx'' ''0123456789abcdef'' [''merc_agent_running_executable_sha256_v1'']) = Inr ()"
proof -
  have "byteExactJobType ''batch_infer''" by (simp add: byteExactJobType_def)
  moreover have "wellformed_build ''mlx'' ''0123456789abcdef'' ''merc_agent_running_executable_sha256_v1''"
    by code_simp
  ultimately show ?thesis using honeypot_seed_unique by blast
qed

end
