(* ===== verification/Go_Float.thy ===== *)
theory Go_Float
  imports Complex_Main "HOL-Library.Log_Nat"
begin

text \<open>
  Go's \<^verbatim>\<open>float32\<close> and \<^verbatim>\<open>float64\<close> where they stay finite: a value is the rational number it
  stands for, and each operation rounds the exact result to the nearest representable number,
  ties to even. The modelled code adds, subtracts, multiplies and divides numbers of moderate
  size by constants, so infinities, NaN and the sign of zero do not arise.
\<close>

section \<open>Rounding\<close>

definition ilog2 :: "rat \<Rightarrow> int" where
  "ilog2 x = (let (n, d) = quotient_of x; k = int (floorlog 2 (nat n)) - int (floorlog 2 (nat d))
     in if 2 powi k \<le> x then k else k - 1)"

definition round_even :: "rat \<Rightarrow> int" where
  "round_even x = (let f = \<lfloor>x\<rfloor>; r = x - of_int f in if r < 1 / 2 \<or> r = 1 / 2 \<and> even f then f else f + 1)"

definition fl :: "int \<Rightarrow> int \<Rightarrow> rat \<Rightarrow> rat" where
  "fl p emin x = (if x = 0 then 0
     else let e = max (ilog2 \<bar>x\<bar> - p + 1) emin in of_int (round_even (x / 2 powi e)) * 2 powi e)"

definition float32 :: "rat \<Rightarrow> rat" where "float32 = fl 24 (-149)"
definition float64 :: "rat \<Rightarrow> rat" where "float64 = fl 53 (-1074)"

lemma powi_less_iff: "(2 :: rat) powi a < 2 powi b \<longleftrightarrow> a < b"
  using power_int_strict_increasing [of a b "2 :: rat"] power_int_strict_increasing [of b a "2 :: rat"]
  by (metis less_asym linorder_neqE one_less_numeral_iff order_less_irrefl semiring_norm(76))

lemma powi_le_iff: "(2 :: rat) powi a \<le> 2 powi b \<longleftrightarrow> a \<le> b"
  using powi_less_iff [of b a] by (simp add: not_less [symmetric])

lemma floorlog_rat:
  assumes "0 < (n :: int)"
  shows "2 powi (int (floorlog 2 (nat n)) - 1) \<le> (of_int n :: rat)"
    and "(of_int n :: rat) < 2 powi int (floorlog 2 (nat n))"
proof -
  let ?l = "floorlog 2 (nat n)"
  have b: "2 ^ (?l - 1) \<le> nat n \<and> nat n < 2 ^ ?l" and pos: "0 < ?l"
    using floorlog_bounds [of "nat n" 2] floorlog_eq_zero_iff [of 2 "nat n"] assms by (simp, linarith)
  have n: "(of_int n :: rat) = of_nat (nat n)" using assms by simp
  have "(2 :: rat) powi int ?l = 2 ^ ?l" by simp
  moreover have "(2 :: rat) powi (int ?l - 1) = 2 ^ (?l - 1)"
    using pos by (metis One_nat_def Suc_leI int_ops(2) of_nat_diff power_int_of_nat)
  ultimately show "2 powi (int ?l - 1) \<le> (of_int n :: rat)" "(of_int n :: rat) < 2 powi int ?l"
    unfolding n using b by (metis of_nat_le_iff of_nat_numeral of_nat_power, metis of_nat_less_iff of_nat_numeral of_nat_power)
qed

lemma ilog2_bounds:
  assumes "0 < x"
  shows "2 powi ilog2 x \<le> x" and "x < 2 powi (ilog2 x + 1)"
proof -
  obtain n d where q: "quotient_of x = (n, d)" by (cases "quotient_of x")
  have d: "0 < d" and x: "x = of_int n / of_int d" using q quotient_of_denom_pos quotient_of_div by blast+
  then have n: "0 < n" using assms by (simp add: zero_less_divide_iff)
  define a b where "a = int (floorlog 2 (nat n))" and "b = int (floorlog 2 (nat d))"
  note N = floorlog_rat [OF n, folded a_def] and D = floorlog_rat [OF d, folded b_def]
  have dr: "(0 :: rat) < of_int d" using d by simp
  have "x < 2 powi (a - b + 1)"
  proof -
    have "of_int n < 2 powi (a - b + 1) * (2 powi (b - 1) :: rat)"
      using N(2) by (simp flip: power_int_add)
    also have "\<dots> \<le> 2 powi (a - b + 1) * of_int d" using D(1) by (intro mult_left_mono) simp_all
    finally show ?thesis unfolding x using dr by (simp add: pos_divide_less_eq)
  qed
  moreover have "2 powi (a - b - 1) \<le> x"
  proof -
    have "2 powi (a - b - 1) * of_int d \<le> 2 powi (a - b - 1) * (2 powi b :: rat)"
      using D(2) by (intro mult_left_mono) simp_all
    also have "\<dots> = 2 powi (a - 1)" by (simp flip: power_int_add)
    also have "\<dots> \<le> of_int n" by (rule N(1))
    finally show ?thesis unfolding x using dr by (simp add: pos_le_divide_eq)
  qed
  moreover have "ilog2 x = (if 2 powi (a - b) \<le> x then a - b else a - b - 1)"
    by (simp add: ilog2_def q a_def b_def Let_def)
  ultimately show "2 powi ilog2 x \<le> x" "x < 2 powi (ilog2 x + 1)" by (auto split: if_splits)
qed

lemma ilog2_mono:
  assumes "0 < x" "x \<le> y"
  shows "ilog2 x \<le> ilog2 y"
proof -
  have "(2 :: rat) powi ilog2 x < 2 powi (ilog2 y + 1)"
    using ilog2_bounds [of x] ilog2_bounds [of y] assms by linarith
  then show ?thesis by (simp add: powi_less_iff)
qed

lemma round_even_of_int [simp]: "round_even (of_int k) = k"
  by (simp add: round_even_def Let_def)

lemma round_even_mono:
  assumes "x \<le> y"
  shows "round_even x \<le> round_even y"
proof (cases "\<lfloor>x\<rfloor> = \<lfloor>y\<rfloor>")
  case True
  then show ?thesis using assms by (auto simp: round_even_def Let_def)
next
  case False
  then have "\<lfloor>x\<rfloor> + 1 \<le> \<lfloor>y\<rfloor>" using floor_mono [OF assms] by simp
  moreover have "round_even x \<le> \<lfloor>x\<rfloor> + 1" "\<lfloor>y\<rfloor> \<le> round_even y" by (auto simp: round_even_def Let_def)
  ultimately show ?thesis by linarith
qed

lemma powi_nat: "0 \<le> k \<Longrightarrow> (2 :: rat) powi k = of_int (2 ^ nat k)"
  by (simp add: power_int_def)

text \<open>Powers of two bound the rounded value from both sides.\<close>

lemma round_even_le_pow:
  assumes "x \<le> 2 powi m" "e \<le> m"
  shows "of_int (round_even (x / 2 powi e)) * 2 powi e \<le> (2 powi m :: rat)"
proof -
  have "x / 2 powi e \<le> 2 powi (m - e)" using assms(1) by (simp add: power_int_diff divide_right_mono)
  also have "\<dots> = of_int (2 ^ nat (m - e))" using assms(2) by (simp add: powi_nat)
  finally have "round_even (x / 2 powi e) \<le> 2 ^ nat (m - e)"
    using round_even_mono round_even_of_int by metis
  then have "(of_int (round_even (x / 2 powi e)) :: rat) \<le> 2 powi (m - e)"
    using assms(2) by (simp add: powi_nat)
  then have "(of_int (round_even (x / 2 powi e)) :: rat) * 2 powi e \<le> 2 powi (m - e) * 2 powi e"
    by (rule mult_right_mono) simp
  then show ?thesis by (simp flip: power_int_add)
qed

lemma round_even_ge_pow:
  assumes "2 powi m \<le> x" "e \<le> m"
  shows "(2 powi m :: rat) \<le> of_int (round_even (x / 2 powi e)) * 2 powi e"
proof -
  have "2 powi (m - e) \<le> x / 2 powi e" using assms(1) by (simp add: power_int_diff divide_right_mono)
  moreover have "(2 :: rat) powi (m - e) = of_int (2 ^ nat (m - e))" using assms(2) by (simp add: powi_nat)
  ultimately have "2 ^ nat (m - e) \<le> round_even (x / 2 powi e)"
    using round_even_mono round_even_of_int by metis
  then have "2 powi (m - e) \<le> (of_int (round_even (x / 2 powi e)) :: rat)"
    using assms(2) by (simp add: powi_nat)
  then have "2 powi (m - e) * 2 powi e \<le> (of_int (round_even (x / 2 powi e)) :: rat) * 2 powi e"
    by (rule mult_right_mono) simp
  then show ?thesis by (simp flip: power_int_add)
qed

theorem fl_mono_pos:
  assumes "0 < x" "x \<le> y" "1 \<le> p"
  shows "fl p emin x \<le> fl p emin y"
proof -
  define ex ey where "ex = max (ilog2 x - p + 1) emin" and "ey = max (ilog2 y - p + 1) emin"
  have y: "0 < y" using assms by linarith
  have fx: "fl p emin x = of_int (round_even (x / 2 powi ex)) * 2 powi ex"
    and fy: "fl p emin y = of_int (round_even (y / 2 powi ey)) * 2 powi ey"
    using assms(1) y by (simp_all add: fl_def ex_def ey_def Let_def)
  have le: "ilog2 x \<le> ilog2 y" by (rule ilog2_mono [OF assms(1,2)])
  show ?thesis
  proof (cases "ex = ey")
    case True
    have "round_even (x / 2 powi ey) \<le> round_even (y / 2 powi ey)"
      using assms(2) by (intro round_even_mono divide_right_mono) simp_all
    then show ?thesis unfolding fx fy True by (intro mult_right_mono) simp_all
  next
    case False
    with le have e: "ex < ey" "ey = ilog2 y - p + 1" "ilog2 x + 1 \<le> ilog2 y" by (auto simp: ex_def ey_def)
    have "x \<le> 2 powi ilog2 y"
      using ilog2_bounds(2) [OF assms(1)] e(3) powi_le_iff [of "ilog2 x + 1" "ilog2 y"] by linarith
    then have "fl p emin x \<le> 2 powi ilog2 y" unfolding fx using e assms(3) by (intro round_even_le_pow) simp_all
    also have "\<dots> \<le> fl p emin y"
      unfolding fy using ilog2_bounds(1) [OF y] e assms(3) by (intro round_even_ge_pow) simp_all
    finally show ?thesis .
  qed
qed

lemma fl_nonneg: "0 \<le> x \<Longrightarrow> 0 \<le> fl p emin x"
proof (cases "x = 0")
  case False
  assume "0 \<le> x"
  have "0 \<le> round_even (x / 2 powi e)" for e
    using round_even_mono [of 0 "x / 2 powi e"] round_even_of_int [of 0] \<open>0 \<le> x\<close> by simp
  then show ?thesis using False by (simp add: fl_def Let_def)
qed (simp add: fl_def)

lemma fl_mono: "0 \<le> x \<Longrightarrow> x \<le> y \<Longrightarrow> 1 \<le> p \<Longrightarrow> fl p emin x \<le> fl p emin y"
  using fl_mono_pos [of x y p emin] fl_nonneg [of y p emin] by (cases "x = 0") (simp_all add: fl_def [of p emin 0])

lemma float32_mono: "0 \<le> x \<Longrightarrow> x \<le> y \<Longrightarrow> float32 x \<le> float32 y"
  by (simp add: float32_def fl_mono)

lemma float64_mono: "0 \<le> x \<Longrightarrow> x \<le> y \<Longrightarrow> float64 x \<le> float64 y"
  by (simp add: float64_def fl_mono)

lemma float_nonneg: "0 \<le> x \<Longrightarrow> 0 \<le> float32 x" "0 \<le> x \<Longrightarrow> 0 \<le> float64 x"
  by (simp_all add: float32_def float64_def fl_nonneg)

lemma fl_exact:
  assumes "y = of_int k * 2 powi e" "\<bar>k\<bar> \<le> 2 ^ nat p" "emin \<le> e" "1 \<le> p"
  shows "fl p emin y = y"
proof (cases "y = 0")
  case False
  define ey where "ey = max (ilog2 \<bar>y\<bar> - p + 1) emin"
  have k: "k \<noteq> 0" and abs: "\<bar>y\<bar> = of_int \<bar>k\<bar> * 2 powi e" using False assms(1) by (auto simp: abs_mult)
  have p: "(2 :: rat) powi p = of_int (2 ^ nat p)" using assms(4) by (simp add: powi_nat)
  have "\<exists>j. y = of_int j * 2 powi ey"
  proof (cases "ey \<le> e")
    case True
    then have "(2 :: rat) powi e = of_int (2 ^ nat (e - ey)) * 2 powi ey"
      using powi_nat [of "e - ey"] power_int_add [of "2 :: rat" "e - ey" ey] by simp
    then have "y = of_int (k * 2 ^ nat (e - ey)) * 2 powi ey" by (simp add: assms(1))
    then show ?thesis by blast
  next
    case False
    then have "e + p \<le> ilog2 \<bar>y\<bar>" using assms(3) by (auto simp: ey_def)
    then have "2 powi (e + p) \<le> \<bar>y\<bar>"
      using ilog2_bounds(1) [of "\<bar>y\<bar>"] \<open>y \<noteq> 0\<close> powi_le_iff [of "e + p" "ilog2 \<bar>y\<bar>"] by simp
    then have "(2 :: rat) powi p \<le> of_int \<bar>k\<bar>" unfolding abs by (simp add: power_int_add)
    then have k2: "\<bar>k\<bar> = 2 ^ nat p" using assms(2) unfolding p by linarith
    then have "\<bar>y\<bar> = 2 powi (p + e)" using p unfolding abs by (simp add: power_int_add)
    then have "(2 :: rat) powi ilog2 \<bar>y\<bar> \<le> 2 powi (p + e)" "(2 :: rat) powi (p + e) < 2 powi (ilog2 \<bar>y\<bar> + 1)"
      using ilog2_bounds [of "\<bar>y\<bar>"] \<open>y \<noteq> 0\<close> by simp_all
    then have "ilog2 \<bar>y\<bar> = p + e" by (simp only: powi_le_iff powi_less_iff)
    then have "ey = e + 1" using False assms(3) by (simp add: ey_def)
    moreover have "even (2 ^ nat p :: int)" using assms(4) by simp
    then have "even k" unfolding k2 [symmetric] by simp
    ultimately have "y = of_int (k div 2) * 2 powi ey"
      using assms(1) by (auto simp: power_int_add elim!: evenE)
    then show ?thesis by blast
  qed
  then obtain j where j: "y = of_int j * 2 powi ey" by blast
  then have "y / 2 powi ey = of_int j" by simp
  then have "round_even (y / 2 powi ey) = j" by simp
  moreover have "fl p emin y = of_int (round_even (y / 2 powi ey)) * 2 powi ey"
    using False by (simp add: fl_def Let_def ey_def)
  ultimately show ?thesis using j by simp
qed (simp add: fl_def)

lemma fl_form:
  assumes "1 \<le> p"
  obtains k e where "fl p emin x = of_int k * 2 powi e" "\<bar>k\<bar> \<le> 2 ^ nat p" "emin \<le> e"
proof (cases "x = 0")
  case True
  then have "fl p emin x = of_int 0 * 2 powi emin" by (simp add: fl_def)
  then show ?thesis by (rule that) simp_all
next
  case False
  define e where "e = max (ilog2 \<bar>x\<bar> - p + 1) emin"
  have "\<bar>x\<bar> < 2 powi (e + p)"
  proof -
    have "ilog2 \<bar>x\<bar> + 1 \<le> e + p" by (simp add: e_def)
    then have "(2 :: rat) powi (ilog2 \<bar>x\<bar> + 1) \<le> 2 powi (e + p)" by (simp only: powi_le_iff)
    then show ?thesis using ilog2_bounds(2) [of "\<bar>x\<bar>"] False by simp
  qed
  then have "\<bar>x / 2 powi e\<bar> \<le> 2 powi p"
    by (simp add: power_int_add pos_divide_le_eq mult.commute)
  also have "(2 :: rat) powi p = of_int (2 ^ nat p)" using assms by (simp add: powi_nat)
  finally have "x / 2 powi e \<le> of_int (2 ^ nat p)" "of_int (- (2 ^ nat p)) \<le> x / 2 powi e"
    by (simp_all only: abs_le_iff of_int_minus minus_le_iff)
  then have "round_even (x / 2 powi e) \<le> 2 ^ nat p" "- (2 ^ nat p) \<le> round_even (x / 2 powi e)"
    using round_even_mono round_even_of_int by metis+
  then have "\<bar>round_even (x / 2 powi e)\<bar> \<le> 2 ^ nat p" by linarith
  moreover have "fl p emin x = of_int (round_even (x / 2 powi e)) * 2 powi e"
    using False by (simp add: fl_def e_def Let_def)
  moreover have "emin \<le> e" by (simp add: e_def)
  ultimately show ?thesis using that by blast
qed

lemma fl_idem: "1 \<le> p \<Longrightarrow> fl p emin (fl p emin x) = fl p emin x"
  by (rule fl_form [of p emin x]) (auto intro: fl_exact)

lemma fl_nonpos: "x \<le> 0 \<Longrightarrow> fl p emin x \<le> 0"
proof (cases "x = 0")
  case False
  assume "x \<le> 0"
  then have "x / 2 powi e \<le> 0" for e by (simp add: divide_le_0_iff)
  then have "round_even (x / 2 powi e) \<le> 0" for e
    using round_even_mono [of "x / 2 powi e" 0] round_even_of_int [of 0] by simp
  then show ?thesis using False by (simp add: fl_def Let_def mult_nonpos_nonneg)
qed (simp add: fl_def)

end
