(* ===== verification/Verification_Class.thy ===== *)
theory Verification_Class
  imports Go_Prelude
begin

text \<open>
  \<^verbatim>\<open>src/src/control/verification_class.go\<close>: the governed verification classes, how a task's
  class follows from its job's class and its probe and redundancy flags, and the stamp of a
  governed class on a compute plan. The two fields of the compute plan the code touches are a
  record that the rest of the plan extends.
\<close>

definition VerificationClassSampled :: string where "VerificationClassSampled = ''SAMPLED''"
definition VerificationClassRequired :: string where "VerificationClassRequired = ''REQUIRED''"
definition VerificationClassHoneypot :: string where "VerificationClassHoneypot = ''HONEYPOT''"
definition VerificationClassRedundant :: string where "VerificationClassRedundant = ''REDUNDANT''"
definition VerificationClassReplay :: string where "VerificationClassReplay = ''REPLAY''"
definition verificationClassPolicyRevision :: string where "verificationClassPolicyRevision = ''verify-class-v1''"

lemmas class_names = VerificationClassSampled_def VerificationClassRequired_def
  VerificationClassHoneypot_def VerificationClassRedundant_def VerificationClassReplay_def

definition knownVerificationClass :: "string \<Rightarrow> bool" where
  "knownVerificationClass cls \<longleftrightarrow> cls \<in> set [VerificationClassSampled, VerificationClassRequired,
     VerificationClassHoneypot, VerificationClassRedundant, VerificationClassReplay]"

definition verificationClassAlwaysChecked :: "string \<Rightarrow> bool" where
  "verificationClassAlwaysChecked cls \<longleftrightarrow> knownVerificationClass cls \<and> cls \<noteq> VerificationClassSampled"

definition jobSelectableVerificationClass :: "string \<Rightarrow> bool" where
  "jobSelectableVerificationClass cls \<longleftrightarrow>
     cls \<in> set [VerificationClassSampled, VerificationClassRequired, VerificationClassReplay]"

definition deriveTaskVerificationClass :: "string \<Rightarrow> bool \<Rightarrow> bool \<Rightarrow> string" where
  "deriveTaskVerificationClass jobClass isHoneypot isRedundancy =
     (if isHoneypot then VerificationClassHoneypot
      else if isRedundancy then VerificationClassRedundant
      else if jobSelectableVerificationClass jobClass then jobClass
      else VerificationClassSampled)"

definition validateTaskVerificationClass :: "string \<Rightarrow> bool \<Rightarrow> bool \<Rightarrow> unit result" where
  "validateTaskVerificationClass cls isHoneypot isRedundancy =
     (if \<not> knownVerificationClass cls then Inl (Msg ''unknown verification class'')
      else if deriveTaskVerificationClass cls isHoneypot isRedundancy \<noteq> cls
      then Inl (Msg ''task is labelled with another verification class than its flags make it'')
      else Inr ())"

record ComputePlan =
  VerificationClass :: string
  VerificationClassPolicy :: string

definition governComputePlanVerificationClass ::
    "'a ComputePlan_scheme \<Rightarrow> string \<Rightarrow> 'a ComputePlan_scheme result" where
  "governComputePlanVerificationClass plan cls =
     (if \<not> knownVerificationClass cls then Inl (Msg ''unknown verification class'')
      else if cls = VerificationClassHoneypot \<or> cls = VerificationClassRedundant
      then Inl (Msg ''verification class is assigned per task, not per job'')
      else Inr (plan\<lparr>VerificationClass := cls, VerificationClassPolicy := verificationClassPolicyRevision\<rparr>))"

section \<open>Properties\<close>

text \<open>
  Classes are governed consistently. A job class is accepted for a compute plan exactly
  when it can be a job's class, and the plan changes in its class and policy only. The class
  derived for a task always validates with the task's flags; another label validates only on
  an unflagged task, and only if it can be a job's class. The derived class removes the coin
  flip exactly when the task is a probe, a redundant execution, or of a job governed as required or replay.
\<close>

theorem verification_class_governed:
  "(governComputePlanVerificationClass plan cls = Inr plan' \<longleftrightarrow>
      jobSelectableVerificationClass cls \<and>
      plan' = plan\<lparr>VerificationClass := cls, VerificationClassPolicy := verificationClassPolicyRevision\<rparr>) \<and>
   (let t = deriveTaskVerificationClass cls hp rd in
      validateTaskVerificationClass t hp rd = Inr () \<and>
      (validateTaskVerificationClass other hp rd = Inr () \<longleftrightarrow>
         other = t \<or> \<not> hp \<and> \<not> rd \<and> jobSelectableVerificationClass other) \<and>
      (verificationClassAlwaysChecked t \<longleftrightarrow>
         hp \<or> rd \<or> cls = VerificationClassRequired \<or> cls = VerificationClassReplay))"
  by (auto simp: governComputePlanVerificationClass_def deriveTaskVerificationClass_def Let_def
      validateTaskVerificationClass_def verificationClassAlwaysChecked_def knownVerificationClass_def
      jobSelectableVerificationClass_def class_names)

end
