(* ===== verification/Reputation.thy ===== *)
theory Reputation
  imports Go_Float Verification_Class
begin

text \<open>
  \<^verbatim>\<open>src/src/control/reputation.go\<close> and the part of \<^verbatim>\<open>verification.go\<close> that turns a reputation into
  a check probability. Reputations are \<^verbatim>\<open>float32\<close>, probabilities \<^verbatim>\<open>float64\<close>, both as in
  \<^verbatim>\<open>Go_Float\<close>. A \<^verbatim>\<open>ReputationEvent\<close> is a string; \<^verbatim>\<open>EventOther\<close> stands for the strings that are
  none of the named events.
\<close>

datatype ReputationEvent = EventTaskSuccess | EventHoneypotPass | EventRedundancyMatch | EventMismatch
  | EventHoneypotFail | EventTimeout | EventThermalThrottle | EventResultCorrupt | EventArtifactOversize
  | EventSpoofingDetected | EventOther string

fun reputationDelta :: "ReputationEvent \<Rightarrow> rat" where
  "reputationDelta EventTaskSuccess = float32 (1 / 1000)"
| "reputationDelta EventHoneypotPass = float32 (2 / 1000)"
| "reputationDelta EventRedundancyMatch = float32 (1 / 1000)"
| "reputationDelta EventMismatch = float32 (- 100 / 1000)"
| "reputationDelta EventHoneypotFail = float32 (- 150 / 1000)"
| "reputationDelta EventTimeout = float32 (- 20 / 1000)"
| "reputationDelta EventThermalThrottle = float32 (- 5 / 1000)"
| "reputationDelta EventResultCorrupt = float32 (- 200 / 1000)"
| "reputationDelta EventArtifactOversize = float32 (- 200 / 1000)"
| "reputationDelta EventSpoofingDetected = float32 (- 1)"
| "reputationDelta (EventOther s) = 0"

definition updateReputation :: "rat \<Rightarrow> ReputationEvent \<Rightarrow> rat" where
  "updateReputation current event =
     (let v = float32 (current + reputationDelta event) in if v < 0 then 0 else if 1 < v then 1 else v)"

definition reputationTier :: "rat \<Rightarrow> 64 word \<Rightarrow> nat" where
  "reputationTier rep jobsCompleted =
     (if float32 (9 / 10) \<le> rep \<and> 5000 \<le> jobsCompleted then 3
      else if float32 (8 / 10) \<le> rep \<and> 500 \<le> jobsCompleted then 2
      else if float32 (6 / 10) \<le> rep \<and> 100 \<le> jobsCompleted then 1 else 0)"

section \<open>The check probability\<close>

text \<open>
  The untyped constants \<^verbatim>\<open>verifyTrustFloor\<close> and \<^verbatim>\<open>verifyCheckProbFloor\<close> take the type of their
  use: the comparison and the first difference are in \<^verbatim>\<open>float32\<close>, the constant
  \<^verbatim>\<open>1.0-verifyTrustFloor\<close> is exact and then rounded, and the rest is in \<^verbatim>\<open>float64\<close>.
  \<^verbatim>\<open>rep\<close> is \<^const>\<open>None\<close> when the committing worker is not among the candidates.
\<close>

definition verifyTrustFloor :: rat where "verifyTrustFloor = 9 / 10"
definition verifyCheckProbFloor :: rat where "verifyCheckProbFloor = 1 / 4"

definition reputationCheckProb :: "rat \<Rightarrow> rat" where
  "reputationCheckProb rep0 =
     (let rep = (if 1 < rep0 then 1 else rep0);
          frac = float64 (float32 (rep - float32 verifyTrustFloor) / float64 (1 - verifyTrustFloor));
          prob = float64 (1 - float64 (frac * (1 - verifyCheckProbFloor)))
      in if prob < verifyCheckProbFloor then verifyCheckProbFloor else prob)"

definition checkProbOf :: "string \<Rightarrow> rat option \<Rightarrow> rat" where
  "checkProbOf cls rep =
     (if verificationClassAlwaysChecked cls then 1
      else case rep of None \<Rightarrow> 1
        | Some r \<Rightarrow> if r \<le> float32 verifyTrustFloor then 1 else reputationCheckProb r)"

definition checkSampledAt :: "rat \<Rightarrow> rat \<Rightarrow> bool" where
  "checkSampledAt sample prob = (if 1 \<le> prob \<or> prob \<le> 0 then True else sample < prob)"

section \<open>Lemmas\<close>

definition is_float32 :: "rat \<Rightarrow> bool" where "is_float32 x \<longleftrightarrow> float32 x = x"

lemma is_float32_round [simp]: "is_float32 (float32 x)"
  by (simp add: is_float32_def float32_def fl_idem)

lemma is_float32_0_1: "is_float32 0" "is_float32 1"
  by (simp add: is_float32_def float32_def fl_def) (simp only: is_float32_def, code_simp)

lemma float64_1: "float64 1 = 1"
  by code_simp

lemma updateReputation_float32: "is_float32 (updateReputation r e)"
  by (simp add: updateReputation_def Let_def is_float32_0_1)

lemma updateReputation_range: "0 \<le> updateReputation r e \<and> updateReputation r e \<le> 1"
  by (simp add: updateReputation_def Let_def not_less)

lemma updateReputation_up:
  assumes "is_float32 r" "0 \<le> r" "r \<le> 1" "0 \<le> reputationDelta e"
  shows "r \<le> updateReputation r e"
proof -
  have "float32 r \<le> float32 (r + reputationDelta e)" using assms by (intro float32_mono) simp_all
  then show ?thesis using assms by (simp add: updateReputation_def Let_def is_float32_def)
qed

lemma updateReputation_down:
  assumes "is_float32 r" "0 \<le> r" "r \<le> 1" "reputationDelta e \<le> 0"
  shows "updateReputation r e \<le> r"
proof (cases "0 \<le> r + reputationDelta e")
  case True
  then have "float32 (r + reputationDelta e) \<le> float32 r" using assms by (intro float32_mono) simp_all
  then show ?thesis using assms by (simp add: updateReputation_def Let_def is_float32_def)
next
  case False
  then have "float32 (r + reputationDelta e) \<le> 0" unfolding float32_def by (intro fl_nonpos) simp
  then show ?thesis using assms by (simp add: updateReputation_def Let_def)
qed

lemma updateReputation_mono:
  assumes "r \<le> q" shows "updateReputation r e \<le> updateReputation q e"
proof (cases "0 \<le> r + reputationDelta e")
  case True
  then have "float32 (r + reputationDelta e) \<le> float32 (q + reputationDelta e)" using assms by (intro float32_mono) simp_all
  then show ?thesis by (simp add: updateReputation_def Let_def)
next
  case False
  then have "float32 (r + reputationDelta e) \<le> 0" unfolding float32_def by (intro fl_nonpos) simp
  then have "updateReputation r e = 0" by (auto simp: updateReputation_def Let_def)
  then show ?thesis using updateReputation_range [of q e] by simp
qed

lemma tier_thresholds: "0 < float32 (6 / 10)" "float32 (6 / 10) \<le> float32 (8 / 10)" "float32 (8 / 10) \<le> float32 (9 / 10)"
  by code_simp+

lemma reputationTier_mono:
  assumes "r \<le> q" "n \<le> m" shows "reputationTier r n \<le> reputationTier q m"
  using assms tier_thresholds by (auto simp: reputationTier_def)

text \<open>The three ways an event moves a reputation.\<close>

definition rewarding :: "ReputationEvent \<Rightarrow> bool" where
  "rewarding e \<longleftrightarrow> e \<in> {EventTaskSuccess, EventHoneypotPass, EventRedundancyMatch}"

definition neutral :: "ReputationEvent \<Rightarrow> bool" where
  "neutral e \<longleftrightarrow> (\<exists>s. e = EventOther s)"

lemma reputationDelta_sign:
  "rewarding e \<Longrightarrow> 0 < reputationDelta e" "neutral e \<Longrightarrow> reputationDelta e = 0"
  "\<not> rewarding e \<Longrightarrow> \<not> neutral e \<Longrightarrow> reputationDelta e < 0"
proof -
  have pos: "0 < float32 (1 / 1000)" "0 < float32 (2 / 1000)" by code_simp+
  have neg: "float32 (- 100 / 1000) < 0" "float32 (- 150 / 1000) < 0" "float32 (- 20 / 1000) < 0"
    "float32 (- 5 / 1000) < 0" "float32 (- 200 / 1000) < 0" "float32 (- 1) < 0" by code_simp+
  show "rewarding e \<Longrightarrow> 0 < reputationDelta e" using pos by (auto simp: rewarding_def)
  show "neutral e \<Longrightarrow> reputationDelta e = 0" by (auto simp: neutral_def)
  show "\<not> rewarding e \<Longrightarrow> \<not> neutral e \<Longrightarrow> reputationDelta e < 0"
    using neg by (cases e) (auto simp: rewarding_def neutral_def)
qed

text \<open>The fraction of the trusted range a reputation has reached, and its bound.\<close>

definition trust_frac :: "rat \<Rightarrow> rat" where
  "trust_frac r = float64 (float32 ((if 1 < r then 1 else r) - float32 verifyTrustFloor) / float64 (1 - verifyTrustFloor))"

lemma one_ge_floor: "float32 verifyTrustFloor \<le> 1" "0 < float64 (1 - verifyTrustFloor)"
  by code_simp+

lemma trust_frac_bounds:
  assumes "float32 verifyTrustFloor \<le> r" "r \<le> r'"
  shows "0 \<le> trust_frac r" "trust_frac r \<le> trust_frac r'" "trust_frac r' \<le> trust_frac 1"
proof -
  define clip where "clip r = (if 1 < r then 1 else r :: rat)" for r
  have one: "float32 verifyTrustFloor \<le> 1" "0 < float64 (1 - verifyTrustFloor)" using one_ge_floor by auto
  have step: "0 \<le> trust_frac a \<and> trust_frac a \<le> trust_frac b" if "float32 verifyTrustFloor \<le> clip a" "clip a \<le> clip b" for a b
  proof -
    have "0 \<le> float32 (clip a - float32 verifyTrustFloor)"
      "float32 (clip a - float32 verifyTrustFloor) \<le> float32 (clip b - float32 verifyTrustFloor)"
      using that by (simp_all add: float_nonneg float32_mono)
    then show ?thesis
      unfolding trust_frac_def clip_def [symmetric] using one(2)
      by (simp add: float_nonneg(2) float64_mono divide_right_mono)
  qed
  have "float32 verifyTrustFloor \<le> clip r" "clip r \<le> clip r'" "float32 verifyTrustFloor \<le> clip r'" "clip r' \<le> clip 1"
    using assms one by (auto simp: clip_def)
  then show "0 \<le> trust_frac r" "trust_frac r \<le> trust_frac r'" "trust_frac r' \<le> trust_frac 1"
    using step by blast+
qed

lemma trust_frac_1: "trust_frac 1 \<le> 5 / 4"
proof -
  have "(57 / 64 :: rat) = float32 (57 / 64)" by code_simp
  also have "\<dots> \<le> float32 verifyTrustFloor" by (rule float32_mono) (simp_all add: verifyTrustFloor_def)
  finally have "float32 (1 - float32 verifyTrustFloor) \<le> float32 (7 / 64)"
    using one_ge_floor by (intro float32_mono) simp_all
  also have "\<dots> = 7 / 64" by code_simp
  finally have num: "float32 (1 - float32 verifyTrustFloor) \<le> 7 / 64" .
  have "(3 / 32 :: rat) = float64 (3 / 32)" by code_simp
  also have "\<dots> \<le> float64 (1 - verifyTrustFloor)" by (rule float64_mono) (simp_all add: verifyTrustFloor_def)
  finally have den: "3 / 32 \<le> float64 (1 - verifyTrustFloor)" .
  have "float32 (1 - float32 verifyTrustFloor) / float64 (1 - verifyTrustFloor) \<le> (7 / 64) / (3 / 32)"
    using num den by (intro frac_le) simp_all
  then have "trust_frac 1 \<le> float64 (5 / 4)"
    unfolding trust_frac_def using one_ge_floor den by (intro float64_mono) (simp_all add: float_nonneg)
  also have "\<dots> = 5 / 4" by code_simp
  finally show ?thesis .
qed

lemma reputationCheckProb_alt:
  "reputationCheckProb r = max (1 / 4) (float64 (1 - float64 (trust_frac r * (3 / 4))))"
  by (simp add: reputationCheckProb_def trust_frac_def verifyCheckProbFloor_def max_def Let_def)

lemma trusted_term:
  assumes "float32 verifyTrustFloor \<le> r" "r \<le> r'"
  shows "float64 (trust_frac r * (3 / 4)) \<le> float64 (trust_frac r' * (3 / 4))"
    and "0 \<le> float64 (trust_frac r * (3 / 4))" and "float64 (trust_frac r' * (3 / 4)) \<le> 1"
proof -
  note b = trust_frac_bounds [OF assms]
  show "float64 (trust_frac r * (3 / 4)) \<le> float64 (trust_frac r' * (3 / 4))" "0 \<le> float64 (trust_frac r * (3 / 4))"
    using b by (auto intro!: float64_mono float_nonneg)
  have "float64 (trust_frac r' * (3 / 4)) \<le> float64 (15 / 16)"
    using b trust_frac_1 by (intro float64_mono) simp_all
  also have "\<dots> \<le> 1" by code_simp
  finally show "float64 (trust_frac r' * (3 / 4)) \<le> 1" .
qed

lemma reputationCheckProb_antitone:
  assumes "float32 verifyTrustFloor \<le> r" "r \<le> r'"
  shows "reputationCheckProb r' \<le> reputationCheckProb r"
proof -
  have "float64 (1 - float64 (trust_frac r' * (3 / 4))) \<le> float64 (1 - float64 (trust_frac r * (3 / 4)))"
    using trusted_term [OF assms] by (intro float64_mono) simp_all
  then show ?thesis unfolding reputationCheckProb_alt by (rule max.mono [OF order_refl])
qed

lemma reputationCheckProb_range:
  assumes "float32 verifyTrustFloor \<le> r"
  shows "1 / 4 \<le> reputationCheckProb r \<and> reputationCheckProb r \<le> 1"
proof -
  have "float64 (1 - float64 (trust_frac r * (3 / 4))) \<le> float64 1"
    using trusted_term [OF assms order_refl] by (intro float64_mono) simp_all
  then show ?thesis by (simp add: reputationCheckProb_alt float64_1)
qed

lemma checkProb_range: "1 / 4 \<le> checkProbOf cls rep \<and> checkProbOf cls rep \<le> 1"
proof (cases "verificationClassAlwaysChecked cls \<or> rep = None \<or> the rep \<le> float32 verifyTrustFloor")
  case True
  then have "checkProbOf cls rep = 1" by (cases rep) (auto simp: checkProbOf_def)
  then show ?thesis by simp
next
  case False
  then have "checkProbOf cls rep = reputationCheckProb (the rep)" by (auto simp: checkProbOf_def)
  then show ?thesis using reputationCheckProb_range [of "the rep"] False by auto
qed

section \<open>Properties\<close>

text \<open>
  C29. A reputation that starts as a \<^verbatim>\<open>float32\<close> between 0 and 1 stays one through any history of
  events, and each event moves it the right way in spite of rounding: success, a passed probe
  and a redundancy match never lower it, a misconduct or failure event never raises it, and
  detected spoofing leaves exactly 0 and the lowest tier. A better reputation stays better
  under the same event, and with it and with more completed jobs the tier never falls.
\<close>

theorem reputation_history:
  assumes "is_float32 r" "0 \<le> r" "r \<le> 1" "r' = fold (\<lambda>e r. updateReputation r e) es r"
  shows "is_float32 r' \<and> 0 \<le> r' \<and> r' \<le> 1 \<and>
    (rewarding e \<longrightarrow> r' \<le> updateReputation r' e) \<and>
    (\<not> rewarding e \<and> \<not> neutral e \<longrightarrow> updateReputation r' e \<le> r') \<and>
    updateReputation r' EventSpoofingDetected = 0 \<and>
    reputationTier (updateReputation r' EventSpoofingDetected) jobs = 0 \<and>
    (r' \<le> q \<and> jobs \<le> jobs' \<longrightarrow>
       updateReputation r' e \<le> updateReputation q e \<and> reputationTier r' jobs \<le> reputationTier q jobs')"
proof -
  have inv: "is_float32 r' \<and> 0 \<le> r' \<and> r' \<le> 1"
    unfolding assms(4) using assms(1-3)
    by (induction es arbitrary: r) (simp_all add: updateReputation_float32 updateReputation_range)
  moreover have zero: "updateReputation r' EventSpoofingDetected = 0"
  proof -
    have "reputationDelta EventSpoofingDetected = - 1" by code_simp
    then have "float32 (r' + reputationDelta EventSpoofingDetected) \<le> 0"
      using inv unfolding float32_def by (intro fl_nonpos) simp
    then show ?thesis by (auto simp: updateReputation_def Let_def)
  qed
  moreover have "reputationTier (updateReputation r' EventSpoofingDetected) jobs = 0"
    using tier_thresholds by (auto simp: zero reputationTier_def)
  ultimately show ?thesis
    using updateReputation_up [of r' e] updateReputation_down [of r' e] reputationDelta_sign [of e]
      updateReputation_mono [of r' q e] reputationTier_mono [of r' q jobs jobs']
    by (meson less_imp_le)
qed

theorem reputation_history_witness:
  "updateReputation (fold (\<lambda>e r. updateReputation r e) [EventMismatch, EventTaskSuccess] (1 / 2)) EventSpoofingDetected = 0"
proof -
  have "is_float32 (1 / 2)" by code_simp
  then show ?thesis
    using reputation_history [of "1 / 2", OF _ _ _ refl, of "[EventMismatch, EventTaskSuccess]"]
    by (simp only: divide_le_eq_1) simp
qed

text \<open>
  The check probability never leaves the range from a quarter to one. It is one for a
  governed class, for a worker that cannot be found and at or below the trust floor; above it
  a better reputation never raises it. A sample drawn below the probability is checked, and a
  probability of one always is.
\<close>

theorem check_probability_governed:
  "1 / 4 \<le> checkProbOf cls rep \<and> checkProbOf cls rep \<le> 1 \<and>
   (verificationClassAlwaysChecked cls \<or> rep = None \<or> (\<exists>r. rep = Some r \<and> r \<le> float32 (9 / 10)) \<longrightarrow>
      checkProbOf cls rep = 1 \<and> checkSampledAt sample (checkProbOf cls rep)) \<and>
   (r \<le> r' \<longrightarrow> checkProbOf cls (Some r') \<le> checkProbOf cls (Some r)) \<and>
   (checkSampledAt sample (checkProbOf cls rep) \<longleftrightarrow> checkProbOf cls rep = 1 \<or> sample < checkProbOf cls rep)"
proof -
  have "checkProbOf cls (Some r') \<le> checkProbOf cls (Some r)" if "r \<le> r'"
  proof (cases "r \<le> float32 verifyTrustFloor")
    case True
    then have "checkProbOf cls (Some r) = 1" by (simp add: checkProbOf_def)
    then show ?thesis using checkProb_range [of cls "Some r'"] by simp
  next
    case False
    then show ?thesis using that reputationCheckProb_antitone by (auto simp: checkProbOf_def)
  qed
  moreover have "checkProbOf cls rep = 1"
    if "verificationClassAlwaysChecked cls \<or> rep = None \<or> (\<exists>r. rep = Some r \<and> r \<le> float32 (9 / 10))"
    using that by (auto simp: checkProbOf_def verifyTrustFloor_def)
  moreover have "checkSampledAt sample p \<longleftrightarrow> p = 1 \<or> sample < p" if "1 / 4 \<le> p" "p \<le> 1" for p
    using that by (auto simp: checkSampledAt_def)
  ultimately show ?thesis using checkProb_range [of cls rep] by blast
qed

theorem check_probability_governed_witness:
  "checkProbOf ''SAMPLED'' (Some 1) \<le> checkProbOf ''SAMPLED'' (Some (95 / 100))"
proof -
  have "(95 / 100 :: rat) \<le> 1" by simp
  then show ?thesis using check_probability_governed [of "''SAMPLED''" None 0 "95 / 100" 1] by blast
qed

end
