(* ===== verification/Verification_Plan.thy ===== *)
theory Verification_Plan
  imports Votes Reputation Currency
begin

text \<open>
  The verification planner: \<^verbatim>\<open>verifyTaskResult\<close> and what it calls in
  \<^verbatim>\<open>src/src/control/verification.go\<close>, the recording store and \<^verbatim>\<open>PlanTaskResult\<close> of
  \<^verbatim>\<open>verification_plan.go\<close>, the decisions for unusable artifacts of \<^verbatim>\<open>verification_processor.go\<close>
  and \<^verbatim>\<open>result_validation.go\<close>, and the shape check of \<^verbatim>\<open>verification_apply.go\<close> that every
  decision passes before it is stored or applied.

  The interface \<^verbatim>\<open>verificationStore\<close> is a record of functions on a store state \<open>'s\<close>: reads
  return a value, writes return an error or none and the next state. The object storage, the
  embedding comparator, HMAC-SHA256, \<^verbatim>\<open>uuid.NewSHA1\<close> under the effect namespace and the JSON
  form of an effect are parameters. The strings that are none of the named constants of an
  enumeration are its last constructor. The tie-break counter of the metrics is left out.
\<close>

section \<open>Data\<close>

datatype VerifyOutcome = OutcomePass | OutcomeFail | OutcomePassWithPenalty | OutcomeLossNoPayout
  | OutcomeOther string

datatype VerificationEffectKind = EffectDockReputation | EffectRecordEvent | EffectClawbackCredit
  | EffectQuarantine | EffectRequeue | EffectInsertTiebreak | EffectOther string

record VerificationEffect =
  ve_ID :: uuid
  ve_Kind :: VerificationEffectKind
  ve_JobID :: uuid
  ve_TaskID :: uuid
  ve_SupplierID :: uuid
  ve_ReputationEvent :: ReputationEvent
  ve_EventKind :: string
  ve_PeerWorkerID :: uuid
  ve_PrimaryTaskID :: uuid
  ve_InputRef :: string
  ve_ChunkIndex :: int

definition no_effect :: "VerificationEffectKind \<Rightarrow> VerificationEffect" where
  "no_effect k = \<lparr>ve_ID = 0, ve_Kind = k, ve_JobID = 0, ve_TaskID = 0, ve_SupplierID = 0,
     ve_ReputationEvent = EventOther [], ve_EventKind = [], ve_PeerWorkerID = 0, ve_PrimaryTaskID = 0,
     ve_InputRef = [], ve_ChunkIndex = 0\<rparr>"

record VerificationFailure =
  vf_Kind :: string
  vf_Code :: string
  vf_JobType :: string

record VerificationDecision =
  vd_Outcome :: VerifyOutcome
  vd_Effects :: "VerificationEffect list"
  vd_Failure :: "VerificationFailure option"

record VerificationArtifact =
  va_Key :: string
  va_SHA256 :: string
  va_Bytes :: int64

record ChunkResult =
  cr_TaskID :: uuid
  cr_WorkerID :: uuid
  cr_SupplierID :: uuid
  cr_ResultRef :: string
  cr_Artifact :: "VerificationArtifact option"
  cr_Engine :: string
  cr_BuildHash :: string
  cr_BuildIdentityPolicy :: string

record MatchWorker =
  mw_ID :: uuid
  mw_Reputation :: rat

record CommitTaskInfo =
  ti_TaskID :: uuid
  ti_JobID :: uuid
  ti_WorkerID :: uuid
  ti_SupplierID :: uuid
  ti_IsHoneypot :: bool
  ti_IsRedundancy :: bool
  ti_VerificationClass :: string
  ti_engine :: string
  ti_buildHash :: string
  ti_buildIdentityPolicy :: string
  ti_jobType :: string
  ti_resultMaxBytes :: int64
  ti_InputRef :: string
  ti_ModelRef :: string
  ti_MinMemoryGB :: rat
  ti_ChunkIndex :: int
  ti_Attempt :: "16 word"
  ti_ResultSHA256 :: string
  ti_verificationCheckSampled :: "bool option"
  ti_peerSupplierID :: uuid
  ti_peerEngine :: string
  ti_peerBuildHash :: string
  ti_peerBuildIdentityPolicy :: string

record externs =
  x_CompareEmbeddings :: "bytes \<Rightarrow> bytes \<Rightarrow> bool"
  x_hmac_sha256 :: "bytes \<Rightarrow> bytes \<Rightarrow> bytes"
  x_NewSHA1 :: "bytes \<Rightarrow> uuid"
  x_json :: "VerificationEffect \<Rightarrow> bytes"

record Storage =
  readSealedVerificationArtifactWithLimit :: "VerificationArtifact \<Rightarrow> int64 \<Rightarrow> bytes result"
  readVerificationObjectBounded :: "string \<Rightarrow> int64 \<Rightarrow> bytes result"

record 's verificationStore =
  GetHoneypotAnswer :: "'s \<Rightarrow> string \<Rightarrow> string \<Rightarrow> (bytes option \<times> string) \<times> go_error option"
  CandidateWorkers :: "'s \<Rightarrow> string \<Rightarrow> string \<Rightarrow> rat \<Rightarrow> MatchWorker list result"
  ChunkResults :: "'s \<Rightarrow> uuid \<Rightarrow> int \<Rightarrow> ChunkResult list result"
  TiebreakExists :: "'s \<Rightarrow> uuid \<Rightarrow> int \<Rightarrow> bool result"
  SelectRedundancyPeerExcluding ::
    "'s \<Rightarrow> uuid \<Rightarrow> uuid \<Rightarrow> string \<Rightarrow> string \<Rightarrow> rat \<Rightarrow> uuid \<Rightarrow> uuid list \<Rightarrow> uuid list \<Rightarrow> uuid result"
  DockReputation :: "uuid \<Rightarrow> ReputationEvent \<Rightarrow> 's \<Rightarrow> go_error option \<times> 's"
  RecordVerificationEvent :: "uuid \<Rightarrow> uuid \<Rightarrow> uuid \<Rightarrow> string \<Rightarrow> 's \<Rightarrow> go_error option \<times> 's"
  ClawbackTaskCredit :: "uuid \<Rightarrow> uuid \<Rightarrow> 's \<Rightarrow> go_error option \<times> 's"
  QuarantineSupplier :: "uuid \<Rightarrow> 's \<Rightarrow> go_error option \<times> 's"
  RequeueTask :: "uuid \<Rightarrow> 's \<Rightarrow> go_error option \<times> 's"
  InsertTiebreakTask :: "uuid \<Rightarrow> uuid \<Rightarrow> uuid \<Rightarrow> string \<Rightarrow> int \<Rightarrow> 's \<Rightarrow> uuid result \<times> 's"

record 's Verifier =
  v_store :: "'s verificationStore"
  v_storage :: "Storage option"
  v_sampleSecret :: bytes

abbreviation "errNotFound \<equiv> Sentinel ''errNotFound''"
abbreviation "ErrNoSupply \<equiv> Sentinel ''ErrNoSupply''"
abbreviation "errNoIndependentSupplier \<equiv> Sentinel ''errNoIndependentSupplier''"

section \<open>Sampling\<close>

definition be_bytes :: "nat \<Rightarrow> 'a::len word \<Rightarrow> bytes" where
  "be_bytes n w = map (\<lambda>i. ucast (drop_bit (8 * (n - 1 - i)) w)) [0..<n]"

definition str_bytes :: "string \<Rightarrow> bytes" where "str_bytes s = map of_char s"

definition taskSample :: "externs \<Rightarrow> bytes \<Rightarrow> uuid \<Rightarrow> rat" where
  "taskSample X secret task =
     (let mac = x_hmac_sha256 X secret (str_bytes ''cx/verification-sample/v1'' @ [0] @ be_bytes 16 task);
          hi = fold (\<lambda>b acc. acc * 256 + unat b) (take 8 mac) 0
      in float64 (float64 (of_nat hi) / 2 ^ 64))"

definition checkSampled :: "externs \<Rightarrow> 's Verifier \<Rightarrow> uuid \<Rightarrow> rat \<Rightarrow> bool" where
  "checkSampled X v task prob = checkSampledAt (taskSample X (v_sampleSecret v) task) prob"

definition committingReputation :: "'s Verifier \<Rightarrow> CommitTaskInfo \<Rightarrow> 's \<Rightarrow> rat option" where
  "committingReputation v info s =
     (if ti_WorkerID info = 0 then None
      else case CandidateWorkers (v_store v) s (ti_jobType info) (ti_ModelRef info) (ti_MinMemoryGB info) of
          Inl _ \<Rightarrow> None
        | Inr cands \<Rightarrow> map_option mw_Reputation (find (\<lambda>c. mw_ID c = ti_WorkerID info) cands))"

definition effectiveCheckProb :: "'s Verifier \<Rightarrow> CommitTaskInfo \<Rightarrow> 's \<Rightarrow> rat" where
  "effectiveCheckProb v info s = checkProbOf (ti_VerificationClass info) (committingReputation v info s)"

definition checkSelected :: "externs \<Rightarrow> 's Verifier \<Rightarrow> CommitTaskInfo \<Rightarrow> 's \<Rightarrow> bool" where
  "checkSelected X v info s =
     (case ti_verificationCheckSampled info of
        Some b \<Rightarrow> b
      | None \<Rightarrow> checkSampled X v (ti_TaskID info) (effectiveCheckProb v info s))"

section \<open>Verifying a result\<close>

text \<open>
  A handler ends with an outcome and an error or none, and the state its writes left.
  \<^verbatim>\<open>effect_then\<close> is the idiom \<^verbatim>\<open>if err := write(); err != nil { return outcome, err }\<close>.
\<close>

type_synonym 's verdict = "(VerifyOutcome \<times> go_error option) \<times> 's"

definition verdict :: "VerifyOutcome \<Rightarrow> 's \<Rightarrow> 's verdict" where
  "verdict out s = ((out, None), s)"

definition effect_then :: "('s \<Rightarrow> go_error option \<times> 's) \<Rightarrow> VerifyOutcome \<Rightarrow> ('s \<Rightarrow> 's verdict) \<Rightarrow> 's \<Rightarrow> 's verdict" where
  "effect_then write out k s =
     (case write s of (Some e, s') \<Rightarrow> ((out, Some e), s') | (None, s') \<Rightarrow> k s')"

definition record_event :: "'s Verifier \<Rightarrow> CommitTaskInfo \<Rightarrow> string \<Rightarrow> 's \<Rightarrow> go_error option \<times> 's" where
  "record_event v info kind =
     RecordVerificationEvent (v_store v) (ti_JobID info) (ti_TaskID info) (ti_SupplierID info) kind"

definition dock :: "'s Verifier \<Rightarrow> CommitTaskInfo \<Rightarrow> ReputationEvent \<Rightarrow> 's \<Rightarrow> go_error option \<times> 's" where
  "dock v info event = DockReputation (v_store v) (ti_SupplierID info) event"

text \<open>The five consequences of a failed probe, on a class mismatch and on a wrong answer.\<close>

definition honeypot_penalty :: "'s Verifier \<Rightarrow> CommitTaskInfo \<Rightarrow> uuid \<Rightarrow> string \<Rightarrow> 's \<Rightarrow> 's verdict" where
  "honeypot_penalty v info commitTask kind =
     effect_then (dock v info EventHoneypotFail) OutcomeFail
     (effect_then (record_event v info kind) OutcomeFail
     (effect_then (ClawbackTaskCredit (v_store v) (ti_SupplierID info) (ti_TaskID info)) OutcomeFail
     (effect_then (QuarantineSupplier (v_store v) (ti_SupplierID info)) OutcomeFail
     (effect_then (RequeueTask (v_store v) commitTask) OutcomeFail
      (verdict OutcomeFail)))))"

definition verify_honeypot :: "externs \<Rightarrow> 's Verifier \<Rightarrow> CommitTaskInfo \<Rightarrow> uuid \<Rightarrow> bytes \<Rightarrow> ('s \<Rightarrow> 's verdict) \<Rightarrow> 's \<Rightarrow> 's verdict" where
  "verify_honeypot X v info commitTask commitBytes fall_through s =
     (case GetHoneypotAnswer (v_store v) s (ti_jobType info) (ti_InputRef info) of
        ((known, answerClass), err) \<Rightarrow>
          if (case err of None \<Rightarrow> False | Some e \<Rightarrow> \<not> errors_Is e errNotFound)
          then ((OutcomeFail, err), s)
          else case known of
            None \<Rightarrow> effect_then (record_event v info ''honeypot_answer_missing'') OutcomeFail (verdict OutcomeFail) s
          | Some answer \<Rightarrow>
              if byteExactJobType (ti_jobType info) \<and> answerClass \<noteq> [] \<and>
                answerClass \<noteq> classKey (ti_engine info) (ti_buildHash info) [ti_buildIdentityPolicy info]
              then honeypot_penalty v info commitTask ''honeypot_class_mismatch'' s
              else if byteHoneypotComparable (ti_jobType info) answerClass (ti_engine info) (ti_buildHash info)
                [ti_buildIdentityPolicy info]
              then (if \<not> resultsAgree (x_CompareEmbeddings X) (ti_jobType info) commitBytes answer
                    then honeypot_penalty v info commitTask ''honeypot_fail'' s
                    else effect_then (dock v info EventHoneypotPass) OutcomePass
                      (effect_then (record_event v info ''honeypot_pass'') OutcomePass
                        (verdict OutcomePass)) s)
              else fall_through s)"

text \<open>Votes on the chunk, with the committing one in hand.\<close>

definition verificationArtifactAbsoluteMaxBytes :: int64 where
  "verificationArtifactAbsoluteMaxBytes = 72 * 2 ^ 20"

definition committing_vote :: "CommitTaskInfo \<Rightarrow> bytes \<Rightarrow> chunkVote" where
  "committing_vote info commitBytes = ChunkVote (ti_SupplierID info) (ti_TaskID info) commitBytes
     (ti_engine info) (ti_buildHash info) (ti_buildIdentityPolicy info)"

definition row_bytes :: "Storage \<Rightarrow> CommitTaskInfo \<Rightarrow> bytes \<Rightarrow> int64 \<Rightarrow> ChunkResult \<Rightarrow> bytes result" where
  "row_bytes st info commitBytes readLimit cr =
     (if cr_TaskID cr = ti_TaskID info then Inr commitBytes
      else case cr_Artifact cr of
          Some artifact \<Rightarrow>
            wrap_result ''read sealed vote artifact''
              (if byteExactJobType (ti_jobType info) \<and> va_SHA256 artifact = ti_ResultSHA256 info \<and>
                sameVerificationClass (ti_engine info) (ti_buildHash info) (cr_Engine cr) (cr_BuildHash cr)
                  [ti_buildIdentityPolicy info, cr_BuildIdentityPolicy cr]
               then Inr commitBytes
               else readSealedVerificationArtifactWithLimit st artifact readLimit)
        | None \<Rightarrow> readVerificationObjectBounded st (cr_ResultRef cr) readLimit)"

fun gather_rows :: "Storage \<Rightarrow> CommitTaskInfo \<Rightarrow> bytes \<Rightarrow> int64 \<Rightarrow> ChunkResult list \<Rightarrow> chunkVote list result" where
  "gather_rows st info commitBytes readLimit [] = Inr []"
| "gather_rows st info commitBytes readLimit (cr # rows) =
     bind_result (row_bytes st info commitBytes readLimit cr) (\<lambda>b.
     bind_result (gather_rows st info commitBytes readLimit rows) (\<lambda>out.
       Inr (ChunkVote (cr_SupplierID cr) (cr_TaskID cr) b (cr_Engine cr) (cr_BuildHash cr)
         (cr_BuildIdentityPolicy cr) # out)))"

definition gatherChunkResults :: "'s Verifier \<Rightarrow> CommitTaskInfo \<Rightarrow> bytes \<Rightarrow> 's \<Rightarrow> chunkVote list result" where
  "gatherChunkResults v info commitBytes s =
     (case v_storage v of
        None \<Rightarrow> Inr []
      | Some st \<Rightarrow>
          if ti_JobID info = 0 then Inr []
          else bind_result (ChunkResults (v_store v) s (ti_JobID info) (ti_ChunkIndex info)) (\<lambda>rows.
            if rows = [] then Inr []
            else let readLimit = (if ti_resultMaxBytes info \<le>s 0 \<or> verificationArtifactAbsoluteMaxBytes <s ti_resultMaxBytes info
                                  then verificationArtifactAbsoluteMaxBytes else ti_resultMaxBytes info)
            in bind_result (gather_rows st info commitBytes readLimit rows) (\<lambda>out.
              Inr (if list_ex (\<lambda>cr. cr_TaskID cr = ti_TaskID info) rows then out
                   else out @ [committing_vote info commitBytes]))))"

section \<open>Tie-breaks\<close>

text \<open>The loop that rewards, spares or penalises each vote, with the two flags it collects.\<close>

fun tiebreak_loop :: "externs \<Rightarrow> 's Verifier \<Rightarrow> CommitTaskInfo \<Rightarrow> bytes \<Rightarrow> string \<times> string \<times> string \<Rightarrow> chunkVote list \<Rightarrow> bool \<Rightarrow> 's \<Rightarrow> 's verdict" where
  "tiebreak_loop X v info winner win [] committerLost s =
     verdict (if committerLost then OutcomeLossNoPayout else OutcomePass) s"
| "tiebreak_loop X v info winner win (c # cs) committerLost s =
     (if resultsAgree (x_CompareEmbeddings X) (ti_jobType info) (vote_bytes c) winner then
        effect_then (DockReputation (v_store v) (supplierID c) EventRedundancyMatch) OutcomeFail
        (effect_then (RecordVerificationEvent (v_store v) (ti_JobID info) (taskID c) (supplierID c) ''tiebreak_win'') OutcomeFail
          (tiebreak_loop X v info winner win cs committerLost)) s
      else if byteExactJobType (ti_jobType info) \<and>
        \<not> sameVerificationClass (fst win) (fst (snd win)) (vote_engine c) (vote_buildHash c)
            [snd (snd win), vote_buildIdentityPolicy c] then
        effect_then (DockReputation (v_store v) (supplierID c) EventRedundancyMatch) OutcomeFail
        (effect_then (RecordVerificationEvent (v_store v) (ti_JobID info) (taskID c) (supplierID c) ''tiebreak_cross_class'') OutcomeFail
          (tiebreak_loop X v info winner win cs committerLost)) s
      else
        effect_then (DockReputation (v_store v) (supplierID c) EventMismatch) OutcomeFail
        (effect_then (RecordVerificationEvent (v_store v) (ti_JobID info) (taskID c) (supplierID c) ''tiebreak_loss'') OutcomeFail
        (effect_then (ClawbackTaskCredit (v_store v) (supplierID c) (taskID c)) OutcomeFail
          (tiebreak_loop X v info winner win cs (committerLost \<or> supplierID c = ti_SupplierID info)))) s)"

definition resolveTiebreak :: "externs \<Rightarrow> 's Verifier \<Rightarrow> CommitTaskInfo \<Rightarrow> chunkVote list \<Rightarrow> 's \<Rightarrow> 's verdict" where
  "resolveTiebreak X v info all0 s =
     (let all = independentSupplierVotes all0;
          agree = resultsAgree (x_CompareEmbeddings X) (ti_jobType info);
          winner = majorityVote (x_CompareEmbeddings X) (ti_jobType info) (map vote_bytes all);
          agreeWinner = length (filter (\<lambda>c. agree (vote_bytes c) winner) all)
      in if agreeWinner * 2 \<le> length all then verdict OutcomePassWithPenalty s
         else let win = (case find (\<lambda>c. agree (vote_bytes c) winner) all of
                  None \<Rightarrow> ([], [], [])
                | Some c \<Rightarrow> (vote_engine c, vote_buildHash c, vote_buildIdentityPolicy c))
              in tiebreak_loop X v info winner win all False s)"

definition dispatchTiebreak :: "'s Verifier \<Rightarrow> CommitTaskInfo \<Rightarrow> 's \<Rightarrow> go_error option \<times> 's" where
  "dispatchTiebreak v info s =
     (case v_storage v of None \<Rightarrow> (None, s) | Some _ \<Rightarrow>
      case TiebreakExists (v_store v) s (ti_JobID info) (ti_ChunkIndex info) of
        Inl e \<Rightarrow> (Some e, s)
      | Inr True \<Rightarrow> (None, s)
      | Inr False \<Rightarrow>
          (case ChunkResults (v_store v) s (ti_JobID info) (ti_ChunkIndex info) of
             Inl e \<Rightarrow> (Some e, s)
           | Inr chunk \<Rightarrow>
               let others = filter (\<lambda>cr. cr_WorkerID cr \<noteq> ti_WorkerID info) chunk in
               case SelectRedundancyPeerExcluding (v_store v) s (ti_JobID info) (ti_TaskID info) (ti_jobType info)
                   (ti_ModelRef info) (ti_MinMemoryGB info) (ti_WorkerID info)
                   (map cr_WorkerID others) (map cr_SupplierID others) of
                 Inl e \<Rightarrow> if errors_Is e ErrNoSupply then (None, s) else (Some e, s)
               | Inr peer \<Rightarrow>
                   (case InsertTiebreakTask (v_store v) (ti_JobID info) (ti_TaskID info) peer (ti_InputRef info)
                       (ti_ChunkIndex info) s of
                      (Inl e, s') \<Rightarrow> (Some e, s')
                    | (Inr _, s') \<Rightarrow> (None, s'))))"

definition settle_success :: "'s Verifier \<Rightarrow> CommitTaskInfo \<Rightarrow> 's \<Rightarrow> 's verdict" where
  "settle_success v info = effect_then (dock v info EventTaskSuccess) OutcomePass (verdict OutcomePass)"

definition judge_votes :: "externs \<Rightarrow> 's Verifier \<Rightarrow> CommitTaskInfo \<Rightarrow> chunkVote list \<Rightarrow> 's \<Rightarrow> 's verdict" where
  "judge_votes X v info rawVotes s =
     (let all = independentSupplierVotes rawVotes in
      if 3 \<le> length all then resolveTiebreak X v info all s
      else if length all = 2 \<and>
        \<not> resultsAgree (x_CompareEmbeddings X) (ti_jobType info) (vote_bytes (all ! 0)) (vote_bytes (all ! 1)) then
        (if byteExactJobType (ti_jobType info) \<and>
           \<not> sameVerificationClass (vote_engine (all ! 0)) (vote_buildHash (all ! 0)) (vote_engine (all ! 1))
               (vote_buildHash (all ! 1)) [vote_buildIdentityPolicy (all ! 0), vote_buildIdentityPolicy (all ! 1)]
         then effect_then (record_event v info ''redundancy_cross_class'') OutcomePassWithPenalty
                (verdict OutcomePassWithPenalty) s
         else effect_then (record_event v info ''redundancy_mismatch'') OutcomePassWithPenalty
                (\<lambda>s. if checkSelected X v info s
                     then effect_then (dispatchTiebreak v info) OutcomePassWithPenalty
                            (verdict OutcomePassWithPenalty) s
                     else verdict OutcomePassWithPenalty s) s)
      else if independentRedundancyMatch rawVotes
      then effect_then (dock v info EventRedundancyMatch) OutcomePass
             (effect_then (record_event v info ''redundancy_match'') OutcomePass (settle_success v info)) s
      else effect_then (record_event v info ''redundancy_same_supplier'') OutcomeFail
             (effect_then (record_event v info ''NO_INDEPENDENT_SUPPLIER'') OutcomeFail
               (\<lambda>s. ((OutcomeFail, Some (Wrap ''redundancy votes are not independent'' errNoIndependentSupplier)), s))) s)"

definition verify_redundancy :: "externs \<Rightarrow> 's Verifier \<Rightarrow> CommitTaskInfo \<Rightarrow> bytes \<Rightarrow> bytes \<Rightarrow> 's \<Rightarrow> 's verdict" where
  "verify_redundancy X v info commitBytes peerBytes s =
     (case gatherChunkResults v info commitBytes s of
        Inl e \<Rightarrow> ((OutcomeFail, Some e), s)
      | Inr gathered \<Rightarrow>
          judge_votes X v info
            (if gathered = []
             then [committing_vote info commitBytes,
                   ChunkVote (ti_peerSupplierID info) 0 peerBytes (ti_peerEngine info) (ti_peerBuildHash info)
                     (ti_peerBuildIdentityPolicy info)]
             else gathered) s)"

definition verify_after_honeypot :: "externs \<Rightarrow> 's Verifier \<Rightarrow> CommitTaskInfo \<Rightarrow> bytes \<Rightarrow> bytes option \<Rightarrow> 's \<Rightarrow> 's verdict" where
  "verify_after_honeypot X v info commitBytes redundancyBytes =
     (case redundancyBytes of
        Some peerBytes \<Rightarrow> verify_redundancy X v info commitBytes peerBytes
      | None \<Rightarrow>
          if ti_IsRedundancy info
          then effect_then (dock v info EventTaskSuccess) OutcomePassWithPenalty (verdict OutcomePassWithPenalty)
          else settle_success v info)"

definition verifyTaskResult :: "externs \<Rightarrow> 's Verifier \<Rightarrow> CommitTaskInfo \<Rightarrow> uuid \<Rightarrow> bytes \<Rightarrow> bytes option \<Rightarrow> 's \<Rightarrow> 's verdict" where
  "verifyTaskResult X v info commitTask commitBytes redundancyBytes =
     (if ti_IsHoneypot info
      then verify_honeypot X v info commitTask commitBytes (verify_after_honeypot X v info commitBytes redundancyBytes)
      else verify_after_honeypot X v info commitBytes redundancyBytes)"

section \<open>The recording store\<close>

definition verificationEffectPayloadID :: "externs \<Rightarrow> uuid \<Rightarrow> 16 word \<Rightarrow> nat \<Rightarrow> VerificationEffect \<Rightarrow> uuid" where
  "verificationEffectPayloadID X task attempt ordinal effect =
     x_NewSHA1 X (be_bytes 16 task @ be_bytes 2 attempt @ be_bytes 8 (of_nat ordinal :: 64 word) @
       x_json X (effect\<lparr>ve_ID := 0,
         ve_TaskID := (if ve_Kind effect = EffectInsertTiebreak then 0 else ve_TaskID effect)\<rparr>))"

definition verificationEffectID :: "externs \<Rightarrow> uuid \<Rightarrow> 16 word \<Rightarrow> nat \<Rightarrow> VerificationEffectKind \<Rightarrow> uuid" where
  "verificationEffectID X task attempt ordinal kind =
     verificationEffectPayloadID X task attempt ordinal (no_effect kind)"

definition record_append :: "externs \<Rightarrow> uuid \<Rightarrow> 16 word \<Rightarrow> VerificationEffect \<Rightarrow> VerificationEffect list \<Rightarrow> VerificationEffect list" where
  "record_append X task attempt effect effects =
     effects @ [effect\<lparr>ve_ID := verificationEffectPayloadID X task attempt (length effects) effect\<rparr>]"

text \<open>A read of the recorder is the read of the store behind it, or an error when there is none.\<close>

definition read_through :: "('r verificationStore \<times> 'r) option \<Rightarrow> string \<Rightarrow> ('r verificationStore \<Rightarrow> 'r \<Rightarrow> 'a result) \<Rightarrow> 'a result" where
  "read_through reads name f =
     (case reads of None \<Rightarrow> Inl (Msg (''verification plan requires store read: '' @ name)) | Some (store, r) \<Rightarrow> f store r)"

definition recordingVerificationStore ::
    "externs \<Rightarrow> ('r verificationStore \<times> 'r) option \<Rightarrow> uuid \<Rightarrow> 16 word \<Rightarrow> VerificationEffect list verificationStore" where
  "recordingVerificationStore X reads task attempt =
     \<lparr>GetHoneypotAnswer = (\<lambda>_ jobType inputRef.
        case reads of
          None \<Rightarrow> ((None, []), Some (Msg ''verification plan requires store read: GetHoneypotAnswer''))
        | Some (store, r) \<Rightarrow> GetHoneypotAnswer store r jobType inputRef),
      CandidateWorkers = (\<lambda>_ jobType modelRef minMemoryGB.
        read_through reads ''CandidateWorkers'' (\<lambda>store r. CandidateWorkers store r jobType modelRef minMemoryGB)),
      ChunkResults = (\<lambda>_ job chunk. read_through reads ''ChunkResults'' (\<lambda>store r. ChunkResults store r job chunk)),
      TiebreakExists = (\<lambda>_ job chunk. read_through reads ''TiebreakExists'' (\<lambda>store r. TiebreakExists store r job chunk)),
      SelectRedundancyPeerExcluding = (\<lambda>_ job anchorTask jobType modelRef minMemoryGB anchor also_workers also_suppliers.
        read_through reads ''SelectRedundancyPeerExcluding'' (\<lambda>store r.
          SelectRedundancyPeerExcluding store r job anchorTask jobType modelRef minMemoryGB anchor also_workers also_suppliers)),
      DockReputation = (\<lambda>supplier event es. (None, record_append X task attempt
        ((no_effect EffectDockReputation)\<lparr>ve_SupplierID := supplier, ve_ReputationEvent := event\<rparr>) es)),
      RecordVerificationEvent = (\<lambda>job tsk supplier kind es. (None, record_append X task attempt
        ((no_effect EffectRecordEvent)\<lparr>ve_JobID := job, ve_TaskID := tsk, ve_SupplierID := supplier, ve_EventKind := kind\<rparr>) es)),
      ClawbackTaskCredit = (\<lambda>supplier tsk es. (None, record_append X task attempt
        ((no_effect EffectClawbackCredit)\<lparr>ve_SupplierID := supplier, ve_TaskID := tsk\<rparr>) es)),
      QuarantineSupplier = (\<lambda>supplier es. (None, record_append X task attempt
        ((no_effect EffectQuarantine)\<lparr>ve_SupplierID := supplier\<rparr>) es)),
      RequeueTask = (\<lambda>tsk es. (None, record_append X task attempt ((no_effect EffectRequeue)\<lparr>ve_TaskID := tsk\<rparr>) es)),
      InsertTiebreakTask = (\<lambda>job primary peer inputRef chunk es.
        let es' = record_append X task attempt
              ((no_effect EffectInsertTiebreak)\<lparr>ve_JobID := job, ve_PrimaryTaskID := primary, ve_PeerWorkerID := peer,
                ve_InputRef := inputRef, ve_ChunkIndex := chunk\<rparr>) es;
            planned = ve_ID (last es')
        in (Inr planned, butlast es' @ [(last es')\<lparr>ve_TaskID := planned\<rparr>]))\<rparr>"

definition recorder :: "externs \<Rightarrow> 'r Verifier \<Rightarrow> 'r \<Rightarrow> CommitTaskInfo \<Rightarrow> VerificationEffect list Verifier" where
  "recorder X v r info =
     \<lparr>v_store = recordingVerificationStore X (Some (v_store v, r)) (ti_TaskID info) (ti_Attempt info),
      v_storage = v_storage v, v_sampleSecret = v_sampleSecret v\<rparr>"

definition PlanTaskResult ::
    "externs \<Rightarrow> 'r Verifier \<Rightarrow> 'r \<Rightarrow> CommitTaskInfo option \<Rightarrow> uuid \<Rightarrow> bytes \<Rightarrow> bytes option \<Rightarrow>
     VerificationDecision \<times> go_error option" where
  "PlanTaskResult X v r info0 commitTask commitBytes redundancyBytes =
     (case info0 of
        None \<Rightarrow> (\<lparr>vd_Outcome = OutcomeOther [], vd_Effects = [], vd_Failure = None\<rparr>,
          Some (Msg ''plan verification: nil commit task info''))
      | Some info \<Rightarrow>
          (case verifyTaskResult X (recorder X v r info) info commitTask commitBytes redundancyBytes [] of
             ((outcome, Some e), effects) \<Rightarrow> (\<lparr>vd_Outcome = outcome, vd_Effects = [], vd_Failure = None\<rparr>, Some e)
           | ((outcome, None), effects) \<Rightarrow> (\<lparr>vd_Outcome = outcome, vd_Effects = effects, vd_Failure = None\<rparr>, None)))"

section \<open>Decisions for unusable artifacts\<close>

fun number_effects :: "externs \<Rightarrow> CommitTaskInfo \<Rightarrow> nat \<Rightarrow> VerificationEffect list \<Rightarrow> VerificationEffect list" where
  "number_effects X info i [] = []"
| "number_effects X info i (e # es) =
     e\<lparr>ve_ID := verificationEffectPayloadID X (ti_TaskID info) (ti_Attempt info) i e\<rparr> # number_effects X info (i + 1) es"

definition eff_dock :: "CommitTaskInfo \<Rightarrow> ReputationEvent \<Rightarrow> VerificationEffect" where
  "eff_dock info event = (no_effect EffectDockReputation)\<lparr>ve_SupplierID := ti_SupplierID info, ve_ReputationEvent := event\<rparr>"

definition eff_event :: "CommitTaskInfo \<Rightarrow> string \<Rightarrow> VerificationEffect" where
  "eff_event info kind = (no_effect EffectRecordEvent)\<lparr>ve_JobID := ti_JobID info, ve_TaskID := ti_TaskID info,
     ve_SupplierID := ti_SupplierID info, ve_EventKind := kind\<rparr>"

definition eff_clawback :: "CommitTaskInfo \<Rightarrow> VerificationEffect" where
  "eff_clawback info = (no_effect EffectClawbackCredit)\<lparr>ve_TaskID := ti_TaskID info, ve_SupplierID := ti_SupplierID info\<rparr>"

definition eff_quarantine :: "CommitTaskInfo \<Rightarrow> VerificationEffect" where
  "eff_quarantine info = (no_effect EffectQuarantine)\<lparr>ve_SupplierID := ti_SupplierID info\<rparr>"

definition eff_requeue :: "CommitTaskInfo \<Rightarrow> VerificationEffect" where
  "eff_requeue info = (no_effect EffectRequeue)\<lparr>ve_TaskID := ti_TaskID info\<rparr>"

definition artifactFailureDecision :: "externs \<Rightarrow> CommitTaskInfo \<Rightarrow> VerificationEffect list \<Rightarrow> string \<Rightarrow> string \<Rightarrow> VerificationDecision" where
  "artifactFailureDecision X info effects kind code =
     \<lparr>vd_Outcome = OutcomeFail, vd_Effects = number_effects X info 0 effects,
      vd_Failure = Some \<lparr>vf_Kind = kind, vf_Code = code, vf_JobType = ti_jobType info\<rparr>\<rparr>"

definition unavailableArtifactDecision :: "externs \<Rightarrow> CommitTaskInfo \<Rightarrow> VerificationDecision" where
  "unavailableArtifactDecision X info = artifactFailureDecision X info
     [eff_dock info EventTimeout, eff_event info ''artifact_unavailable'', eff_requeue info]
     ''artifact_unavailable'' ''retry_exhausted''"

definition oversizedArtifactDecision :: "externs \<Rightarrow> CommitTaskInfo \<Rightarrow> VerificationDecision" where
  "oversizedArtifactDecision X info = artifactFailureDecision X info
     [eff_dock info EventArtifactOversize, eff_event info ''artifact_oversize'', eff_quarantine info, eff_requeue info]
     ''artifact_oversize'' ''too_large''"

text \<open>The error is \<^const>\<open>Some\<close> code when it is a \<^verbatim>\<open>ResultArtifactValidationError\<close>.\<close>

definition invalidResultVerificationDecision :: "externs \<Rightarrow> CommitTaskInfo \<Rightarrow> string option \<Rightarrow> VerificationDecision" where
  "invalidResultVerificationDecision X info typed =
     (let code = (case typed of Some c \<Rightarrow> if c \<noteq> [] then c else ''invalid_envelope'' | None \<Rightarrow> ''invalid_envelope'') in
      artifactFailureDecision X info
        [eff_dock info EventResultCorrupt, eff_event info ''artifact_invalid'', eff_clawback info,
         eff_quarantine info, eff_requeue info]
        ''artifact_invalid'' code)"

section \<open>The shape check\<close>

record LedgerEntry =
  le_Kind :: string
  le_SupplierID :: "uuid option"
  le_BuyerID :: "uuid option"
  le_TaskID :: "uuid option"
  le_AmountUSD :: rat
  le_Currency :: string
  le_PayoutStatus :: string
  le_ReleaseAt :: "int option"

definition KindBuyerCharge :: string where "KindBuyerCharge = ''buyer_charge''"
definition KindSupplierCredit :: string where "KindSupplierCredit = ''supplier_credit''"
definition KindPlatformTake :: string where "KindPlatformTake = ''platform_take''"
definition PayoutReleased :: string where "PayoutReleased = ''released''"
definition PayoutHeld :: string where "PayoutHeld = ''held''"

definition verificationReputationEventAllowed :: "ReputationEvent \<Rightarrow> bool" where
  "verificationReputationEventAllowed event \<longleftrightarrow>
     event \<in> set [EventTaskSuccess, EventHoneypotPass, EventRedundancyMatch, EventMismatch, EventHoneypotFail, EventTimeout,
       EventResultCorrupt, EventArtifactOversize]"

definition verificationEventKindAllowed :: "string \<Rightarrow> bool" where
  "verificationEventKindAllowed kind \<longleftrightarrow>
     kind \<in> set [''honeypot_pass'', ''honeypot_fail'', ''redundancy_match'', ''redundancy_mismatch'',
       ''redundancy_cross_class'', ''redundancy_same_supplier'', ''tiebreak_win'', ''tiebreak_loss'',
       ''tiebreak_cross_class'', ''artifact_invalid'', ''artifact_oversize'', ''artifact_unavailable'']"

definition effect_allowed :: "CommitTaskInfo \<Rightarrow> VerificationEffect \<Rightarrow> bool" where
  "effect_allowed info e =
     (case ve_Kind e of
        EffectDockReputation \<Rightarrow> ve_SupplierID e \<noteq> 0 \<and> verificationReputationEventAllowed (ve_ReputationEvent e)
      | EffectRecordEvent \<Rightarrow> ve_JobID e = ti_JobID info \<and> ve_TaskID e \<noteq> 0 \<and> ve_SupplierID e \<noteq> 0 \<and>
          verificationEventKindAllowed (ve_EventKind e)
      | EffectClawbackCredit \<Rightarrow> ve_TaskID e \<noteq> 0 \<and> ve_SupplierID e \<noteq> 0
      | EffectQuarantine \<Rightarrow> ve_SupplierID e = ti_SupplierID info
      | EffectRequeue \<Rightarrow> ve_TaskID e = ti_TaskID info
      | EffectInsertTiebreak \<Rightarrow> ve_TaskID e = ve_ID e \<and> ve_JobID e = ti_JobID info \<and>
          ve_PrimaryTaskID e = ti_TaskID info \<and> ve_PeerWorkerID e \<noteq> 0 \<and> ve_InputRef e = ti_InputRef info \<and>
          ve_ChunkIndex e = ti_ChunkIndex info
      | EffectOther _ \<Rightarrow> False)"

fun effects_shape :: "externs \<Rightarrow> CommitTaskInfo \<Rightarrow> VerificationFailure option \<Rightarrow> nat \<Rightarrow> uuid list \<Rightarrow> bool \<Rightarrow> VerificationEffect list \<Rightarrow> bool result" where
  "effects_shape X info failure i seen failureEventSeen [] = Inr failureEventSeen"
| "effects_shape X info failure i seen failureEventSeen (e # es) =
     (if ve_ID e = 0 \<or> ve_ID e \<noteq> verificationEffectPayloadID X (ti_TaskID info) (ti_Attempt info) i e
      then Inl (Msg ''verification effect has non-canonical id'')
      else if ve_ID e \<in> set seen then Inl (Msg ''duplicate verification effect id'')
      else if \<not> effect_allowed info e then Inl (Msg ''invalid verification effect'')
      else effects_shape X info failure (i + 1) (ve_ID e # seen)
        (failureEventSeen \<or> ve_Kind e = EffectRecordEvent \<and>
           (case failure of None \<Rightarrow> False | Some f \<Rightarrow> ve_EventKind e = vf_Kind f)) es)"

fun settlement_kinds :: "CommitTaskInfo \<Rightarrow> string \<Rightarrow> (string \<times> LedgerEntry) list \<Rightarrow> LedgerEntry list \<Rightarrow> (string \<times> LedgerEntry) list result" where
  "settlement_kinds info cur byKind [] = Inr byKind"
| "settlement_kinds info cur byKind (entry # entries) =
     (if le_TaskID entry \<noteq> Some (ti_TaskID info) then Inl (Msg ''settlement is not bound to task'')
      else bind_result
        (if le_Currency entry \<noteq> [] then
           (case ParseCurrency (le_Currency entry) of
              Inl _ \<Rightarrow> Inl (Msg ''settlement has invalid currency authority'')
            | Inr c \<Rightarrow>
                if le_Currency entry \<noteq> cur_code c then Inl (Msg ''settlement has invalid currency authority'')
                else if cur = [] then Inr (le_Currency entry)
                else if cur \<noteq> le_Currency entry then Inl (Msg ''verification settlement mixes currencies'')
                else Inr cur)
         else Inr cur) (\<lambda>cur'.
         if map_of byKind (le_Kind entry) \<noteq> None then Inl (Msg ''duplicate settlement kind'')
         else settlement_kinds info cur' ((le_Kind entry, entry) # byKind) entries))"

definition three_rows :: "(string \<times> LedgerEntry) list \<Rightarrow> bool" where
  "three_rows byKind =
     (case (map_of byKind KindBuyerCharge, map_of byKind KindSupplierCredit, map_of byKind KindPlatformTake) of
        (Some buyer, Some supplier, Some platform) \<Rightarrow>
          le_BuyerID buyer \<noteq> None \<and> le_SupplierID buyer = None \<and>
          le_SupplierID supplier \<noteq> None \<and> le_BuyerID supplier = None \<and>
          le_SupplierID platform = None \<and> le_BuyerID platform = None \<and>
          le_AmountUSD buyer < 0 \<and> 0 \<le> le_AmountUSD supplier \<and> 0 \<le> le_AmountUSD platform \<and>
          le_PayoutStatus buyer = PayoutReleased \<and> le_PayoutStatus platform = PayoutReleased \<and>
          le_PayoutStatus supplier = PayoutHeld \<and> le_ReleaseAt supplier \<noteq> None
      | _ \<Rightarrow> False)"

definition failure_typed :: "CommitTaskInfo \<Rightarrow> VerificationDecision \<Rightarrow> bool" where
  "failure_typed info decision =
     (case vd_Failure decision of None \<Rightarrow> True
      | Some f \<Rightarrow> vd_Outcome decision = OutcomeFail \<and> vf_Code f \<noteq> [] \<and> vf_JobType f = ti_jobType info \<and>
          vf_Kind f \<in> set [''artifact_invalid'', ''artifact_oversize'', ''artifact_unavailable''])"

text \<open>The settlement rows an outcome may carry: none, or the buyer, supplier and platform rows.\<close>

definition settlement_shape :: "CommitTaskInfo \<Rightarrow> VerifyOutcome \<Rightarrow> LedgerEntry list \<Rightarrow> unit result" where
  "settlement_shape info outcome entries =
     (if outcome = OutcomeFail \<or> outcome = OutcomeLossNoPayout
      then (if length entries \<noteq> 0 then Inl (Msg ''non-payable outcome has settlement entries'') else Inr ())
      else if length entries \<noteq> 3 then Inl (Msg ''payable outcome requires exactly three settlement entries'')
      else bind_result (settlement_kinds info [] [] entries) (\<lambda>byKind.
        if three_rows byKind then Inr () else Inl (Msg ''invalid three-row verification settlement shape'')))"

definition validateVerificationDecisionShape ::
    "externs \<Rightarrow> CommitTaskInfo \<Rightarrow> VerificationDecision \<Rightarrow> LedgerEntry list \<Rightarrow> unit result" where
  "validateVerificationDecisionShape X info decision entries =
     (if \<not> failure_typed info decision then Inl (Msg ''invalid typed verification failure'')
      else bind_result (effects_shape X info (vd_Failure decision) 0 [] False (vd_Effects decision)) (\<lambda>failureEventSeen.
        if vd_Failure decision \<noteq> None \<and> \<not> failureEventSeen
        then Inl (Msg ''typed verification failure has no matching durable event'')
        else settlement_shape info (vd_Outcome decision) entries))"

end
