(* ===== verification/Verification_Safety.thy ===== *)
theory Verification_Safety
  imports Verification_Plan
begin

text \<open>
  What the verification planner guarantees: which effects it can plan, that a planned
  decision passes the shape check it is stored and applied under, the two probe decisions
  that cannot, and when a tie-break takes a credit back.
\<close>

section \<open>Effects of the recorder\<close>

abbreviation rec :: "externs \<Rightarrow> CommitTaskInfo \<Rightarrow> VerificationEffect \<Rightarrow> VerificationEffect list \<Rightarrow> VerificationEffect list" where
  "rec X info \<equiv> record_append X (ti_TaskID info) (ti_Attempt info)"

definition raw_dock :: "uuid \<Rightarrow> ReputationEvent \<Rightarrow> VerificationEffect" where
  "raw_dock supplier event = (no_effect EffectDockReputation)\<lparr>ve_SupplierID := supplier, ve_ReputationEvent := event\<rparr>"

definition raw_event :: "uuid \<Rightarrow> uuid \<Rightarrow> uuid \<Rightarrow> string \<Rightarrow> VerificationEffect" where
  "raw_event job tsk supplier kind = (no_effect EffectRecordEvent)\<lparr>ve_JobID := job, ve_TaskID := tsk,
     ve_SupplierID := supplier, ve_EventKind := kind\<rparr>"

definition raw_clawback :: "uuid \<Rightarrow> uuid \<Rightarrow> VerificationEffect" where
  "raw_clawback supplier tsk = (no_effect EffectClawbackCredit)\<lparr>ve_SupplierID := supplier, ve_TaskID := tsk\<rparr>"

lemma recorder_writes [simp]:
  "DockReputation (v_store (recorder X v r info)) supplier event es = (None, rec X info (raw_dock supplier event) es)"
  "RecordVerificationEvent (v_store (recorder X v r info)) job tsk supplier kind es =
     (None, rec X info (raw_event job tsk supplier kind) es)"
  "ClawbackTaskCredit (v_store (recorder X v r info)) supplier tsk es = (None, rec X info (raw_clawback supplier tsk) es)"
  "QuarantineSupplier (v_store (recorder X v r info)) supplier es =
     (None, rec X info ((no_effect EffectQuarantine)\<lparr>ve_SupplierID := supplier\<rparr>) es)"
  "RequeueTask (v_store (recorder X v r info)) tsk es =
     (None, rec X info ((no_effect EffectRequeue)\<lparr>ve_TaskID := tsk\<rparr>) es)"
  by (simp_all add: recorder_def recordingVerificationStore_def raw_dock_def raw_event_def raw_clawback_def)

lemma recorder_reads [simp]:
  "GetHoneypotAnswer (v_store (recorder X v r info)) es = GetHoneypotAnswer (v_store v) r"
  "ChunkResults (v_store (recorder X v r info)) es = ChunkResults (v_store v) r"
  "TiebreakExists (v_store (recorder X v r info)) es = TiebreakExists (v_store v) r"
  "SelectRedundancyPeerExcluding (v_store (recorder X v r info)) es = SelectRedundancyPeerExcluding (v_store v) r"
  "CandidateWorkers (v_store (recorder X v r info)) es = CandidateWorkers (v_store v) r"
  "v_storage (recorder X v r info) = v_storage v" "v_sampleSecret (recorder X v r info) = v_sampleSecret v"
  by (simp_all add: recorder_def recordingVerificationStore_def read_through_def)

lemma effect_then_ok [simp]: "write s = (None, s') \<Longrightarrow> effect_then write out k s = k s'"
  by (simp add: effect_then_def)

lemma recorder_dock [simp]:
  "dock (recorder X v r info) info event es = (None, rec X info (raw_dock (ti_SupplierID info) event) es)"
  "record_event (recorder X v r info) info kind es =
     (None, rec X info (raw_event (ti_JobID info) (ti_TaskID info) (ti_SupplierID info) kind) es)"
  by (simp_all add: dock_def record_event_def)

lemma recorder_gather [simp]: "gatherChunkResults (recorder X v r info) i b es = gatherChunkResults v i b r"
  unfolding gatherChunkResults_def recorder_reads ..

text \<open>
  An effect list is canonical when every id is the payload id of its position. The recorder
  keeps lists canonical, since the payload of an effect leaves its own id out.
\<close>

definition canonical :: "externs \<Rightarrow> CommitTaskInfo \<Rightarrow> VerificationEffect list \<Rightarrow> bool" where
  "canonical X info es \<longleftrightarrow> (\<forall>i < length es.
     ve_ID (es ! i) = verificationEffectPayloadID X (ti_TaskID info) (ti_Attempt info) i (es ! i))"

lemma payload_ID [simp]: "verificationEffectPayloadID X t a i (e\<lparr>ve_ID := x\<rparr>) = verificationEffectPayloadID X t a i e"
  by (simp add: verificationEffectPayloadID_def)

lemma payload_TaskID:
  "ve_Kind e = EffectInsertTiebreak \<Longrightarrow>
     verificationEffectPayloadID X t a i (e\<lparr>ve_TaskID := x\<rparr>) = verificationEffectPayloadID X t a i e"
  by (simp add: verificationEffectPayloadID_def)

lemma canonical_snoc:
  "canonical X info (es @ [e]) \<longleftrightarrow> canonical X info es \<and>
     ve_ID e = verificationEffectPayloadID X (ti_TaskID info) (ti_Attempt info) (length es) e"
  by (auto simp: canonical_def nth_append less_Suc_eq)

definition inv_effects :: "externs \<Rightarrow> CommitTaskInfo \<Rightarrow> (VerificationEffect \<Rightarrow> bool) \<Rightarrow> VerificationEffect list \<Rightarrow> bool" where
  "inv_effects X info P es \<longleftrightarrow> canonical X info es \<and> list_all P es"

lemma inv_rec: "inv_effects X info P es \<Longrightarrow> (\<And>x. P (e\<lparr>ve_ID := x\<rparr>)) \<Longrightarrow> inv_effects X info P (rec X info e es)"
  by (simp add: inv_effects_def record_append_def canonical_snoc)

text \<open>A handler keeps the invariant when every run that ends without an error does.\<close>

definition keeps :: "externs \<Rightarrow> CommitTaskInfo \<Rightarrow> (VerificationEffect \<Rightarrow> bool) \<Rightarrow>
    (VerificationEffect list \<Rightarrow> VerificationEffect list verdict) \<Rightarrow> bool" where
  "keeps X info P m \<longleftrightarrow>
     (\<forall>es out es'. inv_effects X info P es \<longrightarrow> m es = ((out, None), es') \<longrightarrow> inv_effects X info P es')"

named_theorems keeps_intros \<open>which handlers keep the effect invariant\<close>

lemma keeps_verdict [keeps_intros]: "keeps X info P (verdict out)"
  by (simp add: keeps_def verdict_def)

lemma keeps_error: "(\<And>es out es'. m es \<noteq> ((out, None), es')) \<Longrightarrow> keeps X info P m"
  by (simp add: keeps_def)

lemma keeps_write:
  assumes "\<And>es. write es = (None, rec X info e es)" "\<And>x. P (e\<lparr>ve_ID := x\<rparr>)" "keeps X info P k"
  shows "keeps X info P (effect_then write out k)"
  unfolding keeps_def
proof (intro allI impI)
  fix es out' es' assume "inv_effects X info P es" "effect_then write out k es = ((out', None), es')"
  then have "inv_effects X info P (rec X info e es)" "k (rec X info e es) = ((out', None), es')"
    using assms(1,2) inv_rec [of X info P es e] by simp_all
  then show "inv_effects X info P es'" using assms(3) unfolding keeps_def by blast
qed

definition planned_ok :: "CommitTaskInfo \<Rightarrow> VerificationEffect \<Rightarrow> bool" where
  "planned_ok info e \<longleftrightarrow> effect_allowed info e \<or>
     ve_Kind e = EffectRecordEvent \<and> ve_JobID e = ti_JobID info \<and> ve_TaskID e \<noteq> 0 \<and> ve_SupplierID e \<noteq> 0 \<and>
     ve_EventKind e \<in> {''honeypot_answer_missing'', ''honeypot_class_mismatch''}"

lemma planned_dock:
  "supplier \<noteq> 0 \<Longrightarrow> verificationReputationEventAllowed event \<Longrightarrow> planned_ok info ((raw_dock supplier event)\<lparr>ve_ID := x\<rparr>)"
  by (simp add: planned_ok_def effect_allowed_def raw_dock_def no_effect_def)

lemma planned_event:
  "tsk \<noteq> 0 \<Longrightarrow> supplier \<noteq> 0 \<Longrightarrow>
     verificationEventKindAllowed kind \<or> kind \<in> {''honeypot_answer_missing'', ''honeypot_class_mismatch''} \<Longrightarrow>
     planned_ok info ((raw_event (ti_JobID info) tsk supplier kind)\<lparr>ve_ID := x\<rparr>)"
  by (auto simp: planned_ok_def effect_allowed_def raw_event_def no_effect_def)

lemma planned_clawback: "tsk \<noteq> 0 \<Longrightarrow> supplier \<noteq> 0 \<Longrightarrow> planned_ok info ((raw_clawback supplier tsk)\<lparr>ve_ID := x\<rparr>)"
  by (simp add: planned_ok_def effect_allowed_def raw_clawback_def no_effect_def)

lemma planned_quarantine: "planned_ok info ((no_effect EffectQuarantine)\<lparr>ve_SupplierID := ti_SupplierID info, ve_ID := x\<rparr>)"
  by (simp add: planned_ok_def effect_allowed_def no_effect_def)

lemma planned_requeue: "planned_ok info ((no_effect EffectRequeue)\<lparr>ve_TaskID := ti_TaskID info, ve_ID := x\<rparr>)"
  by (simp add: planned_ok_def effect_allowed_def no_effect_def)

text \<open>
  What the planner relies on: the committing task and supplier are named, the commit is of
  that task, and the rows and peers the store returns carry ids.
\<close>

definition plan_inputs_ok :: "'r Verifier \<Rightarrow> 'r \<Rightarrow> CommitTaskInfo \<Rightarrow> uuid \<Rightarrow> bool" where
  "plan_inputs_ok v r info commitTask \<longleftrightarrow>
     ti_TaskID info \<noteq> 0 \<and> ti_SupplierID info \<noteq> 0 \<and> commitTask = ti_TaskID info \<and>
     (\<forall>rows. ChunkResults (v_store v) r (ti_JobID info) (ti_ChunkIndex info) = Inr rows \<longrightarrow>
        (\<forall>cr \<in> set rows. cr_TaskID cr \<noteq> 0 \<and> cr_SupplierID cr \<noteq> 0)) \<and>
     (\<forall>also_w also_s peer. SelectRedundancyPeerExcluding (v_store v) r (ti_JobID info) (ti_TaskID info) (ti_jobType info)
        (ti_ModelRef info) (ti_MinMemoryGB info) (ti_WorkerID info) also_w also_s = Inr peer \<longrightarrow> peer \<noteq> 0)"

lemma allowed_names [simp]:
  "verificationEventKindAllowed ''honeypot_pass''" "verificationEventKindAllowed ''honeypot_fail''"
  "verificationEventKindAllowed ''redundancy_match''" "verificationEventKindAllowed ''redundancy_mismatch''"
  "verificationEventKindAllowed ''redundancy_cross_class''" "verificationEventKindAllowed ''redundancy_same_supplier''"
  "verificationEventKindAllowed ''tiebreak_win''" "verificationEventKindAllowed ''tiebreak_loss''"
  "verificationEventKindAllowed ''tiebreak_cross_class''" "verificationEventKindAllowed ''artifact_invalid''"
  "verificationEventKindAllowed ''artifact_oversize''" "verificationEventKindAllowed ''artifact_unavailable''"
  "\<not> verificationEventKindAllowed ''honeypot_answer_missing''" "\<not> verificationEventKindAllowed ''honeypot_class_mismatch''"
  "\<not> verificationEventKindAllowed ''NO_INDEPENDENT_SUPPLIER''"
  by (simp_all add: verificationEventKindAllowed_def)

lemma allowed_events [simp]:
  "verificationReputationEventAllowed EventTaskSuccess" "verificationReputationEventAllowed EventHoneypotPass"
  "verificationReputationEventAllowed EventRedundancyMatch" "verificationReputationEventAllowed EventMismatch"
  "verificationReputationEventAllowed EventHoneypotFail" "verificationReputationEventAllowed EventTimeout"
  "verificationReputationEventAllowed EventResultCorrupt" "verificationReputationEventAllowed EventArtifactOversize"
  by (simp_all add: verificationReputationEventAllowed_def)

lemma keeps_dock [keeps_intros]:
  "supplier \<noteq> 0 \<Longrightarrow> verificationReputationEventAllowed event \<Longrightarrow> keeps X info (planned_ok info) k \<Longrightarrow>
     keeps X info (planned_ok info) (effect_then (DockReputation (v_store (recorder X v r info)) supplier event) out k)"
  by (rule keeps_write [where e = "raw_dock supplier event"]) (simp_all add: planned_dock)

lemma keeps_event [keeps_intros]:
  "tsk \<noteq> 0 \<Longrightarrow> supplier \<noteq> 0 \<Longrightarrow>
     verificationEventKindAllowed kind \<or> kind \<in> {''honeypot_answer_missing'', ''honeypot_class_mismatch''} \<Longrightarrow>
     keeps X info (planned_ok info) k \<Longrightarrow>
     keeps X info (planned_ok info)
       (effect_then (RecordVerificationEvent (v_store (recorder X v r info)) (ti_JobID info) tsk supplier kind) out k)"
  by (rule keeps_write [where e = "raw_event (ti_JobID info) tsk supplier kind"]) (simp_all add: planned_event)

lemma keeps_clawback [keeps_intros]:
  "tsk \<noteq> 0 \<Longrightarrow> supplier \<noteq> 0 \<Longrightarrow> keeps X info (planned_ok info) k \<Longrightarrow>
     keeps X info (planned_ok info) (effect_then (ClawbackTaskCredit (v_store (recorder X v r info)) supplier tsk) out k)"
  by (rule keeps_write [where e = "raw_clawback supplier tsk"]) (simp_all add: planned_clawback)

lemma keeps_quarantine [keeps_intros]:
  "keeps X info (planned_ok info) k \<Longrightarrow>
     keeps X info (planned_ok info) (effect_then (QuarantineSupplier (v_store (recorder X v r info)) (ti_SupplierID info)) out k)"
  by (rule keeps_write [where e = "(no_effect EffectQuarantine)\<lparr>ve_SupplierID := ti_SupplierID info\<rparr>"])
    (simp_all add: planned_quarantine)

lemma keeps_requeue [keeps_intros]:
  "keeps X info (planned_ok info) k \<Longrightarrow>
     keeps X info (planned_ok info) (effect_then (RequeueTask (v_store (recorder X v r info)) (ti_TaskID info)) out k)"
  by (rule keeps_write [where e = "(no_effect EffectRequeue)\<lparr>ve_TaskID := ti_TaskID info\<rparr>"])
    (simp_all add: planned_requeue)

lemma keeps_penalty:
  "ti_TaskID info \<noteq> 0 \<Longrightarrow> ti_SupplierID info \<noteq> 0 \<Longrightarrow> kind = ''honeypot_fail'' \<or> kind = ''honeypot_class_mismatch'' \<Longrightarrow>
     keeps X info (planned_ok info) (honeypot_penalty (recorder X v r info) info (ti_TaskID info) kind)"
  unfolding honeypot_penalty_def dock_def record_event_def by (intro keeps_intros) auto

lemma keeps_if:
  "keeps X info P m \<Longrightarrow> keeps X info P n \<Longrightarrow> keeps X info P (\<lambda>s. if b then m s else n s)"
  by (cases b) simp_all

lemma keeps_cong: "(\<And>s. m s = n s) \<Longrightarrow> keeps X info P n \<Longrightarrow> keeps X info P m"
  by (simp add: keeps_def)

lemma keeps_tiebreak_loop:
  "\<forall>c \<in> set cs. taskID c \<noteq> 0 \<and> supplierID c \<noteq> 0 \<Longrightarrow>
     keeps X info (planned_ok info) (tiebreak_loop X (recorder X v r info) info winner win cs lost)"
proof (induction cs arbitrary: lost)
  case Nil
  have "tiebreak_loop X (recorder X v r info) info winner win [] lost = verdict (if lost then OutcomeLossNoPayout else OutcomePass)"
    by (rule ext) simp
  then show ?case by (simp only: keeps_verdict)
next
  case (Cons c cs)
  have ids: "taskID c \<noteq> 0" "supplierID c \<noteq> 0" using Cons.prems by simp_all
  have tail: "keeps X info (planned_ok info) (tiebreak_loop X (recorder X v r info) info winner win cs l)" for l
    using Cons by simp
  let ?d = "\<lambda>event k. effect_then (DockReputation (v_store (recorder X v r info)) (supplierID c) event) OutcomeFail k"
    and ?e = "\<lambda>kind k. effect_then (RecordVerificationEvent (v_store (recorder X v r info)) (ti_JobID info) (taskID c)
      (supplierID c) kind) OutcomeFail k"
  have parts: "keeps X info (planned_ok info) (?d EventRedundancyMatch (?e ''tiebreak_win''
      (tiebreak_loop X (recorder X v r info) info winner win cs lost)))"
    "keeps X info (planned_ok info) (?d EventRedundancyMatch (?e ''tiebreak_cross_class''
      (tiebreak_loop X (recorder X v r info) info winner win cs lost)))"
    "keeps X info (planned_ok info) (?d EventMismatch (?e ''tiebreak_loss''
      (effect_then (ClawbackTaskCredit (v_store (recorder X v r info)) (supplierID c) (taskID c)) OutcomeFail
        (tiebreak_loop X (recorder X v r info) info winner win cs l))))" for l
    by (intro keeps_intros tail; simp add: ids)+
  show ?case by (rule keeps_cong [OF tiebreak_loop.simps(2)]) (intro keeps_if parts)
qed

lemma keeps_step:
  assumes "\<And>es es'. inv_effects X info P es \<Longrightarrow> write es = (None, es') \<Longrightarrow> inv_effects X info P es'" "keeps X info P k"
  shows "keeps X info P (effect_then write out k)"
  unfolding keeps_def
proof (intro allI impI)
  fix es out' es' assume inv: "inv_effects X info P es" and run: "effect_then write out k es = ((out', None), es')"
  obtain err es1 where w: "write es = (err, es1)" by (cases "write es")
  from run w have "err = None" by (cases err) (simp_all add: effect_then_def)
  then have "inv_effects X info P es1" "k es1 = ((out', None), es')"
    using assms(1) [OF inv] run w by (simp_all add: effect_then_def)
  then show "inv_effects X info P es'" using assms(2) unfolding keeps_def by blast
qed

definition raw_tiebreak :: "CommitTaskInfo \<Rightarrow> uuid \<Rightarrow> VerificationEffect" where
  "raw_tiebreak info peer = (no_effect EffectInsertTiebreak)\<lparr>ve_JobID := ti_JobID info, ve_PrimaryTaskID := ti_TaskID info,
     ve_PeerWorkerID := peer, ve_InputRef := ti_InputRef info, ve_ChunkIndex := ti_ChunkIndex info\<rparr>"

lemma recorder_insert:
  "InsertTiebreakTask (v_store (recorder X v r info)) (ti_JobID info) (ti_TaskID info) peer (ti_InputRef info) (ti_ChunkIndex info) es =
     (let i = verificationEffectPayloadID X (ti_TaskID info) (ti_Attempt info) (length es) (raw_tiebreak info peer)
      in (Inr i, es @ [(raw_tiebreak info peer)\<lparr>ve_ID := i, ve_TaskID := i\<rparr>]))"
  by (simp add: recorder_def recordingVerificationStore_def record_append_def raw_tiebreak_def Let_def)

lemma inv_insert:
  assumes "inv_effects X info (planned_ok info) es" "peer \<noteq> 0"
    and "i = verificationEffectPayloadID X (ti_TaskID info) (ti_Attempt info) (length es) (raw_tiebreak info peer)"
  shows "inv_effects X info (planned_ok info) (es @ [(raw_tiebreak info peer)\<lparr>ve_ID := i, ve_TaskID := i\<rparr>])"
proof -
  have kind: "ve_Kind ((raw_tiebreak info peer)\<lparr>ve_ID := i\<rparr>) = EffectInsertTiebreak"
    by (simp add: raw_tiebreak_def no_effect_def)
  have "planned_ok info ((raw_tiebreak info peer)\<lparr>ve_ID := i, ve_TaskID := i\<rparr>)"
    using assms(2) by (simp add: planned_ok_def effect_allowed_def raw_tiebreak_def no_effect_def)
  then show ?thesis
    using assms(1,3) payload_TaskID [OF kind] by (simp add: inv_effects_def canonical_snoc)
qed

lemma dispatch_inv:
  assumes "plan_inputs_ok v r info commitTask" "inv_effects X info (planned_ok info) es"
    and "dispatchTiebreak (recorder X v r info) info es = (None, es')"
  shows "inv_effects X info (planned_ok info) es'"
proof -
  have peer: "peer \<noteq> 0" if "SelectRedundancyPeerExcluding (v_store v) r (ti_JobID info) (ti_TaskID info) (ti_jobType info)
      (ti_ModelRef info) (ti_MinMemoryGB info) (ti_WorkerID info) also_w also_s = Inr peer" for also_w also_s peer
    using assms(1) that by (auto simp: plan_inputs_ok_def)
  show ?thesis
    using assms(2,3) peer inv_insert [OF assms(2) _ refl]
    by (simp add: dispatchTiebreak_def recorder_insert Let_def split: option.splits sum.splits bool.splits if_splits)
      blast
qed

lemma gather_rows_ids:
  "gather_rows st info b cap rows = Inr out \<Longrightarrow> \<forall>cr \<in> set rows. cr_TaskID cr \<noteq> 0 \<and> cr_SupplierID cr \<noteq> 0 \<Longrightarrow>
     \<forall>c \<in> set out. taskID c \<noteq> 0 \<and> supplierID c \<noteq> 0"
  by (induction rows arbitrary: out) (auto simp: bind_result_def split: sum.splits)

lemma bind_result_Inr: "bind_result m f = Inr y \<longleftrightarrow> (\<exists>x. m = Inr x \<and> f x = Inr y)"
  by (simp add: bind_result_def split: sum.split)

lemma gather_cases:
  assumes "gatherChunkResults v info b r = Inr out" "out \<noteq> []"
  obtains st rows cap out' where "v_storage v = Some st"
    "ChunkResults (v_store v) r (ti_JobID info) (ti_ChunkIndex info) = Inr rows"
    "gather_rows st info b cap rows = Inr out'"
    "out = (if list_ex (\<lambda>cr. cr_TaskID cr = ti_TaskID info) rows then out' else out' @ [committing_vote info b])"
proof -
  obtain st where st: "v_storage v = Some st" "ti_JobID info \<noteq> 0"
    using assms by (cases "v_storage v") (auto simp: gatherChunkResults_def split: if_splits)
  obtain rows where rows: "ChunkResults (v_store v) r (ti_JobID info) (ti_ChunkIndex info) = Inr rows"
    using assms(1) st by (auto simp: gatherChunkResults_def bind_result_Inr)
  then have "rows \<noteq> []" using assms st by (auto simp: gatherChunkResults_def bind_result_Inr)
  define cap where "cap = (if ti_resultMaxBytes info \<le>s 0 \<or> verificationArtifactAbsoluteMaxBytes <s ti_resultMaxBytes info
    then verificationArtifactAbsoluteMaxBytes else ti_resultMaxBytes info)"
  have bind: "bind_result (Inr x) f = f x" for x :: "ChunkResult list" and f :: "ChunkResult list \<Rightarrow> chunkVote list result"
    by (simp add: bind_result_def)
  have "bind_result (gather_rows st info b cap rows) (\<lambda>out'. Inr (if list_ex (\<lambda>cr. cr_TaskID cr = ti_TaskID info) rows
      then out' else out' @ [committing_vote info b])) = Inr out"
    using assms(1) st(2) \<open>rows \<noteq> []\<close>
    by (simp only: gatherChunkResults_def st(1) rows option.case if_False bind Let_def cap_def)
  then have "\<exists>out'. gather_rows st info b cap rows = Inr out' \<and>
      (if list_ex (\<lambda>cr. cr_TaskID cr = ti_TaskID info) rows then out' else out' @ [committing_vote info b]) = out"
    by (simp only: bind_result_Inr sum.inject)
  then show ?thesis by (elim exE conjE) (rule that [OF st(1) rows], assumption, rule sym)
qed

lemma gather_ids:
  assumes "plan_inputs_ok v r info commitTask" "gatherChunkResults v info b r = Inr out" "c \<in> set out"
  shows "taskID c \<noteq> 0 \<and> supplierID c \<noteq> 0"
proof -
  have "out \<noteq> []" using assms(3) by auto
  with assms(2) obtain st rows cap out' where st:
      "ChunkResults (v_store v) r (ti_JobID info) (ti_ChunkIndex info) = Inr rows"
      "gather_rows st info b cap rows = Inr out'"
      "out = (if list_ex (\<lambda>cr. cr_TaskID cr = ti_TaskID info) rows then out' else out' @ [committing_vote info b])"
    by (rule gather_cases)
  have "\<forall>cr \<in> set rows. cr_TaskID cr \<noteq> 0 \<and> cr_SupplierID cr \<noteq> 0"
    using assms(1) st(1) by (auto simp: plan_inputs_ok_def)
  then have "\<forall>c \<in> set out'. taskID c \<noteq> 0 \<and> supplierID c \<noteq> 0" by (rule gather_rows_ids [OF st(2)])
  moreover have "taskID (committing_vote info b) \<noteq> 0 \<and> supplierID (committing_vote info b) \<noteq> 0"
    using assms(1) by (simp add: committing_vote_def plan_inputs_ok_def)
  ultimately show ?thesis using st(3) assms(3) by (auto split: if_splits)
qed

lemma keeps_resolveTiebreak:
  assumes "\<forall>c \<in> set all. taskID c \<noteq> 0 \<and> supplierID c \<noteq> 0"
  shows "keeps X info (planned_ok info) (resolveTiebreak X (recorder X v r info) info all)"
proof -
  have "\<forall>c \<in> set (independentSupplierVotes all). taskID c \<noteq> 0 \<and> supplierID c \<noteq> 0"
    using assms by (auto simp: set_independent least_votes_def)
  then show ?thesis
    by (intro keeps_cong [OF resolveTiebreak_def] ) (simp only: Let_def, intro keeps_if keeps_verdict keeps_tiebreak_loop)
qed

lemma plan_inputs_ids: "plan_inputs_ok v r info commitTask \<Longrightarrow> ti_TaskID info \<noteq> 0 \<and> ti_SupplierID info \<noteq> 0 \<and> commitTask = ti_TaskID info"
  by (simp add: plan_inputs_ok_def)

lemma keeps_settle:
  "ti_SupplierID info \<noteq> 0 \<Longrightarrow> keeps X info (planned_ok info) (settle_success (recorder X v r info) info)"
  unfolding settle_success_def dock_def by (intro keeps_intros) simp_all

lemma keeps_independent_error:
  "keeps X info P (effect_then (record_event (recorder X v r info) info k1) out
     (effect_then (record_event (recorder X v r info) info k2) out (\<lambda>s. ((out, Some e), s))))"
  by (rule keeps_error) simp

lemma keeps_mismatch:
  assumes "plan_inputs_ok v r info commitTask"
  shows "keeps X info (planned_ok info)
    (effect_then (record_event (recorder X v r info) info ''redundancy_mismatch'') OutcomePassWithPenalty
       (\<lambda>s. if checkSelected X (recorder X v r info) info s
            then effect_then (dispatchTiebreak (recorder X v r info) info) OutcomePassWithPenalty (verdict OutcomePassWithPenalty) s
            else verdict OutcomePassWithPenalty s))"
proof -
  have "checkSelected X (recorder X v r info) info s = checkSelected X v info r" for s
    by (simp add: checkSelected_def checkSampled_def effectiveCheckProb_def committingReputation_def split: option.split)
  then have sel: "(\<lambda>s. if checkSelected X (recorder X v r info) info s
      then effect_then (dispatchTiebreak (recorder X v r info) info) OutcomePassWithPenalty (verdict OutcomePassWithPenalty) s
      else verdict OutcomePassWithPenalty s) =
    (\<lambda>s. if checkSelected X v info r
      then effect_then (dispatchTiebreak (recorder X v r info) info) OutcomePassWithPenalty (verdict OutcomePassWithPenalty) s
      else verdict OutcomePassWithPenalty s)" by simp
  have "keeps X info (planned_ok info)
      (effect_then (dispatchTiebreak (recorder X v r info) info) OutcomePassWithPenalty (verdict OutcomePassWithPenalty))"
    by (rule keeps_step [OF dispatch_inv [OF assms] keeps_verdict])
  then show ?thesis
    unfolding sel record_event_def using plan_inputs_ids [OF assms] by (intro keeps_intros keeps_if) simp_all
qed

lemma keeps_judge:
  assumes "plan_inputs_ok v r info commitTask"
    and "3 \<le> length (independentSupplierVotes raw) \<Longrightarrow> \<forall>c \<in> set raw. taskID c \<noteq> 0 \<and> supplierID c \<noteq> 0"
  shows "keeps X info (planned_ok info) (judge_votes X (recorder X v r info) info raw)"
proof -
  let ?all = "independentSupplierVotes raw" and ?V = "recorder X v r info"
  have ids: "ti_TaskID info \<noteq> 0" "ti_SupplierID info \<noteq> 0" using plan_inputs_ids [OF assms(1)] by auto
  show ?thesis
  proof (cases "3 \<le> length ?all")
    case True
    have "\<forall>c \<in> set ?all. taskID c \<noteq> 0 \<and> supplierID c \<noteq> 0"
      using assms(2) [OF True] by (auto simp: set_independent least_votes_def)
    moreover have "judge_votes X ?V info raw s = resolveTiebreak X ?V info ?all s" for s
      using True by (simp only: judge_votes_def Let_def if_True)
    ultimately show ?thesis using keeps_cong [OF _ keeps_resolveTiebreak [of ?all X info v r]] by blast
  next
    case False
    have cross: "keeps X info (planned_ok info) (effect_then (record_event ?V info ''redundancy_cross_class'')
        OutcomePassWithPenalty (verdict OutcomePassWithPenalty))"
      unfolding record_event_def using ids by (intro keeps_intros) simp_all
    have match: "keeps X info (planned_ok info) (effect_then (dock ?V info EventRedundancyMatch) OutcomePass
        (effect_then (record_event ?V info ''redundancy_match'') OutcomePass (settle_success ?V info)))"
      unfolding dock_def record_event_def using ids by (intro keeps_intros keeps_settle) simp_all
    show ?thesis
      by (rule keeps_cong [OF judge_votes_def], unfold Let_def, simp only: False if_False)
        (intro keeps_if cross match keeps_mismatch [OF assms(1)] keeps_independent_error)
  qed
qed

lemma keeps_redundancy:
  assumes "plan_inputs_ok v r info commitTask"
  shows "keeps X info (planned_ok info) (verify_redundancy X (recorder X v r info) info commitBytes peerBytes)"
proof (cases "gatherChunkResults v info commitBytes r")
  case (Inl e)
  then show ?thesis by (intro keeps_error) (simp add: verify_redundancy_def)
next
  case (Inr gathered)
  let ?raw = "if gathered = [] then [committing_vote info commitBytes,
    ChunkVote (ti_peerSupplierID info) 0 peerBytes (ti_peerEngine info) (ti_peerBuildHash info)
      (ti_peerBuildIdentityPolicy info)] else gathered"
  have "\<forall>c \<in> set ?raw. taskID c \<noteq> 0 \<and> supplierID c \<noteq> 0" if "3 \<le> length (independentSupplierVotes ?raw)"
  proof -
    have "length (independentSupplierVotes ?raw) \<le> length ?raw"
      unfolding length_independent using card_length [of "map supplierID ?raw"] by (simp only: set_map length_map)
    then have "gathered \<noteq> []" using that by (auto split: if_splits)
    then show ?thesis using gather_ids [OF assms Inr] by simp
  qed
  then have "keeps X info (planned_ok info) (judge_votes X (recorder X v r info) info ?raw)" by (rule keeps_judge [OF assms])
  moreover have "verify_redundancy X (recorder X v r info) info commitBytes peerBytes s =
      judge_votes X (recorder X v r info) info ?raw s" for s
    by (simp only: verify_redundancy_def recorder_gather Inr sum.case)
  ultimately show ?thesis by (rule keeps_cong [rotated])
qed

lemma keeps_after_honeypot:
  assumes "plan_inputs_ok v r info commitTask"
  shows "keeps X info (planned_ok info) (verify_after_honeypot X (recorder X v r info) info commitBytes rb)"
proof -
  have "ti_SupplierID info \<noteq> 0" using plan_inputs_ids [OF assms] by blast
  then have "keeps X info (planned_ok info)
      (effect_then (dock (recorder X v r info) info EventTaskSuccess) OutcomePassWithPenalty (verdict OutcomePassWithPenalty))"
    unfolding dock_def by (intro keeps_intros) simp_all
  then show ?thesis
    using keeps_redundancy [OF assms] keeps_settle [of info X v r] \<open>ti_SupplierID info \<noteq> 0\<close>
    by (simp add: verify_after_honeypot_def split: option.split)
qed

lemma keeps_honeypot:
  assumes "plan_inputs_ok v r info commitTask" "keeps X info (planned_ok info) k"
  shows "keeps X info (planned_ok info) (verify_honeypot X (recorder X v r info) info commitTask commitBytes k)"
proof -
  let ?V = "recorder X v r info"
  have ids: "ti_TaskID info \<noteq> 0" "ti_SupplierID info \<noteq> 0" "commitTask = ti_TaskID info"
    using plan_inputs_ids [OF assms(1)] by auto
  obtain known answerClass err where ans: "GetHoneypotAnswer (v_store v) r (ti_jobType info) (ti_InputRef info) =
      ((known, answerClass), err)" by (metis surj_pair)
  have missing: "keeps X info (planned_ok info)
      (effect_then (record_event ?V info ''honeypot_answer_missing'') OutcomeFail (verdict OutcomeFail))"
    unfolding record_event_def using ids by (intro keeps_intros) simp_all
  have pass: "keeps X info (planned_ok info) (effect_then (dock ?V info EventHoneypotPass) OutcomePass
      (effect_then (record_event ?V info ''honeypot_pass'') OutcomePass (verdict OutcomePass)))"
    unfolding dock_def record_event_def using ids by (intro keeps_intros) simp_all
  have penalty: "keeps X info (planned_ok info) (honeypot_penalty ?V info commitTask kind)"
    if "kind = ''honeypot_fail'' \<or> kind = ''honeypot_class_mismatch''" for kind
    unfolding ids(3) by (rule keeps_penalty [OF ids(1,2) that])
  have err: "keeps X info (planned_ok info) (\<lambda>s. ((OutcomeFail, Some e), s))" for e by (rule keeps_error) simp
  show ?thesis
  proof (cases "case err of None \<Rightarrow> False | Some e \<Rightarrow> \<not> errors_Is e errNotFound")
    case True
    then obtain e where "err = Some e" by (auto split: option.splits)
    then show ?thesis
      using True by (intro keeps_error) (simp add: verify_honeypot_def ans)
  next
    case False
    show ?thesis
    proof (cases known)
      case None
      have "verify_honeypot X ?V info commitTask commitBytes k s =
          effect_then (record_event ?V info ''honeypot_answer_missing'') OutcomeFail (verdict OutcomeFail) s" for s
        by (simp only: verify_honeypot_def recorder_reads ans prod.case False if_False None option.case)
      then show ?thesis by (rule keeps_cong) (rule missing)
    next
      case (Some answer)
      show ?thesis
        by (rule keeps_cong [OF verify_honeypot_def])
          (simp only: recorder_reads ans prod.case False if_False Some option.case,
           intro keeps_if penalty pass assms(2); simp)
    qed
  qed
qed

theorem keeps_verifyTaskResult:
  assumes "plan_inputs_ok v r info commitTask"
  shows "keeps X info (planned_ok info) (verifyTaskResult X (recorder X v r info) info commitTask commitBytes rb)"
  using keeps_honeypot [OF assms keeps_after_honeypot [OF assms]] keeps_after_honeypot [OF assms]
  by (simp add: verifyTaskResult_def)

section \<open>The shape check\<close>

lemma effects_shape_ok:
  "(\<exists>b. effects_shape X info failure i seen fs es = Inr b) \<longleftrightarrow>
     (\<forall>k < length es. ve_ID (es ! k) \<noteq> 0 \<and> effect_allowed info (es ! k) \<and>
        ve_ID (es ! k) = verificationEffectPayloadID X (ti_TaskID info) (ti_Attempt info) (i + k) (es ! k)) \<and>
     distinct (map ve_ID es) \<and> set (map ve_ID es) \<inter> set seen = {}"
proof (induction es arbitrary: i seen fs)
  case Nil
  then show ?case by simp
next
  case (Cons e es)
  show ?case
  proof (cases "ve_ID e \<noteq> 0 \<and> ve_ID e = verificationEffectPayloadID X (ti_TaskID info) (ti_Attempt info) i e \<and>
      effect_allowed info e \<and> ve_ID e \<notin> set seen")
    case True
    then have "verificationEffectPayloadID X (ti_TaskID info) (ti_Attempt info) i e = ve_ID e" "ve_ID e \<noteq> 0"
      "effect_allowed info e" "ve_ID e \<notin> set seen" by metis+
    then have step: "effects_shape X info failure i seen fs (e # es) = effects_shape X info failure (i + 1) (ve_ID e # seen)
        (fs \<or> ve_Kind e = EffectRecordEvent \<and> (case failure of None \<Rightarrow> False | Some f \<Rightarrow> ve_EventKind e = vf_Kind f)) es"
      by simp
    show ?thesis
      using True unfolding step Cons.IH All_less_Suc2 list.size add_0_right add_Suc_right nth_Cons_0 nth_Cons_Suc by auto
  next
    case False
    then show ?thesis unfolding effects_shape.simps All_less_Suc2 list.size add_0_right add_Suc_right nth_Cons_0 by auto
  qed
qed

lemma effects_shape_no_failure: "effects_shape X info None i seen fs es = Inr b \<Longrightarrow> b = fs"
  by (induction es arbitrary: i seen fs) (auto split: if_splits)

lemma decision_shape_no_failure:
  assumes "vd_Failure d = None" "canonical X info (vd_Effects d)" "list_all (effect_allowed info) (vd_Effects d)"
    and "distinct (map ve_ID (vd_Effects d))" "0 \<notin> set (map ve_ID (vd_Effects d))"
  shows "validateVerificationDecisionShape X info d entries = settlement_shape info (vd_Outcome d) entries"
proof -
  have "\<forall>k < length (vd_Effects d). ve_ID (vd_Effects d ! k) \<noteq> 0" using assms(5) by (metis image_eqI nth_mem set_map)
  then have "\<exists>b. effects_shape X info None 0 [] False (vd_Effects d) = Inr b"
    unfolding effects_shape_ok using assms(2-4) by (simp add: canonical_def list_all_length)
  then show ?thesis
    using assms(1) by (auto simp: validateVerificationDecisionShape_def failure_typed_def bind_result_def)
qed

lemma bad_effect_rejected:
  assumes "e \<in> set (vd_Effects d)" "\<not> effect_allowed info e"
  shows "\<exists>err. validateVerificationDecisionShape X info d entries = Inl err"
proof -
  have "\<not> (\<exists>b. effects_shape X info (vd_Failure d) 0 [] False (vd_Effects d) = Inr b)"
    unfolding effects_shape_ok using assms by (metis in_set_conv_nth)
  then obtain err where "effects_shape X info (vd_Failure d) 0 [] False (vd_Effects d) = Inl err"
    by (metis sum.exhaust)
  then show ?thesis by (simp add: validateVerificationDecisionShape_def bind_result_def)
qed

lemma PlanTaskResult_ok:
  assumes "PlanTaskResult X v r (Some info) commitTask commitBytes rb = (d, None)"
  shows "vd_Failure d = None"
    and "verifyTaskResult X (recorder X v r info) info commitTask commitBytes rb [] = ((vd_Outcome d, None), vd_Effects d)"
  using assms by (auto simp: PlanTaskResult_def split: prod.splits option.splits)

lemma planned_canonical:
  assumes "PlanTaskResult X v r (Some info) commitTask commitBytes rb = (d, None)" "plan_inputs_ok v r info commitTask"
  shows "canonical X info (vd_Effects d)" "list_all (planned_ok info) (vd_Effects d)"
proof -
  have "inv_effects X info (planned_ok info) []" by (simp add: inv_effects_def canonical_def)
  then have "inv_effects X info (planned_ok info) (vd_Effects d)"
    using keeps_verifyTaskResult [OF assms(2), of X commitBytes rb] PlanTaskResult_ok(2) [OF assms(1)]
    unfolding keeps_def by blast
  then show "canonical X info (vd_Effects d)" "list_all (planned_ok info) (vd_Effects d)" by (simp_all add: inv_effects_def)
qed

section \<open>Tie-breaks\<close>

definition vote_effects :: "externs \<Rightarrow> CommitTaskInfo \<Rightarrow> bytes \<Rightarrow> string \<times> string \<times> string \<Rightarrow> chunkVote \<Rightarrow> VerificationEffect list" where
  "vote_effects X info winner win c =
     (if resultsAgree (x_CompareEmbeddings X) (ti_jobType info) (vote_bytes c) winner
      then [raw_dock (supplierID c) EventRedundancyMatch, raw_event (ti_JobID info) (taskID c) (supplierID c) ''tiebreak_win'']
      else if byteExactJobType (ti_jobType info) \<and>
        \<not> sameVerificationClass (fst win) (fst (snd win)) (vote_engine c) (vote_buildHash c)
            [snd (snd win), vote_buildIdentityPolicy c]
      then [raw_dock (supplierID c) EventRedundancyMatch, raw_event (ti_JobID info) (taskID c) (supplierID c) ''tiebreak_cross_class'']
      else [raw_dock (supplierID c) EventMismatch, raw_event (ti_JobID info) (taskID c) (supplierID c) ''tiebreak_loss'',
            raw_clawback (supplierID c) (taskID c)])"

definition vote_lost :: "externs \<Rightarrow> CommitTaskInfo \<Rightarrow> bytes \<Rightarrow> string \<times> string \<times> string \<Rightarrow> chunkVote \<Rightarrow> bool" where
  "vote_lost X info winner win c \<longleftrightarrow>
     \<not> resultsAgree (x_CompareEmbeddings X) (ti_jobType info) (vote_bytes c) winner \<and>
     \<not> (byteExactJobType (ti_jobType info) \<and>
        \<not> sameVerificationClass (fst win) (fst (snd win)) (vote_engine c) (vote_buildHash c)
            [snd (snd win), vote_buildIdentityPolicy c])"

lemma tiebreak_loop_eq:
  "tiebreak_loop X (recorder X v r info) info winner win cs lost es =
     verdict (if lost \<or> (\<exists>c \<in> set cs. vote_lost X info winner win c \<and> supplierID c = ti_SupplierID info)
              then OutcomeLossNoPayout else OutcomePass)
       (fold (rec X info) (concat (map (vote_effects X info winner win) cs)) es)"
proof (induction cs arbitrary: lost es)
  case Nil
  then show ?case by simp
next
  case (Cons c cs)
  consider (win) "resultsAgree (x_CompareEmbeddings X) (ti_jobType info) (vote_bytes c) winner"
    | (cross) "\<not> resultsAgree (x_CompareEmbeddings X) (ti_jobType info) (vote_bytes c) winner"
        "byteExactJobType (ti_jobType info) \<and> \<not> sameVerificationClass (fst win) (fst (snd win)) (vote_engine c)
          (vote_buildHash c) [snd (snd win), vote_buildIdentityPolicy c]"
    | (loss) "vote_lost X info winner win c"
    unfolding vote_lost_def by blast
  then show ?case
  proof cases
    case win
    then show ?thesis
      by (simp only: tiebreak_loop.simps if_True) (simp add: Cons.IH vote_effects_def vote_lost_def)
  next
    case cross
    then show ?thesis
      by (simp only: tiebreak_loop.simps if_True if_False)
        (simp add: Cons.IH vote_effects_def vote_lost_def del: sameVerificationClass.simps)
  next
    case loss
    then have "\<not> resultsAgree (x_CompareEmbeddings X) (ti_jobType info) (vote_bytes c) winner"
      "\<not> (byteExactJobType (ti_jobType info) \<and> \<not> sameVerificationClass (fst win) (fst (snd win)) (vote_engine c)
          (vote_buildHash c) [snd (snd win), vote_buildIdentityPolicy c])" unfolding vote_lost_def by blast+
    then have "vote_effects X info winner win c = [raw_dock (supplierID c) EventMismatch,
        raw_event (ti_JobID info) (taskID c) (supplierID c) ''tiebreak_loss'', raw_clawback (supplierID c) (taskID c)]"
      and "tiebreak_loop X (recorder X v r info) info winner win (c # cs) lost es =
        tiebreak_loop X (recorder X v r info) info winner win cs (lost \<or> supplierID c = ti_SupplierID info)
          (fold (rec X info) [raw_dock (supplierID c) EventMismatch,
            raw_event (ti_JobID info) (taskID c) (supplierID c) ''tiebreak_loss'', raw_clawback (supplierID c) (taskID c)] es)"
      unfolding vote_effects_def tiebreak_loop.simps by (simp_all only: if_False) simp_all
    then show ?thesis using loss by (simp only: Cons.IH list.map concat.simps fold_append) auto
  qed
qed

lemma fold_rec:
  "\<exists>ids. length ids = length raws \<and>
     fold (rec X info) raws es = es @ map2 (\<lambda>e x. e\<lparr>ve_ID := x\<rparr>) raws ids"
proof (induction raws arbitrary: es)
  case Nil
  then show ?case by simp
next
  case (Cons e raws)
  let ?x = "verificationEffectPayloadID X (ti_TaskID info) (ti_Attempt info) (length es) e"
  obtain ids where "length ids = length raws"
    "fold (rec X info) raws (rec X info e es) = rec X info e es @ map2 (\<lambda>e x. e\<lparr>ve_ID := x\<rparr>) raws ids"
    using Cons.IH by blast
  moreover have "rec X info e es = es @ [e\<lparr>ve_ID := ?x\<rparr>]" by (simp add: record_append_def)
  ultimately show ?case by (intro exI [of _ "?x # ids"]) simp
qed

lemma fold_rec_image:
  assumes "\<And>e x. f (e\<lparr>ve_ID := x\<rparr>) = f e"
  shows "map f (fold (rec X info) raws es) = map f es @ map f raws"
proof -
  obtain ids where "length ids = length raws"
    "fold (rec X info) raws es = es @ map2 (\<lambda>e x. e\<lparr>ve_ID := x\<rparr>) raws ids" using fold_rec by blast
  moreover have "map f (map2 (\<lambda>e x. e\<lparr>ve_ID := x\<rparr>) raws ids) = map f raws" if "length ids = length raws" for ids
    using that by (induction ids raws rule: list_induct2) (simp_all add: assms)
  ultimately show ?thesis by simp
qed

text \<open>The credits a plan takes back, as (supplier, task) pairs in planning order.\<close>

definition clawed :: "VerificationEffect list \<Rightarrow> (uuid \<times> uuid) list" where
  "clawed es = map (\<lambda>e. (ve_SupplierID e, ve_TaskID e)) (filter (\<lambda>e. ve_Kind e = EffectClawbackCredit) es)"

lemma clawed_concat: "clawed es = concat (map (\<lambda>e. if ve_Kind e = EffectClawbackCredit then [(ve_SupplierID e, ve_TaskID e)] else []) es)"
  by (induction es) (simp_all add: clawed_def)

lemma clawed_rec: "clawed (fold (rec X info) raws es) = clawed es @ clawed raws"
  unfolding clawed_concat by (subst fold_rec_image) simp_all

lemma clawed_append: "clawed (es @ fs) = clawed es @ clawed fs"
  by (simp add: clawed_def)

lemma clawed_vote: "clawed (vote_effects X info winner win c) = (if vote_lost X info winner win c then [(supplierID c, taskID c)] else [])"
  unfolding vote_effects_def vote_lost_def
  by (simp only: split: if_split) (simp add: clawed_def raw_dock_def raw_event_def raw_clawback_def no_effect_def)

lemma clawed_votes:
  "clawed (concat (map (vote_effects X info winner win) cs)) =
     map (\<lambda>c. (supplierID c, taskID c)) (filter (vote_lost X info winner win) cs)"
  by (induction cs) (simp_all add: clawed_append clawed_vote, simp add: clawed_def)

lemma count_map_filter: "count_list (map f xs) y = length (filter (\<lambda>x. f x = y) xs)"
  by (induction xs) auto

lemma comparedByBytes_exact: "comparedByBytes jobType \<Longrightarrow> byteExactJobType jobType"
  by (auto simp: comparedByBytes_def byteExactJobType_def)

lemma resolveTiebreak_bytes:
  assumes "comparedByBytes (ti_jobType info)" "votes = independentSupplierVotes cs"
  shows "length votes < 2 * count_list (map vote_bytes votes) w \<Longrightarrow>
     resolveTiebreak X V info cs es = tiebreak_loop X V info w
       (case find (\<lambda>c. vote_bytes c = w) votes of None \<Rightarrow> ([], [], [])
        | Some c \<Rightarrow> (vote_engine c, vote_buildHash c, vote_buildIdentityPolicy c)) votes False es"
    and "\<forall>w. 2 * count_list (map vote_bytes votes) w \<le> length votes \<Longrightarrow>
     resolveTiebreak X V info cs es = verdict OutcomePassWithPenalty es"
proof -
  have agree: "resultsAgree (x_CompareEmbeddings X) (ti_jobType info) a b \<longleftrightarrow> a = b" for a b
    using resultsAgree_bytes [OF assms(1)] .
  assume "length votes < 2 * count_list (map vote_bytes votes) w"
  moreover from this have "majorityVote (x_CompareEmbeddings X) (ti_jobType info) (map vote_bytes votes) = w"
    by (intro majorityVote_bytes [OF assms(1)]) simp
  ultimately show "resolveTiebreak X V info cs es = tiebreak_loop X V info w
       (case find (\<lambda>c. vote_bytes c = w) votes of None \<Rightarrow> ([], [], [])
        | Some c \<Rightarrow> (vote_engine c, vote_buildHash c, vote_buildIdentityPolicy c)) votes False es"
    unfolding resolveTiebreak_def Let_def assms(2) [symmetric] agree by (simp add: count_map_filter)
next
  have agree: "resultsAgree (x_CompareEmbeddings X) (ti_jobType info) a b \<longleftrightarrow> a = b" for a b
    using resultsAgree_bytes [OF assms(1)] .
  assume "\<forall>w. 2 * count_list (map vote_bytes votes) w \<le> length votes"
  then show "resolveTiebreak X V info cs es = verdict OutcomePassWithPenalty es"
    unfolding resolveTiebreak_def Let_def assms(2) [symmetric] agree count_map_filter by (simp add: mult.commute)
qed

text \<open>
  C2. A tie-break on a job compared by bytes, which leaves out \<^verbatim>\<open>embed\<close>, whose tie-breaks do not look
  at build classes. With no strict majority among the independent
  votes nothing is planned and the commit passes with a penalty. With a strict majority for
  \<^term>\<open>w\<close>, credit is taken back from exactly the votes for something else whose build class
  is that of the first winning vote, in vote order and on those votes' own tasks, and the
  commit loses its payout exactly when its supplier cast one of them.
\<close>

theorem tiebreak_penalises_minority:
  assumes "comparedByBytes (ti_jobType info)" "votes = independentSupplierVotes cs"
    and "resolveTiebreak X (recorder X v r info) info cs es = ((out, err), es')"
  shows "((\<forall>w. 2 * count_list (map vote_bytes votes) w \<le> length votes) \<longrightarrow>
           out = OutcomePassWithPenalty \<and> es' = es) \<and>
     (\<forall>w wv. length votes < 2 * count_list (map vote_bytes votes) w \<and> find (\<lambda>c. vote_bytes c = w) votes = Some wv \<longrightarrow>
        (let loses = (\<lambda>c. vote_bytes c \<noteq> w \<and>
               sameVerificationClass (vote_engine wv) (vote_buildHash wv) (vote_engine c) (vote_buildHash c)
                 [vote_buildIdentityPolicy wv, vote_buildIdentityPolicy c])
         in clawed es' = clawed es @ map (\<lambda>c. (supplierID c, taskID c)) (filter loses votes) \<and>
            out = (if \<exists>c \<in> set votes. loses c \<and> supplierID c = ti_SupplierID info
                   then OutcomeLossNoPayout else OutcomePass))) \<and>
     err = None"
proof -
  let ?V = "recorder X v r info"
  have loses: "vote_lost X info w (vote_engine wv, vote_buildHash wv, vote_buildIdentityPolicy wv) =
      (\<lambda>c. vote_bytes c \<noteq> w \<and>
         sameVerificationClass (vote_engine wv) (vote_buildHash wv) (vote_engine c) (vote_buildHash c)
           [vote_buildIdentityPolicy wv, vote_buildIdentityPolicy c])" for w wv
    unfolding vote_lost_def resultsAgree_bytes [OF assms(1)] fst_conv snd_conv using comparedByBytes_exact [OF assms(1)] by blast
  have maj: ?thesis if m: "length votes < 2 * count_list (map vote_bytes votes) w" for w
  proof -
    have "w \<in> vote_bytes ` set votes" using m majority_in [of "map vote_bytes votes" w] by (simp add: mult.commute)
    then obtain wv where wv: "find (\<lambda>c. vote_bytes c = w) votes = Some wv"
      using find_None_iff [of "\<lambda>c. vote_bytes c = w" votes] by (cases "find (\<lambda>c. vote_bytes c = w) votes") auto
    have uniq: "w' = w" if "length votes < 2 * count_list (map vote_bytes votes) w'" for w'
      using that m count_list_pair [of w w' "map vote_bytes votes"] by fastforce
    have "resolveTiebreak X ?V info cs es = tiebreak_loop X ?V info w
        (vote_engine wv, vote_buildHash wv, vote_buildIdentityPolicy wv) votes False es"
      using resolveTiebreak_bytes(1) [OF assms(1,2) m, of X ?V es] wv by simp
    then have run: "out = (if \<exists>c \<in> set votes. vote_lost X info w (vote_engine wv, vote_buildHash wv, vote_buildIdentityPolicy wv) c \<and>
          supplierID c = ti_SupplierID info then OutcomeLossNoPayout else OutcomePass)"
      "err = None" "clawed es' = clawed es @ map (\<lambda>c. (supplierID c, taskID c))
        (filter (vote_lost X info w (vote_engine wv, vote_buildHash wv, vote_buildIdentityPolicy wv)) votes)"
      using assms(3) unfolding tiebreak_loop_eq verdict_def by (simp_all add: clawed_rec clawed_votes)
    show ?thesis
    proof (intro conjI allI impI; (elim conjE)?)
      fix w' wv' assume "length votes < 2 * count_list (map vote_bytes votes) w'" "find (\<lambda>c. vote_bytes c = w') votes = Some wv'"
      then have "w' = w" "wv' = wv" using uniq wv by auto
      then show "let loses = (\<lambda>c. vote_bytes c \<noteq> w' \<and>
               sameVerificationClass (vote_engine wv') (vote_buildHash wv') (vote_engine c) (vote_buildHash c)
                 [vote_buildIdentityPolicy wv', vote_buildIdentityPolicy c])
         in clawed es' = clawed es @ map (\<lambda>c. (supplierID c, taskID c)) (filter loses votes) \<and>
            out = (if \<exists>c \<in> set votes. loses c \<and> supplierID c = ti_SupplierID info
                   then OutcomeLossNoPayout else OutcomePass)"
        using run unfolding Let_def loses by blast
    qed (use m run in \<open>auto simp: not_less [symmetric]\<close>)
  qed
  show ?thesis
  proof (cases "\<exists>w. length votes < 2 * count_list (map vote_bytes votes) w")
    case True
    then show ?thesis using maj by blast
  next
    case False
    then have "\<forall>w. 2 * count_list (map vote_bytes votes) w \<le> length votes" by (simp add: not_less)
    then show ?thesis
      using False assms(3) resolveTiebreak_bytes(2) [OF assms(1,2), of X ?V es] by (auto simp: verdict_def)
  qed
qed

definition tie_info :: CommitTaskInfo where
  "tie_info = \<lparr>ti_TaskID = 7, ti_JobID = 5, ti_WorkerID = 9, ti_SupplierID = 3, ti_IsHoneypot = True, ti_IsRedundancy = False,
     ti_VerificationClass = [], ti_engine = ''mlx'', ti_buildHash = ''0123456789abcdef'',
     ti_buildIdentityPolicy = currentEngineBuildIdentityPolicy, ti_jobType = ''batch_infer'', ti_resultMaxBytes = 0,
     ti_InputRef = ''in'', ti_ModelRef = ''m'', ti_MinMemoryGB = 1, ti_ChunkIndex = 0, ti_Attempt = 1, ti_ResultSHA256 = [],
     ti_verificationCheckSampled = None, ti_peerSupplierID = 0, ti_peerEngine = [], ti_peerBuildHash = [],
     ti_peerBuildIdentityPolicy = []\<rparr>"

text \<open>Ids that are the ordinal plus one, and a store with one answer and nothing else.\<close>

definition plain_externs :: externs where
  "plain_externs = \<lparr>x_CompareEmbeddings = (=), x_hmac_sha256 = (\<lambda>k m. m), x_NewSHA1 = (\<lambda>b. of_nat (1 + unat (b ! 25))),
     x_json = (\<lambda>_. [])\<rparr>"

definition plain_verifier :: "bytes option \<Rightarrow> string \<Rightarrow> unit Verifier" where
  "plain_verifier answer cls = \<lparr>v_store = \<lparr>GetHoneypotAnswer = (\<lambda>_ _ _. ((answer, cls), None)),
     CandidateWorkers = (\<lambda>_ _ _ _. Inr []), ChunkResults = (\<lambda>_ _ _. Inr []), TiebreakExists = (\<lambda>_ _ _. Inr False),
     SelectRedundancyPeerExcluding = (\<lambda>_ _ _ _ _ _ _ _ _. Inl ErrNoSupply),
     DockReputation = (\<lambda>_ _ s. (None, s)), RecordVerificationEvent = (\<lambda>_ _ _ _ s. (None, s)),
     ClawbackTaskCredit = (\<lambda>_ _ s. (None, s)), QuarantineSupplier = (\<lambda>_ s. (None, s)),
     RequeueTask = (\<lambda>_ s. (None, s)), InsertTiebreakTask = (\<lambda>_ _ _ _ _ s. (Inr 1, s))\<rparr>,
     v_storage = None, v_sampleSecret = []\<rparr>"

abbreviation tie_vote :: "uuid \<Rightarrow> bytes \<Rightarrow> chunkVote" where
  "tie_vote n b \<equiv> ChunkVote n (n + 4) b ''mlx'' ''0123456789abcdef'' currentEngineBuildIdentityPolicy"

theorem tiebreak_penalises_minority_witness:
  "clawed (snd (resolveTiebreak plain_externs (recorder plain_externs (plain_verifier None []) () tie_info) tie_info
     [tie_vote 1 [1], tie_vote 3 [2], tie_vote 2 [1]] [])) = [(3, 7)]"
proof -
  let ?cs = "[tie_vote 1 [1], tie_vote 3 [2], tie_vote 2 [1]]"
  let ?vs = "[tie_vote 1 [1], tie_vote 2 [1], tie_vote 3 [2]]"
  let ?run = "resolveTiebreak plain_externs (recorder plain_externs (plain_verifier None []) () tie_info) tie_info ?cs []"
  have v: "?vs = independentSupplierVotes ?cs"
    by (simp add: independentSupplierVotes_def represent_def insort_key_def less_eq_chunkVote_def chunkVoteLess_def)
  have cmp: "comparedByBytes (ti_jobType tie_info)" by (simp add: tie_info_def comparedByBytes_def)
  have run: "?run = ((fst (fst ?run), snd (fst ?run)), snd ?run)" by simp
  note T = tiebreak_penalises_minority [OF cmp v run]
  have maj: "length ?vs < 2 * count_list (map vote_bytes ?vs) [1] \<and> find (\<lambda>c. vote_bytes c = [1]) ?vs = Some (tie_vote 1 [1])"
    by simp
  have "clawed (snd ?run) = clawed [] @ map (\<lambda>c. (supplierID c, taskID c)) (filter (\<lambda>c. vote_bytes c \<noteq> [1] \<and>
        sameVerificationClass (vote_engine (tie_vote 1 [1])) (vote_buildHash (tie_vote 1 [1])) (vote_engine c) (vote_buildHash c)
         [vote_buildIdentityPolicy (tie_vote 1 [1]), vote_buildIdentityPolicy c]) ?vs)"
    by (rule T [THEN conjunct2, THEN conjunct1, THEN spec, THEN spec, THEN mp, OF maj, unfolded Let_def, THEN conjunct1])
  also have "\<dots> = [(3, 7)]"
    by (simp add: clawed_def validCurrentEngineBuildIdentityPolicy_def)
  finally show ?thesis .
qed

lemma PlanTaskResult_run:
  assumes "verifyTaskResult X (recorder X v r info) info commitTask commitBytes rb [] = ((out, None), es)"
  shows "PlanTaskResult X v r (Some info) commitTask commitBytes rb = (\<lparr>vd_Outcome = out, vd_Effects = es, vd_Failure = None\<rparr>, None)"
  using assms by (simp add: PlanTaskResult_def)

abbreviation penalty_effects :: "CommitTaskInfo \<Rightarrow> uuid \<Rightarrow> string \<Rightarrow> VerificationEffect list" where
  "penalty_effects info commitTask kind \<equiv>
     [raw_dock (ti_SupplierID info) EventHoneypotFail,
      raw_event (ti_JobID info) (ti_TaskID info) (ti_SupplierID info) kind,
      raw_clawback (ti_SupplierID info) (ti_TaskID info),
      (no_effect EffectQuarantine)\<lparr>ve_SupplierID := ti_SupplierID info\<rparr>,
      (no_effect EffectRequeue)\<lparr>ve_TaskID := commitTask\<rparr>]"

lemma honeypot_penalty_plan:
  "honeypot_penalty (recorder X v r info) info commitTask kind es =
     verdict OutcomeFail (fold (rec X info) (penalty_effects info commitTask kind) es)"
  by (simp add: honeypot_penalty_def)

lemma penalty_effects_shape:
  "clawed (fold (rec X info) (penalty_effects info commitTask kind) []) = [(ti_SupplierID info, ti_TaskID info)]"
  "map ve_Kind (fold (rec X info) (penalty_effects info commitTask kind) []) =
     [EffectDockReputation, EffectRecordEvent, EffectClawbackCredit, EffectQuarantine, EffectRequeue]"
  by (simp only: clawed_rec, simp add: clawed_def raw_dock_def raw_event_def raw_clawback_def no_effect_def)
    (subst fold_rec_image, simp, simp add: raw_dock_def raw_event_def raw_clawback_def no_effect_def)

lemma verify_honeypot_answered:
  assumes "GetHoneypotAnswer (v_store v) r (ti_jobType info) (ti_InputRef info) = ((Some answer, cls), None)"
  shows "verify_honeypot X (recorder X v r info) info commitTask commitBytes k es =
     (if byteExactJobType (ti_jobType info) \<and> cls \<noteq> [] \<and>
         cls \<noteq> classKey (ti_engine info) (ti_buildHash info) [ti_buildIdentityPolicy info]
      then verdict OutcomeFail (fold (rec X info) (penalty_effects info commitTask ''honeypot_class_mismatch'') es)
      else if byteHoneypotComparable (ti_jobType info) cls (ti_engine info) (ti_buildHash info) [ti_buildIdentityPolicy info]
      then (if resultsAgree (x_CompareEmbeddings X) (ti_jobType info) commitBytes answer
            then verdict OutcomePass (rec X info (raw_event (ti_JobID info) (ti_TaskID info) (ti_SupplierID info) ''honeypot_pass'')
              (rec X info (raw_dock (ti_SupplierID info) EventHoneypotPass) es))
            else verdict OutcomeFail (fold (rec X info) (penalty_effects info commitTask ''honeypot_fail'') es))
      else k es)"
proof -
  have passed: "effect_then (dock (recorder X v r info) info EventHoneypotPass) OutcomePass
      (effect_then (record_event (recorder X v r info) info ''honeypot_pass'') OutcomePass (verdict OutcomePass)) es =
      verdict OutcomePass (rec X info (raw_event (ti_JobID info) (ti_TaskID info) (ti_SupplierID info) ''honeypot_pass'')
        (rec X info (raw_dock (ti_SupplierID info) EventHoneypotPass) es))" by simp
  have swap: "(if \<not> b then x else y) = (if b then y else x)" for b and x y :: "VerificationEffect list verdict" by simp
  show ?thesis
    unfolding verify_honeypot_def recorder_reads assms prod.case option.case if_False honeypot_penalty_plan passed swap ..
qed

text \<open>
  C11. A probe with a classed answer, on a job compared by bytes, decides alone: the plan never
  errs, passes exactly when the worker's class is the answer's and its bytes are the answer, and
  otherwise rejects with the five consequences in order, clawing back the committed task.
\<close>

theorem honeypot_decides:
  assumes "ti_IsHoneypot info" "comparedByBytes (ti_jobType info)" "cls \<noteq> []"
    and "GetHoneypotAnswer (v_store v) r (ti_jobType info) (ti_InputRef info) = ((Some answer, cls), None)"
    and "PlanTaskResult X v r (Some info) commitTask commitBytes rb = (d, err)"
  shows "err = None \<and>
     (vd_Outcome d = OutcomePass \<longleftrightarrow>
        classKey (ti_engine info) (ti_buildHash info) [ti_buildIdentityPolicy info] = cls \<and> commitBytes = answer) \<and>
     (vd_Outcome d \<noteq> OutcomePass \<longrightarrow>
        vd_Outcome d = OutcomeFail \<and> clawed (vd_Effects d) = [(ti_SupplierID info, ti_TaskID info)] \<and>
        map ve_Kind (vd_Effects d) =
          [EffectDockReputation, EffectRecordEvent, EffectClawbackCredit, EffectQuarantine, EffectRequeue])"
proof -
  have agree: "resultsAgree (x_CompareEmbeddings X) (ti_jobType info) a b \<longleftrightarrow> a = b" for a b
    using resultsAgree_bytes [OF assms(2)] .
  have run: "verifyTaskResult X (recorder X v r info) info commitTask commitBytes rb [] =
      verify_honeypot X (recorder X v r info) info commitTask commitBytes
        (verify_after_honeypot X (recorder X v r info) info commitBytes rb) []"
    using assms(1) by (simp add: verifyTaskResult_def)
  note eval = run [unfolded verify_honeypot_answered [OF assms(4)] agree byteHoneypotComparable_def verdict_def]
  consider (other) "classKey (ti_engine info) (ti_buildHash info) [ti_buildIdentityPolicy info] \<noteq> cls"
    | (wrong) "classKey (ti_engine info) (ti_buildHash info) [ti_buildIdentityPolicy info] = cls" "commitBytes \<noteq> answer"
    | (right) "classKey (ti_engine info) (ti_buildHash info) [ti_buildIdentityPolicy info] = cls" "commitBytes = answer" by blast
  then show ?thesis
  proof cases
    case other
    with eval have "PlanTaskResult X v r (Some info) commitTask commitBytes rb = (\<lparr>vd_Outcome = OutcomeFail,
        vd_Effects = fold (rec X info) (penalty_effects info commitTask ''honeypot_class_mismatch'') [], vd_Failure = None\<rparr>, None)"
      using assms(3) comparedByBytes_exact [OF assms(2)] by (intro PlanTaskResult_run) simp
    then show ?thesis using other assms(5) penalty_effects_shape [where X = X and info = info and commitTask = commitTask and kind = "''honeypot_class_mismatch''"] by auto
  next
    case wrong
    with eval have "PlanTaskResult X v r (Some info) commitTask commitBytes rb = (\<lparr>vd_Outcome = OutcomeFail,
        vd_Effects = fold (rec X info) (penalty_effects info commitTask ''honeypot_fail'') [], vd_Failure = None\<rparr>, None)"
      using assms(3) comparedByBytes_exact [OF assms(2)] by (intro PlanTaskResult_run) simp
    then show ?thesis using wrong assms(5) penalty_effects_shape [where X = X and info = info and commitTask = commitTask and kind = "''honeypot_fail''"] by auto
  next
    case right
    then have "\<exists>es. verifyTaskResult X (recorder X v r info) info commitTask commitBytes rb [] = ((OutcomePass, None), es)"
      using assms(3) unfolding eval by simp
    then obtain es where "verifyTaskResult X (recorder X v r info) info commitTask commitBytes rb [] = ((OutcomePass, None), es)" ..
    then show ?thesis using PlanTaskResult_run assms(5) right by fastforce
  qed
qed

theorem honeypot_decides_witness:
  "vd_Outcome (fst (PlanTaskResult plain_externs (plain_verifier (Some [1]) (classKey ''mlx'' ''0123456789abcdef''
      [currentEngineBuildIdentityPolicy])) () (Some tie_info) 7 [1] None)) = OutcomePass"
proof -
  let ?cls = "classKey ''mlx'' ''0123456789abcdef'' [currentEngineBuildIdentityPolicy]"
  let ?plan = "PlanTaskResult plain_externs (plain_verifier (Some [1]) ?cls) () (Some tie_info) 7 [1] None"
  have "ti_IsHoneypot tie_info" "comparedByBytes (ti_jobType tie_info)" "?cls \<noteq> []"
    "GetHoneypotAnswer (v_store (plain_verifier (Some [1]) ?cls)) () (ti_jobType tie_info) (ti_InputRef tie_info) = ((Some [1], ?cls), None)"
    by (simp_all add: tie_info_def comparedByBytes_def plain_verifier_def classKey_def validCurrentEngineBuildIdentityPolicy_def)
  note T = honeypot_decides [OF this, of plain_externs 7 "[1]" None "fst ?plan" "snd ?plan"]
  have "classKey (ti_engine tie_info) (ti_buildHash tie_info) [ti_buildIdentityPolicy tie_info] = ?cls"
    by (simp add: tie_info_def)
  then show ?thesis using T by simp
qed

text \<open>
  C9. Which planned decisions the store accepts. Let the committed task, its supplier, the
  chunk's rows and the peers carry ids and the effect ids be distinct and not nil. If the
  decision the planner returns records one of the two event kinds the store does not list, the
  shape check refuses it; every other decision passes the effect checks, so that its shape
  check is the check of its settlement rows alone.
\<close>

theorem planned_decision_valid:
  assumes "PlanTaskResult X v r (Some info) commitTask commitBytes rb = (d, None)"
    and "plan_inputs_ok v r info commitTask"
    and "distinct (map ve_ID (vd_Effects d))" "0 \<notin> set (map ve_ID (vd_Effects d))"
  shows "if \<exists>e \<in> set (vd_Effects d). ve_Kind e = EffectRecordEvent \<and>
       ve_EventKind e \<in> {''honeypot_answer_missing'', ''honeypot_class_mismatch''}
     then \<exists>err. validateVerificationDecisionShape X info d entries = Inl err
     else validateVerificationDecisionShape X info d entries = settlement_shape info (vd_Outcome d) entries"
proof (cases "\<exists>e \<in> set (vd_Effects d). ve_Kind e = EffectRecordEvent \<and>
    ve_EventKind e \<in> {''honeypot_answer_missing'', ''honeypot_class_mismatch''}")
  case True
  then obtain e where "e \<in> set (vd_Effects d)" "\<not> effect_allowed info e" by (auto simp: effect_allowed_def)
  then show ?thesis using True bad_effect_rejected by (simp only: if_True)
next
  case False
  have "validateVerificationDecisionShape X info d entries = settlement_shape info (vd_Outcome d) entries"
  proof (intro decision_shape_no_failure)
    show "list_all (effect_allowed info) (vd_Effects d)"
      using planned_canonical(2) [OF assms(1,2)] False unfolding list_all_iff planned_ok_def by blast
  qed (use assms(3,4) PlanTaskResult_ok [OF assms(1)] planned_canonical(1) [OF assms(1,2)] in auto)
  then show ?thesis using False by (simp only: if_False)
qed

text \<open>
  C17. Two probe decisions can never be stored or applied. A probe whose answer is missing, or
  whose answer belongs to another build class than the worker's, is planned with an event kind
  the shape check does not list, so the check refuses the decision whatever the task and
  settlement: the penalties it plans are never carried out.
\<close>

theorem probe_decision_refused:
  assumes "ti_IsHoneypot info" "PlanTaskResult X v r (Some info) commitTask commitBytes rb = (d, None)"
    and "GetHoneypotAnswer (v_store v) r (ti_jobType info) (ti_InputRef info) = ((known, cls), e)"
    and "e = None \<or> e = Some errNotFound"
    and "known = None \<or> byteExactJobType (ti_jobType info) \<and> e = None \<and> cls \<noteq> [] \<and>
        cls \<noteq> classKey (ti_engine info) (ti_buildHash info) [ti_buildIdentityPolicy info]"
  shows "vd_Outcome d = OutcomeFail \<and> (\<exists>err. validateVerificationDecisionShape X info' d entries = Inl err)"
proof -
  let ?V = "recorder X v r info"
  have run: "verify_honeypot X ?V info commitTask commitBytes (verify_after_honeypot X ?V info commitBytes rb) [] =
      ((vd_Outcome d, None), vd_Effects d)"
    using PlanTaskResult_ok(2) [OF assms(2)] assms(1) by (simp add: verifyTaskResult_def)
  have refused: ?thesis
    if "((vd_Outcome d, None), vd_Effects d) = verdict OutcomeFail es" "kind \<in> {''honeypot_answer_missing'', ''honeypot_class_mismatch''}"
      "(raw_event (ti_JobID info) (ti_TaskID info) (ti_SupplierID info) kind)\<lparr>ve_ID := x\<rparr> \<in> set es" for es kind x
    using that bad_effect_rejected [of _ d info' X entries]
    by (auto simp: verdict_def effect_allowed_def raw_event_def no_effect_def)
  show ?thesis
  proof (cases known)
    case None
    have "verify_honeypot X ?V info commitTask commitBytes (verify_after_honeypot X ?V info commitBytes rb) [] =
        verdict OutcomeFail (rec X info (raw_event (ti_JobID info) (ti_TaskID info) (ti_SupplierID info) ''honeypot_answer_missing'') [])"
      using assms(3,4) None by (auto simp: verify_honeypot_def)
    then show ?thesis using run by (intro refused) (auto simp: record_append_def)
  next
    case (Some answer)
    let ?es = "fold (rec X info) (penalty_effects info commitTask ''honeypot_class_mismatch'') []"
    have e: "e = None" and diff: "byteExactJobType (ti_jobType info) \<and> cls \<noteq> [] \<and>
        cls \<noteq> classKey (ti_engine info) (ti_buildHash info) [ti_buildIdentityPolicy info]" using assms(5) Some by auto
    have "((vd_Outcome d, None), vd_Effects d) = verdict OutcomeFail ?es"
      using run verify_honeypot_answered [OF assms(3) [unfolded Some e], of X commitTask commitBytes _ "[]"] diff by simp
    moreover have "(raw_event (ti_JobID info) (ti_TaskID info) (ti_SupplierID info) ''honeypot_class_mismatch'')\<lparr>ve_ID :=
        verificationEffectPayloadID X (ti_TaskID info) (ti_Attempt info) (Suc 0)
          (raw_event (ti_JobID info) (ti_TaskID info) (ti_SupplierID info) ''honeypot_class_mismatch'')\<rparr> \<in> set ?es"
      by (simp add: record_append_def)
    ultimately show ?thesis by (intro refused [of ?es "''honeypot_class_mismatch''"]) simp_all
  qed
qed

theorem probe_decision_refused_witness:
  "\<exists>err. validateVerificationDecisionShape plain_externs tie_info
     (fst (PlanTaskResult plain_externs (plain_verifier (Some [1]) ''other'') () (Some tie_info) 7 [1] None)) [] = Inl err"
proof -
  let ?v = "plain_verifier (Some [1]) ''other''"
  have get: "GetHoneypotAnswer (v_store ?v) () (ti_jobType tie_info) (ti_InputRef tie_info) = ((Some [1], ''other''), None)"
    by (simp add: plain_verifier_def)
  have cls: "byteExactJobType (ti_jobType tie_info) \<and> ''other'' \<noteq> [] \<and>
      ''other'' \<noteq> classKey (ti_engine tie_info) (ti_buildHash tie_info) [ti_buildIdentityPolicy tie_info]"
    by (simp add: tie_info_def byteExactJobType_def classKey_def validCurrentEngineBuildIdentityPolicy_def)
  have hp: "ti_IsHoneypot tie_info" by (simp add: tie_info_def)
  have "PlanTaskResult plain_externs ?v () (Some tie_info) 7 [1] None =
      (fst (PlanTaskResult plain_externs ?v () (Some tie_info) 7 [1] None), None)"
    using hp cls by (simp add: PlanTaskResult_def verifyTaskResult_def verify_honeypot_answered [OF get] verdict_def)
  then show ?thesis using probe_decision_refused [OF hp _ get] cls by blast
qed

theorem planned_decision_valid_witness:
  "validateVerificationDecisionShape plain_externs tie_info
     (fst (PlanTaskResult plain_externs (plain_verifier (Some [2]) (classKey ''mlx'' ''0123456789abcdef''
        [currentEngineBuildIdentityPolicy])) () (Some tie_info) 7 [1] None)) [] = Inr ()"
proof -
  let ?v = "plain_verifier (Some [2]) (classKey ''mlx'' ''0123456789abcdef'' [currentEngineBuildIdentityPolicy])"
  let ?es = "fold (rec plain_externs tie_info) (penalty_effects tie_info 7 ''honeypot_fail'') []"
  let ?d = "\<lparr>vd_Outcome = OutcomeFail, vd_Effects = ?es, vd_Failure = None\<rparr>"
  have get: "GetHoneypotAnswer (v_store ?v) () (ti_jobType tie_info) (ti_InputRef tie_info) =
      ((Some [2], classKey (ti_engine tie_info) (ti_buildHash tie_info) [ti_buildIdentityPolicy tie_info]), None)"
    by (simp add: plain_verifier_def tie_info_def)
  have cmp: "byteHoneypotComparable (ti_jobType tie_info)
      (classKey (ti_engine tie_info) (ti_buildHash tie_info) [ti_buildIdentityPolicy tie_info])
      (ti_engine tie_info) (ti_buildHash tie_info) [ti_buildIdentityPolicy tie_info]"
    "\<not> resultsAgree (x_CompareEmbeddings plain_externs) (ti_jobType tie_info) [1] [2]" "ti_IsHoneypot tie_info"
    by (simp_all add: byteHoneypotComparable_def classKey_def tie_info_def validCurrentEngineBuildIdentityPolicy_def resultsAgree_def)
  have plan: "PlanTaskResult plain_externs ?v () (Some tie_info) 7 [1] None = (?d, None)"
    using cmp by (intro PlanTaskResult_run) (simp only: verifyTaskResult_def verify_honeypot_answered [OF get] verdict_def if_True if_False simp_thms)
  have ok: "plan_inputs_ok ?v () tie_info 7" by (simp add: plan_inputs_ok_def plain_verifier_def tie_info_def)
  have ids: "map ve_ID ?es = [1, 2, 3, 4, 5]" by code_simp
  have kinds: "map ve_EventKind ?es = [[], ''honeypot_fail'', [], [], []]" by code_simp
  have "\<forall>k \<in> ve_EventKind ` set ?es. k \<notin> {''honeypot_answer_missing'', ''honeypot_class_mismatch''}"
    unfolding set_map [symmetric] kinds by simp
  then have none: "\<not> (\<exists>e \<in> set (vd_Effects ?d). ve_Kind e = EffectRecordEvent \<and>
      ve_EventKind e \<in> {''honeypot_answer_missing'', ''honeypot_class_mismatch''})"
    unfolding VerificationDecision.select_convs by blast
  have "distinct (map ve_ID (vd_Effects ?d))" "0 \<notin> set (map ve_ID (vd_Effects ?d))"
    unfolding VerificationDecision.select_convs ids by simp_all
  from planned_decision_valid [OF plan ok this, of "[]"]
  have "validateVerificationDecisionShape plain_externs tie_info ?d [] = settlement_shape tie_info (vd_Outcome ?d) []"
    unfolding if_not_P [OF none] .
  then show ?thesis unfolding plan by (simp add: settlement_shape_def)
qed

section \<open>Unusable artifacts\<close>

lemma number_effects_nth:
  "k < length es \<Longrightarrow> number_effects X info i es ! k =
     (es ! k)\<lparr>ve_ID := verificationEffectPayloadID X (ti_TaskID info) (ti_Attempt info) (i + k) (es ! k)\<rparr>"
proof (induction es arbitrary: i k)
  case (Cons e es)
  then show ?case by (cases k) simp_all
qed simp

lemma length_number_effects [simp]: "length (number_effects X info i es) = length es"
  by (induction es arbitrary: i) simp_all

lemma effects_shape_seen:
  assumes "effects_shape X info (Some f) i seen fs es = Inr b"
  shows "b \<longleftrightarrow> fs \<or> (\<exists>e \<in> set es. ve_Kind e = EffectRecordEvent \<and> ve_EventKind e = vf_Kind f)"
  using assms by (induction es arbitrary: i seen fs) (auto split: if_splits)

lemma artifact_failure_shape:
  assumes "d = artifactFailureDecision X info es kind code"
    and "distinct (map ve_ID (vd_Effects d))" "0 \<notin> set (map ve_ID (vd_Effects d))"
    and "\<forall>e \<in> set es. \<forall>x. effect_allowed info (e\<lparr>ve_ID := x\<rparr>)" "eff_event info kind \<in> set es"
    and "code \<noteq> []" "kind \<in> set [''artifact_invalid'', ''artifact_oversize'', ''artifact_unavailable'']"
  shows "validateVerificationDecisionShape X info d entries = settlement_shape info OutcomeFail entries"
proof -
  let ?f = "\<lparr>vf_Kind = kind, vf_Code = code, vf_JobType = ti_jobType info\<rparr>"
  have d: "vd_Outcome d = OutcomeFail" "vd_Failure d = Some ?f" "vd_Effects d = number_effects X info 0 es"
    using assms(1) by (simp_all add: artifactFailureDecision_def)
  have "\<forall>k < length (vd_Effects d). ve_ID (vd_Effects d ! k) \<noteq> 0" using assms(3) by (metis image_eqI nth_mem set_map)
  moreover have "\<forall>k < length es. effect_allowed info (vd_Effects d ! k) \<and>
      ve_ID (vd_Effects d ! k) = verificationEffectPayloadID X (ti_TaskID info) (ti_Attempt info) k (vd_Effects d ! k)"
    unfolding d(3) using assms(4) by (simp add: number_effects_nth)
  ultimately have "\<exists>b. effects_shape X info (Some ?f) 0 [] False (vd_Effects d) = Inr b"
    unfolding effects_shape_ok using assms(2) d(3) by simp
  then obtain b where b: "effects_shape X info (Some ?f) 0 [] False (vd_Effects d) = Inr b" ..
  obtain k where k: "k < length es" "es ! k = eff_event info kind" using assms(5) by (auto simp: in_set_conv_nth)
  then have "ve_Kind (vd_Effects d ! k) = EffectRecordEvent" "ve_EventKind (vd_Effects d ! k) = kind"
    unfolding d(3) by (simp_all add: number_effects_nth eff_event_def no_effect_def)
  moreover have "vd_Effects d ! k \<in> set (vd_Effects d)" using k(1) d(3) by (intro nth_mem) simp
  ultimately have b unfolding effects_shape_seen [OF b] VerificationFailure.select_convs by blast
  moreover have "failure_typed info d" using d(1,2) assms(6,7) by (simp add: failure_typed_def)
  ultimately show ?thesis using b d(1,2) by (simp add: validateVerificationDecisionShape_def bind_result_def)
qed

lemma number_effects_kinds: "map ve_Kind (number_effects X info i es) = map ve_Kind es"
  by (induction es arbitrary: i) simp_all

lemmas eff_defs = eff_dock_def eff_event_def eff_clawback_def eff_quarantine_def eff_requeue_def no_effect_def

text \<open>
  C34. The three decisions for an artifact that cannot be used (unreadable after the last
  attempt, larger than its cap, not a valid result) are always stored: with effect ids that
  do not collide, each passes the shape check exactly with no settlement rows, rejects the
  commit, and requeues the task once.
\<close>

theorem artifact_failure_accepted:
  assumes "ti_TaskID info \<noteq> 0" "ti_SupplierID info \<noteq> 0"
    and "d \<in> {unavailableArtifactDecision X info, oversizedArtifactDecision X info, invalidResultVerificationDecision X info typed}"
    and "distinct (map ve_ID (vd_Effects d))" "0 \<notin> set (map ve_ID (vd_Effects d))"
  shows "(validateVerificationDecisionShape X info d entries = Inr () \<longleftrightarrow> entries = []) \<and>
     vd_Outcome d = OutcomeFail \<and> count_list (map ve_Kind (vd_Effects d)) EffectRequeue = 1"
proof -
  have shape: "settlement_shape info OutcomeFail entries = Inr () \<longleftrightarrow> entries = []" by (simp add: settlement_shape_def)
  have allowed: "effect_allowed info ((eff_dock info ev)\<lparr>ve_ID := x\<rparr>) \<longleftrightarrow> verificationReputationEventAllowed ev"
    "effect_allowed info ((eff_event info k)\<lparr>ve_ID := x\<rparr>) \<longleftrightarrow> verificationEventKindAllowed k"
    "effect_allowed info ((eff_clawback info)\<lparr>ve_ID := x\<rparr>)" "effect_allowed info ((eff_quarantine info)\<lparr>ve_ID := x\<rparr>)"
    "effect_allowed info ((eff_requeue info)\<lparr>ve_ID := x\<rparr>)" for ev k x
    using assms(1,2) by (simp_all add: effect_allowed_def eff_defs)
  have ok: "validateVerificationDecisionShape X info d entries = settlement_shape info OutcomeFail entries"
    using assms(3-5) unfolding insert_iff empty_iff
    by (elim disjE FalseE)
      (erule_tac artifact_failure_shape [OF trans [OF _ unavailableArtifactDecision_def]]
        artifact_failure_shape [OF trans [OF _ oversizedArtifactDecision_def]]
        artifact_failure_shape [OF trans [OF _ invalidResultVerificationDecision_def [unfolded Let_def]]],
       (simp_all add: allowed verificationReputationEventAllowed_def split: option.split)[6])+
  have "vd_Outcome d = OutcomeFail" "count_list (map ve_Kind (vd_Effects d)) EffectRequeue = 1"
    using assms(3) by (auto simp: unavailableArtifactDecision_def oversizedArtifactDecision_def
      invalidResultVerificationDecision_def artifactFailureDecision_def number_effects_kinds Let_def eff_defs)
  then show ?thesis using ok shape by simp
qed


theorem artifact_failure_accepted_witness:
  "validateVerificationDecisionShape plain_externs tie_info (oversizedArtifactDecision plain_externs tie_info) [] = Inr ()"
proof -
  have ids: "map ve_ID (vd_Effects (oversizedArtifactDecision plain_externs tie_info)) = [1, 2, 3, 4]" by code_simp
  have "ti_TaskID tie_info \<noteq> 0" "ti_SupplierID tie_info \<noteq> 0" by (simp_all add: tie_info_def)
  then show ?thesis
    using artifact_failure_accepted [of tie_info "oversizedArtifactDecision plain_externs tie_info" plain_externs None "[]"]
    unfolding ids by simp
qed

end
