(* ===== verification/Api_Key_Cache.thy ===== *)
theory Api_Key_Cache
  imports Sql_Tx "HOL-Library.AList"
begin

text \<open>
  The API key authentication cache (\<^verbatim>\<open>api_key_cache.go\<close>) and the operations around it
  (\<^verbatim>\<open>LookupAPIKey\<close>, \<^verbatim>\<open>CreateAPIKey\<close>, \<^verbatim>\<open>RevokeAPIKey\<close> of \<^verbatim>\<open>store.go\<close>, the tombstones of
  \<^verbatim>\<open>data_governance.go\<close>). The cache methods are functions on its three maps; the concurrent
  requests of one process are a transition system whose steps are the critical sections and
  the SQL statements, with the calls that requests of one key share.
\<close>

section \<open>The cache\<close>

type_synonym apiKeyCacheKey = "8 word list"

record AuthResult =
  ar_BuyerID :: uuid
  ar_IsAdmin :: bool
  ar_APIKeyID :: uuid
  ar_APIKeyLabel :: string

record apiKeyCacheEntry =
  ce_auth :: AuthResult
  ce_expiresAt :: int

text \<open>Times are nanoseconds. The maps are nil until the first \<^verbatim>\<open>put\<close>.\<close>

definition apiKeyCacheTTL :: int where "apiKeyCacheTTL = 250 * 1000000"
definition apiKeyCacheMaxEntries :: nat where "apiKeyCacheMaxEntries = 4096"

record cache_maps =
  ac_entries :: "(apiKeyCacheKey \<times> apiKeyCacheEntry) list"
  ac_byID :: "(uuid \<times> apiKeyCacheKey) list"
  ac_byBuyer :: "(uuid \<times> apiKeyCacheKey list) list"

type_synonym apiKeyCache = "cache_maps option"

definition drop_key :: "uuid \<Rightarrow> apiKeyCacheKey \<Rightarrow> (uuid \<times> apiKeyCacheKey list) list \<Rightarrow> (uuid \<times> apiKeyCacheKey list) list" where
  "drop_key buyer keyHash byBuyer =
     (case map_of byBuyer buyer of
        None \<Rightarrow> byBuyer
      | Some keys \<Rightarrow>
          let keys' = removeAll keyHash keys in
          if keys' = [] then AList.delete buyer byBuyer else AList.update buyer keys' byBuyer)"

definition removeLocked_key :: "apiKeyCacheKey \<Rightarrow> cache_maps \<Rightarrow> cache_maps" where
  "removeLocked_key keyHash c =
     (case map_of (ac_entries c) keyHash of
        None \<Rightarrow> c
      | Some e \<Rightarrow> c\<lparr>ac_entries := AList.delete keyHash (ac_entries c),
          ac_byID := AList.delete (ar_APIKeyID (ce_auth e)) (ac_byID c),
          ac_byBuyer := drop_key (ar_BuyerID (ce_auth e)) keyHash (ac_byBuyer c)\<rparr>)"

text \<open>
  \<^verbatim>\<open>get\<close> reads under the read lock; only an expired entry sends it on, with a new clock
  reading, to the section under the write lock.
\<close>

definition get_read :: "apiKeyCacheKey \<Rightarrow> int \<Rightarrow> apiKeyCache \<Rightarrow> AuthResult option \<times> bool" where
  "get_read keyHash now c =
     (case c of None \<Rightarrow> (None, False) | Some m \<Rightarrow>
      case map_of (ac_entries m) keyHash of None \<Rightarrow> (None, False) | Some e \<Rightarrow>
      if \<not> ce_expiresAt e < now then (Some (ce_auth e), False) else (None, True))"

definition get_locked :: "apiKeyCacheKey \<Rightarrow> int \<Rightarrow> apiKeyCache \<Rightarrow> AuthResult option \<times> apiKeyCache" where
  "get_locked keyHash now c =
     (case c of None \<Rightarrow> (None, c) | Some m \<Rightarrow>
      case map_of (ac_entries m) keyHash of None \<Rightarrow> (None, c) | Some e \<Rightarrow>
      if ce_expiresAt e < now then (None, Some (removeLocked_key keyHash m)) else (Some (ce_auth e), c))"

definition get_key :: "apiKeyCacheKey \<Rightarrow> int \<Rightarrow> int \<Rightarrow> apiKeyCache \<Rightarrow> AuthResult option \<times> apiKeyCache" where
  "get_key keyHash now now' c =
     (case get_read keyHash now c of
        (Some a, _) \<Rightarrow> (Some a, c) | (None, False) \<Rightarrow> (None, c) | (None, True) \<Rightarrow> get_locked keyHash now' c)"

text \<open>When the cache is full the map walk gives some entry to evict: the one at a position the caller picks.\<close>

definition evict :: "nat \<Rightarrow> cache_maps \<Rightarrow> cache_maps" where
  "evict pick c =
     (if apiKeyCacheMaxEntries \<le> length (ac_entries c)
      then removeLocked_key (fst (ac_entries c ! (pick mod length (ac_entries c)))) c else c)"

definition add_key :: "uuid \<Rightarrow> apiKeyCacheKey \<Rightarrow> (uuid \<times> apiKeyCacheKey list) list \<Rightarrow> (uuid \<times> apiKeyCacheKey list) list" where
  "add_key buyer keyHash byBuyer =
     AList.update buyer (List.insert keyHash (case map_of byBuyer buyer of None \<Rightarrow> [] | Some keys \<Rightarrow> keys)) byBuyer"

definition displace :: "apiKeyCacheKey \<Rightarrow> AuthResult \<Rightarrow> cache_maps \<Rightarrow> cache_maps" where
  "displace keyHash auth c =
     (case map_of (ac_byID c) (ar_APIKeyID auth) of
        None \<Rightarrow> c | Some prev \<Rightarrow> if prev \<noteq> keyHash then removeLocked_key prev c else c)"

definition put :: "apiKeyCacheKey \<Rightarrow> AuthResult \<Rightarrow> int \<Rightarrow> nat \<Rightarrow> apiKeyCache \<Rightarrow> apiKeyCache" where
  "put keyHash auth now pick c =
     (if ar_IsAdmin auth \<or> ar_APIKeyID auth = uuid_Nil then c
      else let m = (case c of None \<Rightarrow> \<lparr>ac_entries = [], ac_byID = [], ac_byBuyer = []\<rparr> | Some m \<Rightarrow> m);
               m' = displace keyHash auth (evict pick m)
           in Some (m'\<lparr>ac_entries := AList.update keyHash \<lparr>ce_auth = auth, ce_expiresAt = now + apiKeyCacheTTL\<rparr> (ac_entries m'),
                       ac_byID := AList.update (ar_APIKeyID auth) keyHash (ac_byID m'),
                       ac_byBuyer := add_key (ar_BuyerID auth) keyHash (ac_byBuyer m')\<rparr>))"

definition invalidateID :: "uuid \<Rightarrow> apiKeyCache \<Rightarrow> apiKeyCache" where
  "invalidateID keyID c =
     (case c of None \<Rightarrow> None | Some m \<Rightarrow>
      case map_of (ac_byID m) keyID of None \<Rightarrow> c | Some h \<Rightarrow> Some (removeLocked_key h m))"

text \<open>Removing a key while the walk is at it drops that key alone from the set that is walked.\<close>

definition invalidateBuyer :: "uuid \<Rightarrow> apiKeyCache \<Rightarrow> apiKeyCache" where
  "invalidateBuyer buyerID c =
     (case c of None \<Rightarrow> None | Some m \<Rightarrow>
      Some (fold removeLocked_key (case map_of (ac_byBuyer m) buyerID of None \<Rightarrow> [] | Some keys \<Rightarrow> keys) m))"

section \<open>Authentication\<close>

text \<open>The rows of \<^verbatim>\<open>api_keys\<close>; a missing buyer is the nil id, which is no buyer's.\<close>

record APIKey =
  ak_ID :: uuid
  ak_BuyerID :: uuid
  ak_KeyHash :: apiKeyCacheKey
  ak_IsAdmin :: bool
  ak_Name :: string
  ak_Revoked :: bool

record auth_db =
  db_keys :: "APIKey list"
  db_buyers :: "uuid list"

definition key_live :: "auth_db \<Rightarrow> APIKey \<Rightarrow> bool" where
  "key_live db r \<longleftrightarrow> \<not> ak_Revoked r \<and> (ak_IsAdmin r \<or> ak_BuyerID r \<in> set (db_buyers db))"

definition auth_of :: "APIKey \<Rightarrow> AuthResult" where
  "auth_of r = \<lparr>ar_BuyerID = ak_BuyerID r, ar_IsAdmin = ak_IsAdmin r, ar_APIKeyID = ak_ID r,
     ar_APIKeyLabel = (if ak_Name r \<noteq> [] then ak_Name r
       else if ak_IsAdmin r then ''break-glass API key'' else ''API key'')\<rparr>"

definition select_key :: "apiKeyCacheKey \<Rightarrow> auth_db \<Rightarrow> AuthResult option" where
  "select_key keyHash db = map_option auth_of (find (\<lambda>r. ak_KeyHash r = keyHash \<and> key_live db r) (db_keys db))"

definition insert_key :: "APIKey \<Rightarrow> auth_db \<Rightarrow> auth_db" where
  "insert_key r db = db\<lparr>db_keys := db_keys db @ [r]\<rparr>"

definition revoke_update :: "uuid \<Rightarrow> uuid \<Rightarrow> auth_db \<Rightarrow> auth_db" where
  "revoke_update buyerID keyID db =
     db\<lparr>db_keys := map (\<lambda>r. if ak_ID r = keyID \<and> ak_BuyerID r = buyerID then r\<lparr>ak_Revoked := True\<rparr> else r) (db_keys db)\<rparr>"

definition tombstone_update :: "uuid \<Rightarrow> auth_db \<Rightarrow> auth_db" where
  "tombstone_update buyerID db =
     \<lparr>db_keys = filter (\<lambda>r. ak_BuyerID r \<noteq> buyerID) (db_keys db), db_buyers = removeAll buyerID (db_buyers db)\<rparr>"

text \<open>\<^verbatim>\<open>LookupAPIKey\<close> with nothing running beside it: the clock is read up to five times.\<close>

definition LookupAPIKey ::
    "(string \<Rightarrow> apiKeyCacheKey) \<Rightarrow> (nat \<Rightarrow> int) \<Rightarrow> nat \<Rightarrow> string \<Rightarrow> auth_db \<Rightarrow> apiKeyCache \<Rightarrow> AuthResult result \<times> apiKeyCache" where
  "LookupAPIKey Sum256 clock pick rawKey db c =
     (let keyDigest = Sum256 rawKey in
      case get_key keyDigest (clock 0) (clock 1) c of
        (Some cached, c1) \<Rightarrow> (Inr cached, c1)
      | (None, c1) \<Rightarrow>
          (case get_key keyDigest (clock 2) (clock 3) c1 of
             (Some cached, c2) \<Rightarrow> (Inr cached, c2)
           | (None, c2) \<Rightarrow>
               (case select_key keyDigest db of
                  None \<Rightarrow> (Inl (Sentinel ''errNotFound''), c2)
                | Some r \<Rightarrow> (Inr r, put keyDigest r (clock 4) pick c2))))"

section \<open>Concurrent requests\<close>

text \<open>
  A call of \<^verbatim>\<open>apiKeyLookups.Do\<close> that is running: where its function is, and how many requests
  joined it. Of \<^verbatim>\<open>singleflight\<close> the model uses what its documentation says: a request either
  runs the function itself or joins a call of the same key that is still running, and a call
  that ends gives its result to all who joined it. Which of the two happens is left open, so
  that the steps include every schedule in which at most one call of a key runs.

  A started call reads the cache, again under the write lock if the entry has expired; on a miss
  it queries, and holds the answer until it has stored it.
\<close>

datatype flight_phase = Started | Expired | Missed | Held AuthResult | Returned "AuthResult result"

record flight =
  fl_key :: apiKeyCacheKey
  fl_phase :: flight_phase
  fl_waiters :: nat

text \<open>
  The state of one process and its database: the running calls, the revocations and tombstones
  between their SQL and their invalidation, every key id ever issued, and the clock. A
  revocation by another process is one that never invalidates here.
\<close>

record auth_state =
  au_db :: auth_db
  au_cache :: apiKeyCache
  au_flights :: "flight list"
  au_revokes :: "uuid list"
  au_tombstones :: "uuid list"
  au_ids :: "uuid list"
  au_clock :: int

datatype auth_event =
    Signup uuid
  | Mint APIKey
  | Hit apiKeyCacheKey int AuthResult
  | Recheck apiKeyCacheKey int "AuthResult option"
  | Lead apiKeyCacheKey
  | Join apiKeyCacheKey
  | Check apiKeyCacheKey int "AuthResult option"
  | CheckLocked apiKeyCacheKey int "AuthResult option"
  | Query apiKeyCacheKey AuthResult
  | QueryFails apiKeyCacheKey go_error
  | Fill apiKeyCacheKey AuthResult int nat
  | Finish apiKeyCacheKey "AuthResult result" nat
  | Revoke uuid uuid
  | Revoked uuid
  | Tombstone uuid
  | Tombstoned uuid

abbreviation "errKeyNotFound \<equiv> Sentinel ''errNotFound''"

definition auth_init :: "auth_state \<Rightarrow> bool" where
  "auth_init s \<longleftrightarrow> au_cache s = None \<and> au_flights s = [] \<and> au_revokes s = [] \<and> au_tombstones s = [] \<and>
     distinct (map ak_ID (db_keys (au_db s))) \<and> set (map ak_ID (db_keys (au_db s))) \<subseteq> set (au_ids s)"

definition minted :: "APIKey \<Rightarrow> auth_state \<Rightarrow> bool" where
  "minted r s \<longleftrightarrow> ak_BuyerID r \<in> set (db_buyers (au_db s)) \<and> \<not> ak_IsAdmin r \<and> \<not> ak_Revoked r \<and>
     ak_ID r \<noteq> uuid_Nil \<and> ak_ID r \<notin> set (au_ids s) \<and> ak_KeyHash r \<notin> set (map ak_KeyHash (db_keys (au_db s)))"

definition set_flight :: "flight \<Rightarrow> flight \<Rightarrow> auth_state \<Rightarrow> auth_state" where
  "set_flight f f' s = s\<lparr>au_flights := f' # remove1 f (au_flights s)\<rparr>"

definition checked :: "AuthResult option \<Rightarrow> bool \<Rightarrow> flight_phase" where
  "checked found again = (case found of Some a \<Rightarrow> Returned (Inr a) | None \<Rightarrow> if again then Expired else Missed)"

text \<open>
  The steps of \<^verbatim>\<open>LookupAPIKey\<close>. \<^verbatim>\<open>Hit\<close> and \<^verbatim>\<open>Recheck\<close> are the first \<^verbatim>\<open>get\<close> of a request; the others are
  those of the call it leads or joins, up to \<^verbatim>\<open>Finish\<close>, which answers the leader and those who
  joined.
\<close>

inductive lookup_step :: "auth_state \<Rightarrow> auth_event \<Rightarrow> auth_state \<Rightarrow> bool" where
  hit: "au_clock s \<le> t \<Longrightarrow> get_read k t (au_cache s) = (Some a, again) \<Longrightarrow>
     lookup_step s (Hit k t a) (s\<lparr>au_clock := t\<rparr>)"
| recheck: "au_clock s \<le> t \<Longrightarrow> get_locked k t (au_cache s) = (found, c) \<Longrightarrow>
     lookup_step s (Recheck k t found) (s\<lparr>au_cache := c, au_clock := t\<rparr>)"
| lead: "lookup_step s (Lead k) (s\<lparr>au_flights := \<lparr>fl_key = k, fl_phase = Started, fl_waiters = 0\<rparr> # au_flights s\<rparr>)"
| join: "f \<in> set (au_flights s) \<Longrightarrow> fl_key f = k \<Longrightarrow>
     lookup_step s (Join k) (set_flight f (f\<lparr>fl_waiters := Suc (fl_waiters f)\<rparr>) s)"
| check: "f \<in> set (au_flights s) \<Longrightarrow> fl_key f = k \<Longrightarrow> fl_phase f = Started \<Longrightarrow> au_clock s \<le> t \<Longrightarrow>
     get_read k t (au_cache s) = (found, again) \<Longrightarrow>
     lookup_step s (Check k t found) (set_flight f (f\<lparr>fl_phase := checked found again\<rparr>) (s\<lparr>au_clock := t\<rparr>))"
| check_locked: "f \<in> set (au_flights s) \<Longrightarrow> fl_key f = k \<Longrightarrow> fl_phase f = Expired \<Longrightarrow> au_clock s \<le> t \<Longrightarrow>
     get_locked k t (au_cache s) = (found, c) \<Longrightarrow>
     lookup_step s (CheckLocked k t found)
       (set_flight f (f\<lparr>fl_phase := checked found False\<rparr>) (s\<lparr>au_cache := c, au_clock := t\<rparr>))"
| query: "f \<in> set (au_flights s) \<Longrightarrow> fl_key f = k \<Longrightarrow> fl_phase f = Missed \<Longrightarrow> select_key k (au_db s) = Some a \<Longrightarrow>
     lookup_step s (Query k a) (set_flight f (f\<lparr>fl_phase := Held a\<rparr>) s)"
| query_fails: "f \<in> set (au_flights s) \<Longrightarrow> fl_key f = k \<Longrightarrow> fl_phase f = Missed \<Longrightarrow>
     e \<noteq> errKeyNotFound \<or> select_key k (au_db s) = None \<Longrightarrow>
     lookup_step s (QueryFails k e) (set_flight f (f\<lparr>fl_phase := Returned (Inl e)\<rparr>) s)"
| fill: "f \<in> set (au_flights s) \<Longrightarrow> fl_key f = k \<Longrightarrow> fl_phase f = Held a \<Longrightarrow> au_clock s \<le> t \<Longrightarrow>
     lookup_step s (Fill k a t pick)
       (set_flight f (f\<lparr>fl_phase := Returned (Inr a)\<rparr>) (s\<lparr>au_cache := put k a t pick (au_cache s), au_clock := t\<rparr>))"
| finish: "f \<in> set (au_flights s) \<Longrightarrow> fl_key f = k \<Longrightarrow> fl_phase f = Returned res \<Longrightarrow> fl_waiters f = n \<Longrightarrow>
     lookup_step s (Finish k res n) (s\<lparr>au_flights := remove1 f (au_flights s)\<rparr>)"

inductive auth_step :: "auth_state \<Rightarrow> auth_event \<Rightarrow> auth_state \<Rightarrow> bool" where
  looked_up: "lookup_step s e s' \<Longrightarrow> auth_step s e s'"
| signup: "b \<noteq> uuid_Nil \<Longrightarrow>
     auth_step s (Signup b) (s\<lparr>au_db := (au_db s)\<lparr>db_buyers := b # db_buyers (au_db s)\<rparr>\<rparr>)"
| mint: "minted r s \<Longrightarrow>
     auth_step s (Mint r) (s\<lparr>au_db := insert_key r (au_db s), au_ids := ak_ID r # au_ids s\<rparr>)"
| revoke: "auth_step s (Revoke b i) (s\<lparr>au_db := revoke_update b i (au_db s), au_revokes := i # au_revokes s\<rparr>)"
| revoked: "i \<in> set (au_revokes s) \<Longrightarrow>
     auth_step s (Revoked i) (s\<lparr>au_cache := invalidateID i (au_cache s), au_revokes := remove1 i (au_revokes s)\<rparr>)"
| tombstone: "auth_step s (Tombstone b)
     (s\<lparr>au_db := tombstone_update b (au_db s), au_tombstones := b # au_tombstones s\<rparr>)"
| tombstoned: "b \<in> set (au_tombstones s) \<Longrightarrow>
     auth_step s (Tombstoned b)
       (s\<lparr>au_cache := invalidateBuyer b (au_cache s), au_tombstones := remove1 b (au_tombstones s)\<rparr>)"

inductive auth_trace :: "auth_state \<Rightarrow> auth_event list \<Rightarrow> auth_state \<Rightarrow> bool" for s where
  trace_nil: "auth_trace s [] s"
| trace_snoc: "auth_trace s evs s' \<Longrightarrow> auth_step s' e s'' \<Longrightarrow> auth_trace s (evs @ [e]) s''"

inductive_cases lookup_step_hit: "lookup_step s (Hit k t a) s'"
inductive_cases lookup_step_recheck: "lookup_step s (Recheck k t found) s'"
inductive_cases lookup_step_check: "lookup_step s (Check k t found) s'"
inductive_cases lookup_step_check_locked: "lookup_step s (CheckLocked k t found) s'"
inductive_cases lookup_step_query: "lookup_step s (Query k a) s'"
inductive_cases lookup_step_fill: "lookup_step s (Fill k a t pick) s'"
inductive_cases lookup_step_finish: "lookup_step s (Finish k res n) s'"
inductive_cases lookup_step_revoke: "lookup_step s (Revoke b i) s'"
inductive_cases lookup_step_revoked: "lookup_step s (Revoked i) s'"
inductive_cases auth_step_revoke: "auth_step s (Revoke b i) s'"
inductive_cases auth_step_revoked: "auth_step s (Revoked i) s'"

lemma set_flight_simps [simp]:
  "au_db (set_flight f f' s) = au_db s" "au_cache (set_flight f f' s) = au_cache s" "au_clock (set_flight f f' s) = au_clock s"
  "au_ids (set_flight f f' s) = au_ids s" "au_flights (set_flight f f' s) = f' # remove1 f (au_flights s)"
  by (simp_all add: set_flight_def)

section \<open>The cache maps\<close>

abbreviation cached :: "apiKeyCache \<Rightarrow> apiKeyCacheKey \<Rightarrow> apiKeyCacheEntry option" where
  "cached c k \<equiv> Option.bind c (\<lambda>m. map_of (ac_entries m) k)"

abbreviation entry_ID :: "apiKeyCacheEntry \<Rightarrow> uuid" where "entry_ID e \<equiv> ar_APIKeyID (ce_auth e)"
abbreviation entry_buyer :: "apiKeyCacheEntry \<Rightarrow> uuid" where "entry_buyer e \<equiv> ar_BuyerID (ce_auth e)"

text \<open>Every entry is found again through its key id and through its buyer.\<close>

definition cache_indexed :: "cache_maps \<Rightarrow> bool" where
  "cache_indexed m \<longleftrightarrow> distinct (map fst (ac_entries m)) \<and>
     (\<forall>k e. map_of (ac_entries m) k = Some e \<longrightarrow>
        map_of (ac_byID m) (entry_ID e) = Some k \<and>
        (\<exists>ks. map_of (ac_byBuyer m) (entry_buyer e) = Some ks \<and> k \<in> set ks))"

definition cache_ok :: "apiKeyCache \<Rightarrow> bool" where
  "cache_ok c \<longleftrightarrow> (case c of None \<Rightarrow> True
     | Some m \<Rightarrow> cache_indexed m \<and> length (ac_entries m) \<le> apiKeyCacheMaxEntries)"

lemma map_of_delete [simp]: "map_of (AList.delete k al) = (map_of al)(k := None)"
  by (rule AList.delete_conv')

lemma map_of_update [simp]: "map_of (AList.update k v al) = (map_of al)(k \<mapsto> v)"
  by (rule AList.update_conv')

lemma map_of_drop_key:
  "map_of (drop_key b k bb) b' =
     (if b' = b then Option.bind (map_of bb b) (\<lambda>ks. if removeAll k ks = [] then None else Some (removeAll k ks))
      else map_of bb b')"
  by (simp add: drop_key_def Let_def split: option.split)

lemma drop_key_keeps:
  assumes "map_of bb b' = Some ks" "k' \<in> set ks" "k' \<noteq> k"
  shows "\<exists>ks'. map_of (drop_key b k bb) b' = Some ks' \<and> k' \<in> set ks'"
proof -
  have "k' \<in> set (removeAll k ks)" using assms by simp
  moreover from this have "removeAll k ks \<noteq> []" by (metis empty_iff empty_set)
  ultimately show ?thesis using assms(1) by (cases "b' = b") (simp_all add: map_of_drop_key)
qed

lemma remove_lookup [simp]: "map_of (ac_entries (removeLocked_key k m)) = (map_of (ac_entries m))(k := None)"
  by (auto simp: removeLocked_key_def fun_eq_iff split: option.split)

lemma remove_length: "length (ac_entries (removeLocked_key k m)) \<le> length (ac_entries m)"
  by (simp add: removeLocked_key_def length_delete_le split: option.split)

lemma remove_length_less:
  assumes "(k, e) \<in> set (ac_entries m)" shows "length (ac_entries (removeLocked_key k m)) < length (ac_entries m)"
proof -
  obtain e' where "map_of (ac_entries m) k = Some e'" using assms weak_map_of_SomeI [of k e] by blast
  then have "ac_entries (removeLocked_key k m) = filter (\<lambda>(k', _). k \<noteq> k') (ac_entries m)"
    by (simp add: removeLocked_key_def AList.delete_eq)
  then show ?thesis using assms length_filter_less [of "(k, e)" "ac_entries m" "\<lambda>(k', _). k \<noteq> k'"] by simp
qed

lemma remove_indexed: assumes "cache_indexed m" shows "cache_indexed (removeLocked_key k m)"
proof (cases "map_of (ac_entries m) k")
  case None
  then show ?thesis using assms by (simp add: removeLocked_key_def)
next
  case (Some e)
  have ids: "map_of (ac_byID m) (entry_ID e) = Some k" using assms Some by (simp add: cache_indexed_def)
  show ?thesis unfolding cache_indexed_def
  proof (intro conjI allI impI)
    show "distinct (map fst (ac_entries (removeLocked_key k m)))"
      using assms Some by (simp add: removeLocked_key_def cache_indexed_def distinct_delete)
    fix k' e' assume "map_of (ac_entries (removeLocked_key k m)) k' = Some e'"
    then have old: "map_of (ac_entries m) k' = Some e'" "k' \<noteq> k" by (auto split: if_splits)
    then have "map_of (ac_byID m) (entry_ID e') = Some k'" using assms by (simp add: cache_indexed_def)
    moreover from this have "entry_ID e' \<noteq> entry_ID e" using ids old(2) by auto
    ultimately show "map_of (ac_byID (removeLocked_key k m)) (entry_ID e') = Some k'"
      using Some by (simp add: removeLocked_key_def)
    obtain ks where "map_of (ac_byBuyer m) (entry_buyer e') = Some ks" "k' \<in> set ks"
      using assms old(1) unfolding cache_indexed_def by blast
    then show "\<exists>ks. map_of (ac_byBuyer (removeLocked_key k m)) (entry_buyer e') = Some ks \<and> k' \<in> set ks"
      using Some old(2) drop_key_keeps by (simp add: removeLocked_key_def)
  qed
qed

lemma evict_indexed: "cache_indexed m \<Longrightarrow> cache_indexed (evict pick m)"
  by (simp add: evict_def remove_indexed)

lemma displace_indexed: "cache_indexed m \<Longrightarrow> cache_indexed (displace k a m)"
  by (simp add: displace_def remove_indexed split: option.split)

lemma evict_length:
  assumes "length (ac_entries m) \<le> apiKeyCacheMaxEntries"
  shows "length (ac_entries (evict pick m)) < apiKeyCacheMaxEntries"
proof (cases "apiKeyCacheMaxEntries \<le> length (ac_entries m)")
  case True
  then have "pick mod length (ac_entries m) < length (ac_entries m)"
    by (intro mod_less_divisor) (auto simp: apiKeyCacheMaxEntries_def)
  then show ?thesis
    using True assms nth_mem remove_length_less [of "fst (ac_entries m ! (pick mod length (ac_entries m)))" "snd (ac_entries m ! (pick mod length (ac_entries m)))" m]
    by (simp add: evict_def)
qed (simp add: evict_def)

lemma displace_length: "length (ac_entries (displace k a m)) \<le> length (ac_entries m)"
  by (simp add: displace_def remove_length split: option.split)

lemma length_update: "length (AList.update k v al) \<le> Suc (length al)"
  by (induction al) auto

lemma evict_lookup: "map_of (ac_entries (evict pick m)) k = Some e \<Longrightarrow> map_of (ac_entries m) k = Some e"
  by (auto simp: evict_def split: if_splits)

lemma displace_lookup:
  assumes "cache_indexed m" "map_of (ac_entries (displace k a m)) k' = Some e" "k' \<noteq> k"
  shows "map_of (ac_entries m) k' = Some e" "entry_ID e \<noteq> ar_APIKeyID a"
proof -
  show old: "map_of (ac_entries m) k' = Some e"
    using assms(2) by (auto simp: displace_def split: option.splits if_splits)
  then have "map_of (ac_byID m) (entry_ID e) = Some k'" using assms(1) by (simp add: cache_indexed_def)
  then show "entry_ID e \<noteq> ar_APIKeyID a" using assms(2,3) by (auto simp: displace_def)
qed

text \<open>What a \<^const>\<open>put\<close> leaves in the cache: the new entry, and old ones of other keys and ids.\<close>

lemma put_admin: "ar_IsAdmin a \<or> ar_APIKeyID a = uuid_Nil \<Longrightarrow> put k a t pick c = c"
  by (simp add: put_def)

lemma put_lookup:
  assumes "cache_ok c" "cached (put k a t pick c) k' = Some e"
  shows "cached c k' = Some e \<and> (k' = k \<longrightarrow> ar_IsAdmin a \<or> ar_APIKeyID a = uuid_Nil) \<or>
     k' = k \<and> e = \<lparr>ce_auth = a, ce_expiresAt = t + apiKeyCacheTTL\<rparr> \<and> \<not> ar_IsAdmin a \<and> ar_APIKeyID a \<noteq> uuid_Nil"
proof (cases "ar_IsAdmin a \<or> ar_APIKeyID a = uuid_Nil")
  case True
  then show ?thesis using assms(2) by (simp add: put_admin)
next
  case False
  define m where "m = (case c of None \<Rightarrow> \<lparr>ac_entries = [], ac_byID = [], ac_byBuyer = []\<rparr> | Some m \<Rightarrow> m)"
  have "cache_indexed m" using assms(1) by (simp add: m_def cache_ok_def cache_indexed_def split: option.splits)
  moreover have "map_of (ac_entries m) k' = cached c k'" by (simp add: m_def split: option.split)
  moreover have "k' = k \<and> e = \<lparr>ce_auth = a, ce_expiresAt = t + apiKeyCacheTTL\<rparr> \<or>
      k' \<noteq> k \<and> map_of (ac_entries (displace k a (evict pick m))) k' = Some e"
    using assms(2) False unfolding put_def m_def [symmetric] Let_def by (simp split: if_splits)
  ultimately show ?thesis
    using False evict_indexed displace_lookup(1) [of "evict pick m" k a k' e] evict_lookup [of pick m k' e] by metis
qed

lemma put_ok:
  assumes "cache_ok c" shows "cache_ok (put k a t pick c)"
proof (cases "ar_IsAdmin a \<or> ar_APIKeyID a = uuid_Nil")
  case True
  then show ?thesis using assms by (simp add: put_admin)
next
  case False
  define m where "m = (case c of None \<Rightarrow> \<lparr>ac_entries = [], ac_byID = [], ac_byBuyer = []\<rparr> | Some m \<Rightarrow> m)"
  define m' where "m' = displace k a (evict pick m)"
  have "cache_indexed m" "length (ac_entries m) \<le> apiKeyCacheMaxEntries"
    using assms by (simp_all add: m_def cache_ok_def cache_indexed_def split: option.splits)
  then have ix: "cache_indexed m'" "length (ac_entries m') < apiKeyCacheMaxEntries" and ev: "cache_indexed (evict pick m)"
    using evict_indexed displace_indexed evict_length [of m pick] displace_length [of k a "evict pick m"]
    by (simp_all add: m'_def order.strict_trans1)
  let ?new = "m'\<lparr>ac_entries := AList.update k \<lparr>ce_auth = a, ce_expiresAt = t + apiKeyCacheTTL\<rparr> (ac_entries m'),
      ac_byID := AList.update (ar_APIKeyID a) k (ac_byID m'), ac_byBuyer := add_key (ar_BuyerID a) k (ac_byBuyer m')\<rparr>"
  have "cache_indexed ?new" unfolding cache_indexed_def
  proof (intro conjI allI impI)
    show "distinct (map fst (ac_entries ?new))" using ix(1) by (simp add: cache_indexed_def distinct_update)
    fix k' e assume e: "map_of (ac_entries ?new) k' = Some e"
    show "map_of (ac_byID ?new) (entry_ID e) = Some k'"
      using e ix(1) displace_lookup(2) [OF ev, of k a k' e] by (auto simp: m'_def cache_indexed_def split: if_splits)
    have "\<exists>ks. map_of (ac_byBuyer m') (entry_buyer e) = Some ks \<and> k' \<in> set ks" if "k' \<noteq> k"
      using e that ix(1) by (simp add: cache_indexed_def)
    then show "\<exists>ks. map_of (ac_byBuyer ?new) (entry_buyer e) = Some ks \<and> k' \<in> set ks"
      using e by (cases "k' = k") (auto simp: add_key_def)
  qed
  moreover have "length (ac_entries ?new) \<le> apiKeyCacheMaxEntries"
    using ix(2) order_trans [OF length_update] by (simp add: Suc_le_eq)
  ultimately show ?thesis using False by (simp add: put_def Let_def m_def [symmetric] m'_def [symmetric] cache_ok_def)
qed

lemma remove_ok: "cache_ok (Some m) \<Longrightarrow> cache_ok (Some (removeLocked_key k m))"
  using remove_length [of k m] by (simp add: cache_ok_def remove_indexed)

lemma fold_remove_ok: "cache_ok (Some m) \<Longrightarrow> cache_ok (Some (fold removeLocked_key ks m))"
  by (induction ks arbitrary: m) (simp_all add: remove_ok)

lemma fold_remove_lookup:
  "map_of (ac_entries (fold removeLocked_key ks m)) k = (if k \<in> set ks then None else map_of (ac_entries m) k)"
  by (induction ks arbitrary: m) simp_all

lemma invalidateID_ok: "cache_ok c \<Longrightarrow> cache_ok (invalidateID i c)"
  by (auto simp: invalidateID_def remove_ok split: option.split)

lemma invalidateBuyer_ok: "cache_ok c \<Longrightarrow> cache_ok (invalidateBuyer b c)"
  by (auto simp: invalidateBuyer_def fold_remove_ok split: option.split)

lemma invalidateID_lookup:
  assumes "cache_ok c" "cached (invalidateID i c) k = Some e"
  shows "cached c k = Some e \<and> entry_ID e \<noteq> i"
  using assms by (auto simp: invalidateID_def cache_ok_def cache_indexed_def split: option.splits if_splits)

lemma invalidateBuyer_lookup:
  assumes "cache_ok c" "cached (invalidateBuyer b c) k = Some e"
  shows "cached c k = Some e \<and> entry_buyer e \<noteq> b"
proof (cases c)
  case None
  then show ?thesis using assms(2) by (simp add: invalidateBuyer_def)
next
  case (Some m)
  then have "map_of (ac_entries m) k = Some e"
    and out: "k \<notin> set (case map_of (ac_byBuyer m) b of None \<Rightarrow> [] | Some keys \<Rightarrow> keys)"
    using assms(2) by (auto simp: invalidateBuyer_def fold_remove_lookup split: if_splits)
  moreover from this obtain ks where "map_of (ac_byBuyer m) (entry_buyer e) = Some ks" "k \<in> set ks"
    using assms(1) Some unfolding cache_ok_def cache_indexed_def by fastforce
  ultimately show ?thesis using Some by auto
qed

lemma get_locked_ok: "cache_ok c \<Longrightarrow> get_locked k t c = (found, c') \<Longrightarrow> cache_ok c'"
  by (auto simp: get_locked_def remove_ok split: option.splits if_splits)

lemma get_locked_lookup: "get_locked k t c = (found, c') \<Longrightarrow> cached c' k' = Some e \<Longrightarrow> cached c k' = Some e"
  by (auto simp: get_locked_def split: option.splits if_splits)

lemma get_locked_found:
  "get_locked k t c = (Some a, c') \<Longrightarrow> \<exists>e. cached c k = Some e \<and> ce_auth e = a \<and> t \<le> ce_expiresAt e"
  by (auto simp: get_locked_def split: option.splits if_splits)

lemma get_read_found:
  "get_read k t c = (Some a, again) \<Longrightarrow> \<exists>e. cached c k = Some e \<and> ce_auth e = a \<and> t \<le> ce_expiresAt e"
  by (auto simp: get_read_def split: option.splits if_splits)

section \<open>Where a cached answer comes from\<close>

text \<open>
  \<^term>\<open>filled evs k e\<close>: the trace stores the entry with its last fill of it, after the query
  that read it, and nothing revokes it since.
\<close>

definition filled :: "auth_event list \<Rightarrow> apiKeyCacheKey \<Rightarrow> apiKeyCacheEntry \<Rightarrow> int \<Rightarrow> bool" where
  "filled evs k e now \<longleftrightarrow> \<not> ar_IsAdmin (ce_auth e) \<and> entry_ID e \<noteq> uuid_Nil \<and>
     (\<exists>pre t pick post. evs = pre @ Fill k (ce_auth e) t pick # post \<and> Query k (ce_auth e) \<in> set pre \<and>
        ce_expiresAt e = t + apiKeyCacheTTL \<and> t \<le> now \<and>
        Revoked (entry_ID e) \<notin> set post \<and> Tombstoned (entry_buyer e) \<notin> set post)"

definition explained :: "auth_event list \<Rightarrow> auth_state \<Rightarrow> bool" where
  "explained evs s \<longleftrightarrow> cache_ok (au_cache s) \<and>
     (\<forall>k e. cached (au_cache s) k = Some e \<longrightarrow> filled evs k e (au_clock s)) \<and>
     (\<forall>f \<in> set (au_flights s). \<forall>a. fl_phase f = Held a \<longrightarrow> Query (fl_key f) a \<in> set evs)"

lemma filled_snoc:
  assumes "filled evs k e now" "ev \<noteq> Revoked (entry_ID e)" "ev \<noteq> Tombstoned (entry_buyer e)" "now \<le> now'"
  shows "filled (evs @ [ev]) k e now'"
proof -
  obtain pre t pick post where "evs = pre @ Fill k (ce_auth e) t pick # post" "Query k (ce_auth e) \<in> set pre"
    "ce_expiresAt e = t + apiKeyCacheTTL" "t \<le> now" "Revoked (entry_ID e) \<notin> set post" "Tombstoned (entry_buyer e) \<notin> set post"
    using assms(1) unfolding filled_def by blast
  then have "evs @ [ev] = pre @ Fill k (ce_auth e) t pick # (post @ [ev])" "Query k (ce_auth e) \<in> set pre"
    "ce_expiresAt e = t + apiKeyCacheTTL" "t \<le> now'" "Revoked (entry_ID e) \<notin> set (post @ [ev])"
    "Tombstoned (entry_buyer e) \<notin> set (post @ [ev])"
    using assms(2-4) by auto
  then show ?thesis using assms(1) unfolding filled_def by blast
qed

lemma explained_step_keeps:
  assumes "explained evs s" "cache_ok (au_cache s')" "au_clock s \<le> au_clock s'"
    and "\<And>k e. cached (au_cache s') k = Some e \<Longrightarrow>
      cached (au_cache s) k = Some e \<and> ev \<noteq> Revoked (entry_ID e) \<and> ev \<noteq> Tombstoned (entry_buyer e) \<or> filled (evs @ [ev]) k e (au_clock s')"
    and "\<And>f a. f \<in> set (au_flights s') \<Longrightarrow> fl_phase f = Held a \<Longrightarrow>
      (\<exists>g \<in> set (au_flights s). fl_key g = fl_key f \<and> fl_phase g = Held a) \<or> ev = Query (fl_key f) a"
  shows "explained (evs @ [ev]) s'"
  unfolding explained_def
proof (intro conjI allI impI ballI)
  show "cache_ok (au_cache s')" by fact
  show "filled (evs @ [ev]) k e (au_clock s')" if "cached (au_cache s') k = Some e" for k e
    using assms(1) assms(4) [OF that] filled_snoc [OF _ _ _ assms(3)] unfolding explained_def by blast
  show "Query (fl_key f) a \<in> set (evs @ [ev])" if "f \<in> set (au_flights s')" "fl_phase f = Held a" for f a
    using assms(1) assms(5) [OF that] unfolding explained_def by fastforce
qed

lemma explained_fill:
  assumes "explained evs s" "f \<in> set (au_flights s)" "fl_phase f = Held a" "fl_key f = k" "au_clock s \<le> t"
    and "cached (put k a t pick (au_cache s)) k' = Some e"
  shows "cached (au_cache s) k' = Some e \<or> filled (evs @ [Fill k a t pick]) k' e t"
proof -
  have "Query k a \<in> set evs" "cache_ok (au_cache s)" using assms(1-4) unfolding explained_def by blast+
  then have "filled (evs @ [Fill k a t pick]) k \<lparr>ce_auth = a, ce_expiresAt = t + apiKeyCacheTTL\<rparr> t"
    if "\<not> ar_IsAdmin a" "ar_APIKeyID a \<noteq> uuid_Nil"
    using that unfolding filled_def by (intro conjI exI [of _ evs] exI [of _ t] exI [of _ pick] exI [of _ "[]"]) simp_all
  then show ?thesis using put_lookup [OF \<open>cache_ok _\<close> assms(6)] by auto
qed

text \<open>An answer from the cache, under either lock, to a request or to the call it leads.\<close>

definition answers :: "auth_event \<Rightarrow> apiKeyCacheKey \<Rightarrow> int \<Rightarrow> AuthResult \<Rightarrow> bool" where
  "answers ev k t a \<longleftrightarrow> ev \<in> {Hit k t a, Recheck k t (Some a), Check k t (Some a), CheckLocked k t (Some a)}"

text \<open>What an event of a lookup reads, stores or hands out.\<close>

definition gives :: "auth_event \<Rightarrow> AuthResult \<Rightarrow> bool" where
  "gives ev a \<longleftrightarrow> (\<exists>k t. answers ev k t a) \<or> (\<exists>k. ev = Query k a) \<or> (\<exists>k t pick. ev = Fill k a t pick) \<or>
     (\<exists>k n. ev = Finish k (Inr a) n)"

text \<open>A call is as it was, up to those who joined it, or has no answer, or has the one the step gives.\<close>

lemma lookup_flight:
  assumes "lookup_step s ev s'" "f \<in> set (au_flights s')"
  shows "(\<exists>g \<in> set (au_flights s). fl_key g = fl_key f \<and> fl_phase g = fl_phase f) \<or>
    fl_phase f \<in> {Started, Expired, Missed} \<union> range (\<lambda>e. Returned (Inl e)) \<or>
    (\<exists>a. gives ev a \<and> (fl_phase f = Held a \<and> ev = Query (fl_key f) a \<or> fl_phase f = Returned (Inr a)))"
    (is "?old \<or> ?none \<or> ?new")
proof (cases "f \<in> set (au_flights s)")
  case True
  then show ?thesis by blast
next
  case False
  have new: "f \<notin> set (remove1 g (au_flights s))" for g using False by (rule notin_set_remove1)
  from assms(1) show ?thesis
  proof cases
    case (join g k)
    then have f: "f = g\<lparr>fl_waiters := Suc (fl_waiters g)\<rparr>" using assms(2) new [of g] by simp
    have ?old by (rule bexI [OF _ join(3)]) (simp add: f)
    then show ?thesis ..
  next
    case (check g k t found again)
    then have f: "f = g\<lparr>fl_phase := checked found again\<rparr>" using assms(2) new [of g] by simp
    have "gives ev a" if "found = Some a" for a unfolding gives_def answers_def check(1) that by blast
    then show ?thesis unfolding f by (cases found; cases again) (simp_all add: checked_def)
  next
    case (check_locked g k t found c)
    then have f: "f = g\<lparr>fl_phase := checked found False\<rparr>" using assms(2) new [of g] by simp
    have "gives ev a" if "found = Some a" for a unfolding gives_def answers_def check_locked(1) that by blast
    then show ?thesis unfolding f by (cases found) (simp_all add: checked_def)
  next
    case (query g k b)
    then have f: "f = g\<lparr>fl_phase := Held b\<rparr>" using assms(2) new [of g] by simp
    have ?new by (intro exI [of _ b]) (simp add: f query(1,4) gives_def)
    then show ?thesis by blast
  next
    case (query_fails g k e)
    then have f: "f = g\<lparr>fl_phase := Returned (Inl e)\<rparr>" using assms(2) new [of g] by simp
    show ?thesis by (simp add: f)
  next
    case (fill g k b t pick)
    then have f: "f = g\<lparr>fl_phase := Returned (Inr b)\<rparr>" using assms(2) new [of g] by simp
    have ?new by (intro exI [of _ b]) (simp add: f fill(1) gives_def)
    then show ?thesis by blast
  next
    case (lead k)
    then have f: "f = \<lparr>fl_key = k, fl_phase = Started, fl_waiters = 0\<rparr>" using assms(2) False by simp
    show ?thesis by (simp add: f)
  next
    case (finish g k res n)
    then show ?thesis using assms(2) new [of g] by simp
  qed (use assms(2) False in simp_all)
qed

lemma lookup_held:
  assumes "lookup_step s ev s'" "f \<in> set (au_flights s')" "fl_phase f = Held a"
  shows "(\<exists>g \<in> set (au_flights s). fl_key g = fl_key f \<and> fl_phase g = Held a) \<or> ev = Query (fl_key f) a"
  using lookup_flight [OF assms(1,2)] unfolding assms(3) by blast

text \<open>The three things a step of a lookup can do to the cache.\<close>

lemma lookup_cache:
  assumes "lookup_step s ev s'"
  obtains (same) "au_cache s' = au_cache s" "au_clock s \<le> au_clock s'"
  | (locked) k t found where "get_locked k t (au_cache s) = (found, au_cache s')" "au_clock s \<le> au_clock s'"
  | (stored) f a t pick where "ev = Fill (fl_key f) a t pick" "f \<in> set (au_flights s)" "fl_phase f = Held a"
      "au_clock s \<le> t" "au_clock s' = t" "au_cache s' = put (fl_key f) a t pick (au_cache s)"
  using assms
proof cases
  case (recheck t k found c)
  then show ?thesis using locked [of k t found] by simp
next
  case (check_locked f k t found c)
  then show ?thesis using locked [of k t found] by simp
next
  case (fill f k a t pick)
  then show ?thesis using stored [of f a t pick] by simp
qed (use same in simp_all)

lemma lookup_event: "lookup_step s ev s' \<Longrightarrow> ev \<noteq> Revoked i \<and> ev \<noteq> Tombstoned b"
  by (erule lookup_step.cases) simp_all

lemma explained_lookup:
  assumes "explained evs s" "lookup_step s ev s'"
  shows "explained (evs @ [ev]) s'"
proof -
  note ok = assms(1) [unfolded explained_def, THEN conjunct1] and ev = lookup_event [OF assms(2)]
  from assms(2) show ?thesis
  proof (cases rule: lookup_cache)
    case same
    show ?thesis by (rule explained_step_keeps [OF assms(1)]) (use ok ev same lookup_held [OF assms(2)] in auto)
  next
    case (locked k t found)
    show ?thesis
      by (rule explained_step_keeps [OF assms(1) get_locked_ok [OF ok locked(1)] locked(2)])
        (use ev get_locked_lookup [OF locked(1)] lookup_held [OF assms(2)] in blast)+
  next
    case (stored f a t pick)
    have c: "cache_ok (au_cache s')" "au_clock s \<le> au_clock s'" using put_ok [OF ok] stored by simp_all
    have "cached (au_cache s) k' = Some e \<or> filled (evs @ [ev]) k' e (au_clock s')" if "cached (au_cache s') k' = Some e" for k' e
      using explained_fill [OF assms(1) stored(2,3) refl stored(4), of pick k' e] that stored(1,5,6) by simp
    then show ?thesis
      using ev lookup_held [OF assms(2)] by (intro explained_step_keeps [OF assms(1) c]) blast+
  qed
qed

lemma explained_step:
  assumes "explained evs s" "auth_step s ev s'"
  shows "explained (evs @ [ev]) s'"
proof -
  note ok = assms(1) [unfolded explained_def, THEN conjunct1]
  show ?thesis using assms(2)
  proof cases
    case looked_up
    then show ?thesis by (rule explained_lookup [OF assms(1)])
  next
    case (revoked i)
    show ?thesis
      by (rule explained_step_keeps [OF assms(1)])
        (auto simp: revoked(1,2) invalidateID_ok [OF ok] dest: invalidateID_lookup [OF ok])
  next
    case (tombstoned b)
    show ?thesis
      by (rule explained_step_keeps [OF assms(1)])
        (auto simp: tombstoned(1,2) invalidateBuyer_ok [OF ok] dest: invalidateBuyer_lookup [OF ok])
  qed (rule explained_step_keeps [OF assms(1)]; use ok in auto)+
qed

lemma explained_trace: "auth_trace s0 evs s \<Longrightarrow> auth_init s0 \<Longrightarrow> explained evs s"
proof (induction rule: auth_trace.induct)
  case trace_nil
  then show ?case by (simp add: auth_init_def explained_def cache_ok_def)
next
  case (trace_snoc evs s' e s'')
  then show ?case using explained_step by blast
qed

lemma lookup_answers:
  assumes "lookup_step s ev s'" "answers ev k t a"
  shows "\<exists>e. cached (au_cache s) k = Some e \<and> ce_auth e = a \<and> t \<le> ce_expiresAt e \<and> au_clock s \<le> t"
  using assms get_read_found get_locked_found
  by (auto simp: answers_def elim!: lookup_step_hit lookup_step_recheck lookup_step_check lookup_step_check_locked)

lemma answers_cached:
  assumes "auth_step s ev s'" "answers ev k t a"
  shows "\<exists>e. cached (au_cache s) k = Some e \<and> ce_auth e = a \<and> t \<le> ce_expiresAt e \<and> au_clock s \<le> t"
  using assms(1)
proof cases
  case looked_up
  then show ?thesis using assms(2) by (rule lookup_answers)
qed (use assms(2) in \<open>auto simp: answers_def\<close>)

text \<open>
  C8. An answer from the cache is never made up and never old. Whatever the interleaving of
  lookups, revocations and tombstones, when the cache answers a key at time \<^term>\<open>t\<close>, the trace
  holds a fill of exactly that answer for that key at most 250 ms before, preceded by the
  query that read it from the database; since the fill no revocation of its key id and no
  tombstone of its buyer has invalidated it; and it is not an admin credential.
\<close>

theorem cached_answer_fresh:
  assumes "auth_init s0" "auth_trace s0 evs s" "auth_step s ev s'" "answers ev k t a"
  shows "\<not> ar_IsAdmin a \<and> (\<exists>pre t0 pick post. evs = pre @ Fill k a t0 pick # post \<and> Query k a \<in> set pre \<and>
     t0 \<le> t \<and> t \<le> t0 + apiKeyCacheTTL \<and>
     Revoked (ar_APIKeyID a) \<notin> set post \<and> Tombstoned (ar_BuyerID a) \<notin> set post)"
proof -
  obtain e where e: "cached (au_cache s) k = Some e" "ce_auth e = a" "t \<le> ce_expiresAt e" "au_clock s \<le> t"
    using answers_cached [OF assms(3,4)] by blast
  then have "filled evs k e (au_clock s)" using explained_trace [OF assms(2,1)] unfolding explained_def by blast
  then obtain pre t0 pick post where "evs = pre @ Fill k a t0 pick # post" "Query k a \<in> set pre"
    "ce_expiresAt e = t0 + apiKeyCacheTTL" "t0 \<le> au_clock s" "Revoked (ar_APIKeyID a) \<notin> set post"
    "Tombstoned (ar_BuyerID a) \<notin> set post" "\<not> ar_IsAdmin a"
    unfolding filled_def e(2) by blast
  then show ?thesis using e by (intro conjI exI [of _ pre] exI [of _ t0] exI [of _ pick] exI [of _ post]) auto
qed

section \<open>Revocation\<close>

definition issued :: "auth_state \<Rightarrow> bool" where
  "issued s \<longleftrightarrow> distinct (map ak_ID (db_keys (au_db s))) \<and> set (map ak_ID (db_keys (au_db s))) \<subseteq> set (au_ids s)"

lemma revoke_ids: "map ak_ID (db_keys (revoke_update b i db)) = map ak_ID (db_keys db)"
  by (simp add: revoke_update_def comp_def)

lemma lookup_keeps:
  assumes "lookup_step s ev s'" shows "au_db s' = au_db s" "au_ids s' = au_ids s"
  using assms by (induction rule: lookup_step.induct) simp_all

lemma issued_step:
  assumes "issued s" "auth_step s ev s'" shows "issued s'"
  using assms(2)
proof cases
  case looked_up
  then show ?thesis using assms(1) lookup_keeps [OF looked_up] by (simp add: issued_def)
next
  case (revoke b i)
  then show ?thesis using assms(1) by (simp add: issued_def revoke_ids flip: set_map)
next
  case (tombstone b)
  then show ?thesis using assms(1) by (auto simp: issued_def tombstone_update_def distinct_map_filter)
qed (use assms(1) in \<open>auto simp: issued_def insert_key_def minted_def\<close>)

lemma issued_trace: "auth_trace s0 evs s \<Longrightarrow> auth_init s0 \<Longrightarrow> issued s"
proof (induction rule: auth_trace.induct)
  case trace_nil
  then show ?case by (simp add: auth_init_def issued_def)
next
  case (trace_snoc evs s' e s'')
  then show ?case using issued_step by blast
qed

text \<open>Key \<^term>\<open>i\<close> is revoked in the database.\<close>

definition revoked_id :: "uuid \<Rightarrow> auth_state \<Rightarrow> bool" where
  "revoked_id i s \<longleftrightarrow> i \<in> set (au_ids s) \<and> (\<forall>r \<in> set (db_keys (au_db s)). ak_ID r = i \<longrightarrow> ak_Revoked r)"

lemma select_key_row:
  "select_key k db = Some a \<Longrightarrow> \<exists>r \<in> set (db_keys db). a = auth_of r \<and> ak_KeyHash r = k \<and> key_live db r"
  by (auto simp: select_key_def find_Some_iff)

lemma revoked_not_selected: "revoked_id i s \<Longrightarrow> select_key k (au_db s) = Some a \<Longrightarrow> ar_APIKeyID a \<noteq> i"
  by (auto dest!: select_key_row simp: revoked_id_def auth_of_def key_live_def)

lemma revoked_id_step:
  assumes "revoked_id i s" "auth_step s ev s'" shows "revoked_id i s'"
  using assms(2)
proof cases
  case looked_up
  then show ?thesis using assms(1) lookup_keeps [OF looked_up] by (simp add: revoked_id_def)
qed (use assms(1) in \<open>auto simp: revoked_id_def insert_key_def minted_def revoke_update_def tombstone_update_def\<close>)

lemma revoked_id_revoke:
  assumes "auth_init s0" "auth_trace s0 evs s" "r \<in> set (db_keys (au_db s))" "auth_step s (Revoke (ak_BuyerID r) (ak_ID r)) s'"
  shows "revoked_id (ak_ID r) s'"
proof -
  have iss: "issued s" using issued_trace assms(1,2) by blast
  have s': "au_db s' = revoke_update (ak_BuyerID r) (ak_ID r) (au_db s)" "au_ids s' = au_ids s"
    using assms(4) by (auto elim: auth_step_revoke lookup_step_revoke)
  have same: "r' = r" if "r' \<in> set (db_keys (au_db s))" "ak_ID r' = ak_ID r" for r'
    using that assms(3) iss unfolding issued_def distinct_map inj_on_def by blast
  show ?thesis using assms(3) iss same unfolding revoked_id_def s' by (auto simp: revoke_update_def issued_def)
qed

text \<open>
  A running call has an answer for key \<^term>\<open>i\<close>, to store or to hand out. Once no call has one,
  the row is revoked and the entry invalidated, nothing in the process knows the key.
\<close>

definition has_answer :: "uuid \<Rightarrow> flight \<Rightarrow> bool" where
  "has_answer i f \<longleftrightarrow> (case fl_phase f of Held a \<Rightarrow> ar_APIKeyID a = i | Returned (Inr a) \<Rightarrow> ar_APIKeyID a = i | _ \<Rightarrow> False)"

definition forgotten :: "uuid \<Rightarrow> auth_state \<Rightarrow> bool" where
  "forgotten i s \<longleftrightarrow> revoked_id i s \<and> (\<forall>f \<in> set (au_flights s). \<not> has_answer i f) \<and>
     cache_ok (au_cache s) \<and> (\<forall>k e. cached (au_cache s) k = Some e \<longrightarrow> entry_ID e \<noteq> i)"

lemma forgottenI:
  "revoked_id i s \<Longrightarrow> (\<And>f. f \<in> set (au_flights s) \<Longrightarrow> \<not> has_answer i f) \<Longrightarrow> cache_ok (au_cache s) \<Longrightarrow>
   (\<And>k e. cached (au_cache s) k = Some e \<Longrightarrow> entry_ID e \<noteq> i) \<Longrightarrow> forgotten i s"
  unfolding forgotten_def by blast

lemma forgottenD:
  assumes "forgotten i s"
  shows "revoked_id i s" "f \<in> set (au_flights s) \<Longrightarrow> \<not> has_answer i f" "cache_ok (au_cache s)"
    "cached (au_cache s) k = Some e \<Longrightarrow> entry_ID e \<noteq> i"
  using assms unfolding forgotten_def by blast+

lemma forgotten_revoked:
  assumes "revoked_id i s" "cache_ok (au_cache s)" "\<forall>f \<in> set (au_flights s). \<not> has_answer i f" "auth_step s (Revoked i) s'"
  shows "forgotten i s'"
proof -
  have c: "au_cache s' = invalidateID i (au_cache s)" "au_flights s' = au_flights s"
    using assms(4) by (auto elim: auth_step_revoked lookup_step_revoked)
  show ?thesis
    by (rule forgottenI [OF revoked_id_step [OF assms(1,4)]], unfold c)
      (use assms(3) invalidateID_ok [OF assms(2)] invalidateID_lookup [OF assms(2)] in blast)+
qed

lemma forgotten_gives:
  assumes "forgotten i s" "lookup_step s ev s'" "gives ev a" shows "ar_APIKeyID a \<noteq> i"
proof -
  have held: "ar_APIKeyID a \<noteq> i" if "f \<in> set (au_flights s)" "fl_phase f = Held a \<or> fl_phase f = Returned (Inr a)" for f
    using forgottenD(2) [OF assms(1) that(1)] that(2) by (auto simp: has_answer_def)
  consider (cached) k t where "answers ev k t a" | (read) k where "ev = Query k a"
    | (stored) k t pick where "ev = Fill k a t pick" | (out) k n where "ev = Finish k (Inr a) n"
    using assms(3) unfolding gives_def by blast
  then show ?thesis
  proof cases
    case (cached k t)
    then show ?thesis using lookup_answers [OF assms(2)] forgottenD(4) [OF assms(1)] by blast
  next
    case (read k)
    then have "select_key k (au_db s) = Some a" using assms(2) by (auto elim: lookup_step_query)
    then show ?thesis by (rule revoked_not_selected [OF forgottenD(1) [OF assms(1)]])
  next
    case (stored k t pick)
    then show ?thesis using assms(2) held by (auto elim: lookup_step_fill)
  next
    case (out k n)
    then show ?thesis using assms(2) held by (auto elim: lookup_step_finish)
  qed
qed

lemma forgotten_flights:
  assumes "forgotten i s" "lookup_step s ev s'" "f \<in> set (au_flights s')"
  shows "\<not> has_answer i f"
proof -
  consider (old) g where "g \<in> set (au_flights s)" "fl_phase g = fl_phase f"
    | (none) "fl_phase f \<in> {Started, Expired, Missed} \<union> range (\<lambda>e. Returned (Inl e))"
    | (new) a where "gives ev a" "fl_phase f = Held a \<or> fl_phase f = Returned (Inr a)"
    using lookup_flight [OF assms(2,3)] by blast
  then show ?thesis
  proof cases
    case (old g)
    then show ?thesis using forgottenD(2) [OF assms(1) old(1)] by (simp add: has_answer_def)
  next
    case none
    then show ?thesis by (auto simp: has_answer_def)
  next
    case (new a)
    then show ?thesis using forgotten_gives [OF assms(1,2) new(1)] by (auto simp: has_answer_def)
  qed
qed

lemma forgotten_lookup:
  assumes "forgotten i s" "lookup_step s ev s'" shows "forgotten i s'"
proof -
  note ok = forgottenD(3) [OF assms(1)] and none = forgottenD(4) [OF assms(1)]
  show ?thesis
  proof (rule forgottenI)
    show "revoked_id i s'" using revoked_id_step [OF forgottenD(1) [OF assms(1)] looked_up [OF assms(2)]] .
    show "\<not> has_answer i f" if "f \<in> set (au_flights s')" for f using forgotten_flights [OF assms that] .
    from assms(2) have "cache_ok (au_cache s') \<and> (\<forall>k e. cached (au_cache s') k = Some e \<longrightarrow> entry_ID e \<noteq> i)"
    proof (cases rule: lookup_cache)
      case same
      show ?thesis unfolding same(1) using ok none by blast
    next
      case (locked k t found)
      then show ?thesis using get_locked_ok [OF ok locked(1)] get_locked_lookup [OF locked(1)] none by blast
    next
      case (stored f a t pick)
      then have "ar_APIKeyID a \<noteq> i" using forgotten_gives [OF assms] by (auto simp: gives_def)
      then have "entry_ID e \<noteq> i" if "cached (au_cache s') k = Some e" for k e
        using put_lookup [OF ok that [unfolded stored(6)]] none [of k e] by auto
      moreover have "cache_ok (au_cache s')" unfolding stored(6) by (rule put_ok [OF ok])
      ultimately show ?thesis by blast
    qed
    then show "cache_ok (au_cache s')" "\<And>k e. cached (au_cache s') k = Some e \<Longrightarrow> entry_ID e \<noteq> i" by blast+
  qed
qed

lemma forgotten_step:
  assumes "forgotten i s" "auth_step s ev s'" shows "forgotten i s'"
proof -
  note ok = forgottenD(3) [OF assms(1)] and none = forgottenD(4) [OF assms(1)]
  have r: "revoked_id i s'" using revoked_id_step [OF forgottenD(1) [OF assms(1)] assms(2)] .
  show ?thesis using assms(2)
  proof cases
    case looked_up
    then show ?thesis by (rule forgotten_lookup [OF assms(1)])
  next
    case (revoked j)
    have c: "au_cache s' = invalidateID j (au_cache s)" "au_flights s' = au_flights s" by (simp_all add: revoked(2))
    show ?thesis
      by (rule forgottenI [OF r], unfold c)
        (use forgottenD(2) [OF assms(1)] in blast, rule invalidateID_ok [OF ok], use invalidateID_lookup [OF ok] none in blast)
  next
    case (tombstoned b)
    have c: "au_cache s' = invalidateBuyer b (au_cache s)" "au_flights s' = au_flights s" by (simp_all add: tombstoned(2))
    show ?thesis
      by (rule forgottenI [OF r], unfold c)
        (use forgottenD(2) [OF assms(1)] in blast, rule invalidateBuyer_ok [OF ok], use invalidateBuyer_lookup [OF ok] none in blast)
  qed (rule forgottenI [OF r]; use assms(1) in \<open>auto simp: forgotten_def\<close>)+
qed

lemma revoked_id_trace: "auth_trace s evs s' \<Longrightarrow> revoked_id i s \<Longrightarrow> revoked_id i s'"
  by (induction rule: auth_trace.induct) (auto intro: revoked_id_step)

lemma cache_ok_trace: "auth_init s0 \<Longrightarrow> auth_trace s0 evs s \<Longrightarrow> cache_ok (au_cache s)"
  using explained_trace unfolding explained_def by blast

lemma trace_append: "auth_trace s' evs' s'' \<Longrightarrow> auth_trace s evs s' \<Longrightarrow> auth_trace s (evs @ evs') s''"
  by (induction rule: auth_trace.induct) (auto simp del: append_assoc simp: append_assoc [symmetric] intro: trace_snoc)

lemma trace_Cons: "auth_step s e s' \<Longrightarrow> auth_trace s' evs s'' \<Longrightarrow> auth_trace s (e # evs) s''"
  using trace_append [of s' evs s'' s "[e]"] trace_snoc [OF trace_nil, of s e s'] by simp

lemma step_gives: "auth_step s ev s' \<Longrightarrow> gives ev a \<Longrightarrow> lookup_step s ev s'"
  by (erule auth_step.cases) (auto simp: gives_def answers_def)

lemma forgotten_silent:
  assumes "auth_trace s evs s'" "forgotten i s"
  shows "forgotten i s' \<and> (\<forall>ev \<in> set evs. \<forall>a. gives ev a \<longrightarrow> ar_APIKeyID a \<noteq> i)"
  using assms
proof (induction rule: auth_trace.induct)
  case (trace_snoc evs s' e s'')
  then have f: "forgotten i s'" by blast
  have "ar_APIKeyID a \<noteq> i" if "gives e a" for a
    using forgotten_gives [OF f step_gives [OF trace_snoc(2) that] that] .
  then show ?case using trace_snoc forgotten_step [OF f trace_snoc(2)] by auto
qed simp

text \<open>
  C16. Revocation is immediate for lookups that do not overlap it. If no running call has an
  answer for the key when \<^verbatim>\<open>RevokeAPIKey\<close>, whose row it marked before, drops it from the cache,
  then from then on no lookup of the process reads, stores or hands out an answer for that key
  id: not from the cache, not from the database, and not to a request that joins a running call,
  however the requests interleave.
\<close>

theorem revoked_key_dead:
  assumes "auth_init s0" "auth_trace s0 pre s1" "r \<in> set (db_keys (au_db s1))"
    and "auth_step s1 (Revoke (ak_BuyerID r) (ak_ID r)) s2" "auth_trace s2 mid s3"
    and "\<forall>f \<in> set (au_flights s3). \<not> has_answer (ak_ID r) f"
    and "auth_step s3 (Revoked (ak_ID r)) s4" "auth_trace s4 post s5"
  shows "\<forall>ev \<in> set post. \<forall>a. gives ev a \<longrightarrow> ar_APIKeyID a \<noteq> ak_ID r"
proof -
  have "revoked_id (ak_ID r) s3" using revoked_id_trace revoked_id_revoke assms(1-5) by blast
  moreover have "auth_trace s0 (pre @ [Revoke (ak_BuyerID r) (ak_ID r)] @ mid) s3"
    using trace_append [OF assms(5) trace_snoc [OF assms(2,4)]] by simp
  ultimately have "forgotten (ak_ID r) s4" using forgotten_revoked cache_ok_trace [OF assms(1)] assms(6,7) by blast
  then show ?thesis using forgotten_silent [OF assms(8)] by blast
qed

lemma put_read:
  assumes "\<not> ar_IsAdmin a" "ar_APIKeyID a \<noteq> uuid_Nil" "t' \<le> t + apiKeyCacheTTL"
  shows "get_read k t' (put k a t pick c) = (Some a, False)"
  using assms by (simp add: put_def Let_def get_read_def)

text \<open>
  C23. Revocation is not immediate for a lookup that overlaps it. Take any reachable state in
  which a call has read a buyer's key and not yet stored it. The owner's revocation may mark the
  row, invalidate and return, and the call then store its answer: any request of the same process
  in the next 250 ms is answered from the cache. A request that comes after the revocation
  returned may also join the call and be handed its answer. In both runs the row is revoked,
  and no query finds the key any more.
\<close>

theorem revoked_key_still_answered:
  assumes "auth_init s0" "auth_trace s0 evs s" "f \<in> set (au_flights s)" "fl_phase f = Held (auth_of r)"
    and "r \<in> set (db_keys (au_db s))" "\<not> ak_IsAdmin r" "ak_ID r \<noteq> uuid_Nil"
    and "au_clock s \<le> t" "t \<le> t'" "t' \<le> t + apiKeyCacheTTL"
  shows "\<exists>s1 s2. auth_trace s [Revoke (ak_BuyerID r) (ak_ID r), Revoked (ak_ID r),
       Fill (fl_key f) (auth_of r) t pick, Hit (fl_key f) t' (auth_of r)] s1 \<and>
     auth_trace s [Revoke (ak_BuyerID r) (ak_ID r), Revoked (ak_ID r), Join (fl_key f),
       Fill (fl_key f) (auth_of r) t pick, Finish (fl_key f) (Inr (auth_of r)) (Suc (fl_waiters f))] s2 \<and>
     au_db s1 = au_db s2 \<and> r\<lparr>ak_Revoked := True\<rparr> \<in> set (db_keys (au_db s1)) \<and>
     (\<forall>k a. select_key k (au_db s1) = Some a \<longrightarrow> ar_APIKeyID a \<noteq> ak_ID r)"
proof -
  let ?k = "fl_key f" and ?a = "auth_of r" and ?i = "ak_ID r"
  define d where "d = s\<lparr>au_db := revoke_update (ak_BuyerID r) ?i (au_db s), au_revokes := ?i # au_revokes s\<rparr>"
  define v where "v = d\<lparr>au_cache := invalidateID ?i (au_cache d), au_revokes := remove1 ?i (au_revokes d)\<rparr>"
  have st: "auth_step s (Revoke (ak_BuyerID r) ?i) d" "auth_step d (Revoked ?i) v"
    unfolding v_def d_def by (rule revoke, rule revoked) simp
  have v: "au_flights v = au_flights s" "au_clock v = au_clock s" "au_db v = au_db d" by (simp_all add: v_def d_def)
  define g where "g = f\<lparr>fl_waiters := Suc (fl_waiters f)\<rparr>"
  let ?done = "\<lambda>h w. set_flight h (h\<lparr>fl_phase := Returned (Inr ?a)\<rparr>) (w\<lparr>au_cache := put ?k ?a t pick (au_cache w), au_clock := t\<rparr>)"
  have f: "auth_step v (Fill ?k ?a t pick) (?done f v)"
    using assms(3,4,8) by (intro looked_up fill) (simp_all add: v)
  have j: "auth_step v (Join ?k) (set_flight f g v)" using assms(3) unfolding g_def by (intro looked_up join) (simp_all add: v)
  have gf: "auth_step (set_flight f g v) (Fill ?k ?a t pick) (?done g (set_flight f g v))"
    using assms(4,8) by (intro looked_up fill) (simp_all add: v g_def)
  have h: "auth_step (?done f v) (Hit ?k t' ?a) ((?done f v)\<lparr>au_clock := t'\<rparr>)"
    using assms(6,7,9) put_read [OF _ _ assms(10), of ?a] by (intro looked_up hit [where again = False]) (simp_all add: auth_of_def)
  let ?e = "g\<lparr>fl_phase := Returned (Inr ?a)\<rparr>" and ?w = "?done g (set_flight f g v)"
  have fin: "auth_step ?w (Finish ?k (Inr ?a) (Suc (fl_waiters f))) (?w\<lparr>au_flights := remove1 ?e (au_flights ?w)\<rparr>)"
    by (intro looked_up finish) (simp_all add: g_def)
  have "revoked_id ?i d" by (rule revoked_id_revoke [OF assms(1,2,5) st(1)])
  then have "\<forall>k a. select_key k (au_db d) = Some a \<longrightarrow> ar_APIKeyID a \<noteq> ?i" using revoked_not_selected by blast
  moreover have "r\<lparr>ak_Revoked := True\<rparr> \<in> set (db_keys (au_db d))" using assms(5) by (force simp: d_def revoke_update_def)
  moreover note trace_Cons [OF st(1) trace_Cons [OF st(2) trace_Cons [OF f trace_Cons [OF h trace_nil]]]]
    trace_Cons [OF st(1) trace_Cons [OF st(2) trace_Cons [OF j trace_Cons [OF gf trace_Cons [OF fin trace_nil]]]]]
  ultimately show ?thesis
    by (intro exI [of _ "(?done f v)\<lparr>au_clock := t'\<rparr>"] exI [of _ "?w\<lparr>au_flights := remove1 ?e (au_flights ?w)\<rparr>"])
      (simp add: v(3))
qed

section \<open>A lookup without company\<close>

lemma get_key_simulated:
  assumes "au_clock s \<le> t" "t \<le> t'" "get_key k t t' (au_cache s) = (found, c')"
  shows "\<exists>evs s'. auth_trace s evs s' \<and> au_cache s' = c' \<and> au_db s' = au_db s \<and> au_flights s' = au_flights s \<and> au_clock s' \<le> t' \<and>
      (\<forall>a. found = Some a \<longrightarrow> evs \<noteq> [] \<and> (\<exists>t. answers (last evs) k t a)) \<and>
      (found = None \<longrightarrow> (\<forall>ev \<in> set evs. \<exists>t. ev = Recheck k t None))"
proof -
  obtain r again where read: "get_read k t (au_cache s) = (r, again)" by fastforce
  consider (hit) a where "r = Some a" | (miss) "r = None" "\<not> again" | (expired) "r = None" again by (cases r) auto
  then show ?thesis
  proof cases
    case hit
    then have "auth_trace s [Hit k t a] (s\<lparr>au_clock := t\<rparr>)" "found = Some a" "c' = au_cache s"
      using assms read trace_Cons [OF looked_up [OF lookup_step.hit [OF assms(1)]] trace_nil, of k a again] by (auto simp: get_key_def)
    then show ?thesis
      using assms(2) by (intro exI [of _ "[Hit k t a]"] exI [of _ "s\<lparr>au_clock := t\<rparr>"]) (simp add: answers_def)
  next
    case miss
    then have "found = None" "c' = au_cache s" using assms(3) read by (auto simp: get_key_def)
    then show ?thesis using assms(1,2) trace_nil by (intro exI [of _ "[]"] exI [of _ s]) simp
  next
    case expired
    then have g: "get_locked k t' (au_cache s) = (found, c')" using assms(3) read by (simp add: get_key_def)
    have "auth_trace s [Recheck k t' found] (s\<lparr>au_cache := c', au_clock := t'\<rparr>)"
      using trace_Cons [OF looked_up [OF recheck [OF order_trans [OF assms(1,2)] g]] trace_nil] .
    then show ?thesis
      by (intro exI [of _ "[Recheck k t' found]"] exI [of _ "s\<lparr>au_cache := c', au_clock := t'\<rparr>"]) (simp add: answers_def)
  qed
qed

text \<open>The second \<^verbatim>\<open>get\<close>, in the call that the request leads.\<close>

definition led :: "apiKeyCacheKey \<Rightarrow> flight_phase \<Rightarrow> flight" where
  "led k p = \<lparr>fl_key = k, fl_phase = p, fl_waiters = 0\<rparr>"

lemma led_simps [simp]:
  "fl_key (led k p) = k" "fl_phase (led k p) = p" "fl_waiters (led k p) = 0" "(led k p)\<lparr>fl_phase := q\<rparr> = led k q"
  by (simp_all add: led_def)

lemma call_get_simulated:
  assumes "au_clock s \<le> t" "t \<le> t'" "get_key k t t' (au_cache s) = (found, c')" "au_flights s = led k Started # fs"
  shows "\<exists>evs s'. auth_trace s evs s' \<and> au_cache s' = c' \<and> au_db s' = au_db s \<and> au_flights s' = led k (checked found False) # fs \<and>
      au_clock s' \<le> t' \<and> evs \<noteq> [] \<and> (\<forall>a. found = Some a \<longrightarrow> (\<exists>t. answers (last evs) k t a)) \<and>
      (found = None \<longrightarrow> (\<forall>ev \<in> set evs. \<exists>t. ev \<in> {Check k t None, CheckLocked k t None}))"
proof -
  obtain r again where read: "get_read k t (au_cache s) = (r, again)" by fastforce
  let ?s1 = "s\<lparr>au_clock := t, au_flights := led k (checked r again) # fs\<rparr>"
  have c: "auth_step s (Check k t r) ?s1"
    using looked_up [OF check [of "led k Started" s k t r again]] assms(1,4) read by (simp add: set_flight_def)
  show ?thesis
  proof (cases "r = None \<and> again")
    case True
    then have g: "get_locked k t' (au_cache ?s1) = (found, c')" using assms(3) read by (simp add: get_key_def)
    let ?s2 = "?s1\<lparr>au_cache := c', au_clock := t', au_flights := led k (checked found False) # fs\<rparr>"
    have "auth_step ?s1 (CheckLocked k t' found) ?s2"
      using looked_up [OF check_locked [of "led k Expired" ?s1 k t' found c']] g assms(2) True
      by (simp add: set_flight_def checked_def)
    from trace_Cons [OF c trace_Cons [OF this trace_nil]] show ?thesis
      using True by (intro exI [of _ "[Check k t r, CheckLocked k t' found]"] exI [of _ ?s2]) (auto simp: answers_def)
  next
    case False
    then have "found = r" "c' = au_cache s"
      using assms(3) read by (auto simp: get_key_def split: option.splits bool.splits)
    moreover have "checked r again = checked r False" using False by (auto simp: checked_def split: option.split)
    ultimately show ?thesis
      using trace_Cons [OF c trace_nil] assms(2) by (intro exI [of _ "[Check k t r]"] exI [of _ ?s1]) (auto simp: answers_def)
  qed
qed

lemma call_finished:
  assumes "auth_trace s evs s'" "au_flights s' = led k (Returned res) # fs"
  shows "auth_trace s (evs @ [Finish k res 0]) (s'\<lparr>au_flights := fs\<rparr>)"
  using trace_snoc [OF assms(1) looked_up [OF finish [of "led k (Returned res)" s' k res 0]]] assms(2) by simp

text \<open>The call itself, from its start to its end.\<close>

lemma call_simulated:
  fixes clock :: "nat \<Rightarrow> int"
  assumes "au_clock s \<le> clock 2" "\<And>m n. m \<le> n \<Longrightarrow> clock m \<le> clock n" "get_key k (clock 2) (clock 3) (au_cache s) = (found, c')"
    and "res = (case found of Some a \<Rightarrow> Inr a | None \<Rightarrow>
        (case select_key k (au_db s) of None \<Rightarrow> Inl errKeyNotFound | Some a \<Rightarrow> Inr a))"
    and "c = (case (found, select_key k (au_db s)) of (None, Some a) \<Rightarrow> put k a (clock 4) pick c' | _ \<Rightarrow> c')"
  shows "\<exists>evs s'. auth_trace s (Lead k # evs @ [Finish k res 0]) s' \<and> au_cache s' = c \<and> au_db s' = au_db s \<and>
     au_flights s' = au_flights s \<and> evs \<noteq> [] \<and>
     (\<forall>a. res = Inr a \<longrightarrow> (\<exists>t. answers (last evs) k t a \<or> last evs = Fill k a t pick)) \<and>
     (\<forall>e. res = Inl e \<longrightarrow> select_key k (au_db s) = None \<and>
        (\<forall>ev \<in> set evs. ev = QueryFails k e \<or> (\<exists>t. ev \<in> {Check k t None, CheckLocked k t None})))"
proof -
  let ?s1 = "s\<lparr>au_flights := led k Started # au_flights s\<rparr>"
  have l: "auth_step s (Lead k) ?s1" using looked_up [OF lead [of s k]] by (simp add: led_def)
  obtain evs s2 where s2: "auth_trace ?s1 evs s2" "au_cache s2 = c'" "au_db s2 = au_db s"
      "au_flights s2 = led k (checked found False) # au_flights s" "au_clock s2 \<le> clock 3" "evs \<noteq> []"
    and f: "\<And>a. found = Some a \<Longrightarrow> \<exists>t. answers (last evs) k t a"
      "found = None \<Longrightarrow> \<forall>ev \<in> set evs. \<exists>t. ev \<in> {Check k t None, CheckLocked k t None}"
    using call_get_simulated [of ?s1 "clock 2" "clock 3" k found c' "au_flights s"] assms(1,3) assms(2) [of 2 3] by auto
  have finished: "auth_trace s (Lead k # evs' @ [Finish k res 0]) (s3\<lparr>au_flights := au_flights s\<rparr>)"
    if "auth_trace ?s1 evs' s3" "au_flights s3 = led k (Returned res) # au_flights s" for evs' s3
    using trace_Cons [OF l call_finished [OF that]] .
  show ?thesis
  proof (cases found)
    case (Some a)
    then have "res = Inr a" "c = c'" using assms(4,5) by simp_all
    then show ?thesis using finished [OF s2(1)] s2 f(1) Some
      by (intro exI [of _ evs] exI [of _ "s2\<lparr>au_flights := au_flights s\<rparr>"]) (simp add: checked_def, blast)
  next
    case None
    have missed: "led k Missed \<in> set (au_flights s2)" using s2(4) None by (simp add: checked_def)
    show ?thesis
    proof (cases "select_key k (au_db s)")
      case none: None
      then have res: "res = Inl errKeyNotFound" "c = c'" using assms(4,5) None by simp_all
      let ?s3 = "s2\<lparr>au_flights := led k (Returned res) # au_flights s\<rparr>"
      have "auth_step s2 (QueryFails k errKeyNotFound) ?s3"
        using looked_up [OF query_fails [OF missed, of k errKeyNotFound]] none s2(3,4) None
        by (simp add: set_flight_def checked_def res)
      from finished [OF trace_snoc [OF s2(1) this]] show ?thesis
        using s2 f(2) [OF None] none res(2)
        by (intro exI [of _ "evs @ [QueryFails k errKeyNotFound]"] exI [of _ "?s3\<lparr>au_flights := au_flights s\<rparr>"]) (simp add: res(1))
    next
      case (Some a)
      then have res: "res = Inr a" "c = put k a (clock 4) pick c'" using assms(4,5) None by simp_all
      let ?s3 = "s2\<lparr>au_flights := led k (Held a) # au_flights s\<rparr>"
      let ?s4 = "?s3\<lparr>au_cache := c, au_clock := clock 4, au_flights := led k (Returned res) # au_flights s\<rparr>"
      have q: "auth_step s2 (Query k a) ?s3"
        using looked_up [OF query [OF missed, of k a]] Some s2(3,4) None by (simp add: set_flight_def checked_def)
      have "auth_step ?s3 (Fill k a (clock 4) pick) ?s4"
        using looked_up [OF fill [of "led k (Held a)" ?s3 k a "clock 4" pick]] order_trans [OF s2(5) assms(2) [of 3 4]]
        by (simp add: set_flight_def res s2(2))
      from finished [OF trace_snoc [OF trace_snoc [OF s2(1) q] this]] show ?thesis
        using s2(3) res(1)
        by (intro exI [of _ "(evs @ [Query k a]) @ [Fill k a (clock 4) pick]"] exI [of _ "?s4\<lparr>au_flights := au_flights s\<rparr>"]) auto
    qed
  qed
qed

text \<open>
  C31. \<^verbatim>\<open>LookupAPIKey\<close> run alone is a run of the transition system: with a clock that does not
  run backwards its cache changes are those of a trace of lookup steps, which leaves the running
  calls as they were. An answer is that of the trace's last step, or of the call that this step
  ends; not found means that the database has no live row and that nothing was cached.
\<close>

theorem LookupAPIKey_simulated:
  assumes "au_clock s \<le> clock 0" "\<forall>n. clock n \<le> clock (Suc n)"
    and "LookupAPIKey Sum256 clock pick rawKey (au_db s) (au_cache s) = (res, c)" and k: "k = Sum256 rawKey"
  shows "\<exists>evs s'. auth_trace s evs s' \<and> au_cache s' = c \<and> au_db s' = au_db s \<and> au_flights s' = au_flights s \<and>
     (case res of
        Inr a \<Rightarrow> evs \<noteq> [] \<and> ((\<exists>t. answers (last evs) k t a) \<or> last evs = Finish k (Inr a) 0 \<and>
          (\<exists>t. answers (last (butlast evs)) k t a \<or> last (butlast evs) = Fill k a t pick))
      | Inl e \<Rightarrow> evs \<noteq> [] \<and> last evs = Finish k (Inl e) 0 \<and> select_key k (au_db s) = None \<and>
          (\<forall>ev \<in> set evs. ev \<in> {Lead k, QueryFails k e, Finish k (Inl e) 0} \<or>
             (\<exists>t. ev \<in> {Recheck k t None, Check k t None, CheckLocked k t None})))"
proof -
  have mono: "clock m \<le> clock n" if "m \<le> n" for m n
    by (rule lift_Suc_mono_le [of clock, OF _ that]) (use assms(2) in blast)
  obtain f1 c1 where g1: "get_key k (clock 0) (clock 1) (au_cache s) = (f1, c1)" by fastforce
  obtain evs1 s1 where s1: "auth_trace s evs1 s1" "au_cache s1 = c1" "au_db s1 = au_db s" "au_flights s1 = au_flights s" "au_clock s1 \<le> clock 1"
    and f1: "\<And>a. f1 = Some a \<Longrightarrow> evs1 \<noteq> [] \<and> (\<exists>t. answers (last evs1) k t a)"
      "f1 = None \<Longrightarrow> \<forall>ev \<in> set evs1. \<exists>t. ev = Recheck k t None"
    using get_key_simulated [OF assms(1) mono [of 0 1] g1] by auto
  show ?thesis
  proof (cases f1)
    case (Some a)
    then have "res = Inr a" "c = c1" using assms(3) g1 k by (simp_all add: LookupAPIKey_def Let_def)
    then show ?thesis using s1 f1(1) [OF Some] by (intro exI [of _ evs1] exI [of _ s1]) simp
  next
    case None
    obtain f2 c2 where g2: "get_key k (clock 2) (clock 3) (au_cache s1) = (f2, c2)" by fastforce
    have lk: "res = (case f2 of Some a \<Rightarrow> Inr a | None \<Rightarrow>
          (case select_key k (au_db s1) of None \<Rightarrow> Inl errKeyNotFound | Some a \<Rightarrow> Inr a))"
        "c = (case (f2, select_key k (au_db s1)) of (None, Some a) \<Rightarrow> put k a (clock 4) pick c2 | _ \<Rightarrow> c2)"
      using assms(3) g1 g2 None s1(2,3) k by (auto simp: LookupAPIKey_def Let_def split: option.splits)
    obtain evs2 s2 where s2: "auth_trace s1 (Lead k # evs2 @ [Finish k res 0]) s2" "au_cache s2 = c" "au_db s2 = au_db s1"
        "au_flights s2 = au_flights s1" "evs2 \<noteq> []"
      and f2: "\<And>a. res = Inr a \<Longrightarrow> \<exists>t. answers (last evs2) k t a \<or> last evs2 = Fill k a t pick"
        "\<And>e. res = Inl e \<Longrightarrow> select_key k (au_db s1) = None \<and>
          (\<forall>ev \<in> set evs2. ev = QueryFails k e \<or> (\<exists>t. ev \<in> {Check k t None, CheckLocked k t None}))"
      using call_simulated [OF order_trans [OF s1(5) mono [of 1 2]] mono g2 lk] by auto
    let ?evs = "evs1 @ Lead k # evs2 @ [Finish k res 0]"
    have "auth_trace s ?evs s2" by (rule trace_append [OF s2(1) s1(1)])
    moreover have "last ?evs = Finish k res 0" "last (butlast ?evs) = last evs2"
      using s2(5) by (simp_all add: butlast_append)
    ultimately show ?thesis
      using s1 s2 f1(2) [OF None] f2 by (intro exI [of _ ?evs] exI [of _ s2]) (cases res; fastforce)
  qed
qed

section \<open>Concrete runs\<close>

definition demo_key :: APIKey where
  "demo_key = \<lparr>ak_ID = 1, ak_BuyerID = 2, ak_KeyHash = [7], ak_IsAdmin = False, ak_Name = [], ak_Revoked = False\<rparr>"

definition demo_auth :: auth_state where
  "demo_auth = \<lparr>au_db = \<lparr>db_keys = [demo_key], db_buyers = [2]\<rparr>, au_cache = None, au_flights = [], au_revokes = [],
     au_tombstones = [], au_ids = [1], au_clock = 0\<rparr>"

definition demo_held :: auth_state where
  "demo_held = demo_auth\<lparr>au_flights := [led [7] (Held (auth_of demo_key))]\<rparr>"

definition demo_stored :: auth_state where
  "demo_stored = demo_auth\<lparr>au_cache := put [7] (auth_of demo_key) 0 0 None\<rparr>"

abbreviation "demo_reading \<equiv> [Lead [7], Check [7] 0 None, Query [7] (auth_of demo_key)]"

lemma demo_init: "auth_init demo_auth"
  by (simp add: auth_init_def demo_auth_def demo_key_def)

lemma demo_read: "auth_trace demo_auth demo_reading demo_held"
proof -
  let ?s1 = "demo_auth\<lparr>au_flights := [led [7] Started]\<rparr>" and ?s2 = "demo_auth\<lparr>au_flights := [led [7] Missed]\<rparr>"
  have 1: "auth_step demo_auth (Lead [7]) ?s1"
    using looked_up [OF lead [of demo_auth "[7]"]] by (simp add: demo_auth_def led_def)
  have 2: "auth_step ?s1 (Check [7] 0 None) ?s2"
    using looked_up [OF check [of "led [7] Started" ?s1 "[7]" 0 None False]]
    by (simp add: demo_auth_def get_read_def set_flight_def checked_def)
  have 3: "auth_step ?s2 (Query [7] (auth_of demo_key)) demo_held"
    using looked_up [OF query [of "led [7] Missed" ?s2 "[7]" "auth_of demo_key"]]
    by (simp add: demo_auth_def demo_held_def set_flight_def select_key_def key_live_def demo_key_def)
  show ?thesis using trace_Cons [OF 1 trace_Cons [OF 2 trace_Cons [OF 3 trace_nil]]] .
qed

lemma demo_fill:
  "auth_trace demo_auth (demo_reading @ [Fill [7] (auth_of demo_key) 0 0, Finish [7] (Inr (auth_of demo_key)) 0]) demo_stored"
proof -
  let ?s1 = "demo_stored\<lparr>au_flights := [led [7] (Returned (Inr (auth_of demo_key)))]\<rparr>"
  have 1: "auth_step demo_held (Fill [7] (auth_of demo_key) 0 0) ?s1"
    using looked_up [OF fill [of "led [7] (Held (auth_of demo_key))" demo_held "[7]" "auth_of demo_key" 0 0]]
    by (simp add: demo_held_def demo_stored_def demo_auth_def set_flight_def)
  have 2: "auth_step ?s1 (Finish [7] (Inr (auth_of demo_key)) 0) demo_stored"
    using looked_up [OF finish [of "led [7] (Returned (Inr (auth_of demo_key)))" ?s1 "[7]" "Inr (auth_of demo_key)" 0]]
    by (simp add: demo_stored_def demo_auth_def)
  show ?thesis using trace_append [OF trace_Cons [OF 1 trace_Cons [OF 2 trace_nil]] demo_read] .
qed

theorem cached_answer_fresh_witness:
  "\<exists>pre t0 pick post. demo_reading @ [Fill [7] (auth_of demo_key) 0 0, Finish [7] (Inr (auth_of demo_key)) 0] =
     pre @ Fill [7] (auth_of demo_key) t0 pick # post \<and> 1 \<le> t0 + apiKeyCacheTTL"
proof -
  have "get_read [7] 1 (au_cache demo_stored) = (Some (auth_of demo_key), False)"
    unfolding demo_stored_def by (simp add: put_read auth_of_def demo_key_def apiKeyCacheTTL_def)
  then have "auth_step demo_stored (Hit [7] 1 (auth_of demo_key)) (demo_stored\<lparr>au_clock := 1\<rparr>)"
    by (intro looked_up hit [where again = False]) (simp_all add: demo_stored_def demo_auth_def)
  then show ?thesis using cached_answer_fresh [OF demo_init demo_fill] by (fastforce simp: answers_def)
qed

theorem revoked_key_dead_witness:
  "\<not> gives (Recheck [7] 5 None) (auth_of demo_key)"
proof -
  let ?s2 = "demo_stored\<lparr>au_db := revoke_update 2 1 (au_db demo_auth), au_revokes := [1]\<rparr>"
  let ?c = "invalidateID 1 (au_cache demo_stored)"
  let ?s3 = "?s2\<lparr>au_cache := ?c, au_revokes := []\<rparr>"
  have gone: "get_locked [7] 5 ?c = (None, ?c)"
    by (simp add: demo_stored_def put_def displace_def evict_def auth_of_def demo_key_def get_locked_def invalidateID_def
        removeLocked_key_def apiKeyCacheMaxEntries_def)
  have 1: "auth_step demo_stored (Revoke (ak_BuyerID demo_key) (ak_ID demo_key)) ?s2"
    using revoke [of demo_stored 2 1] by (simp add: demo_stored_def demo_auth_def demo_key_def)
  have 2: "auth_step ?s2 (Revoked (ak_ID demo_key)) ?s3"
    using revoked [of 1 ?s2] by (simp add: demo_stored_def demo_auth_def demo_key_def)
  have 3: "auth_trace ?s3 [Recheck [7] 5 None] (?s3\<lparr>au_clock := 5\<rparr>)"
    using trace_Cons [OF looked_up [OF recheck [of ?s3 5 "[7]" None ?c]] trace_nil] gone by (simp add: demo_stored_def demo_auth_def)
  have "demo_key \<in> set (db_keys (au_db demo_stored))" "\<forall>f \<in> set (au_flights ?s2). \<not> has_answer (ak_ID demo_key) f"
    by (simp_all add: demo_stored_def demo_auth_def)
  from revoked_key_dead [OF demo_init demo_fill this(1) 1 trace_nil this(2) 2 3] show ?thesis by (auto simp: auth_of_def)
qed

theorem revoked_key_still_answered_witness:
  "\<exists>s. auth_trace demo_held [Revoke 2 1, Revoked 1, Join [7], Fill [7] (auth_of demo_key) 3 0,
     Finish [7] (Inr (auth_of demo_key)) 1] s \<and> demo_key\<lparr>ak_Revoked := True\<rparr> \<in> set (db_keys (au_db s))"
  using revoked_key_still_answered [OF demo_init demo_read, of "led [7] (Held (auth_of demo_key))" demo_key 3 3 0]
  by (auto simp: demo_held_def demo_auth_def demo_key_def apiKeyCacheTTL_def)

theorem LookupAPIKey_simulated_witness:
  "\<exists>evs s'. auth_trace demo_auth evs s' \<and>
     au_cache s' = snd (LookupAPIKey (\<lambda>_. [7]) int 0 ''cx_live_k'' (au_db demo_auth) (au_cache demo_auth))"
  using LookupAPIKey_simulated [of demo_auth int "\<lambda>_. [7]" 0 "''cx_live_k''"
      "fst (LookupAPIKey (\<lambda>_. [7]) int 0 ''cx_live_k'' (au_db demo_auth) (au_cache demo_auth))"
      "snd (LookupAPIKey (\<lambda>_. [7]) int 0 ''cx_live_k'' (au_db demo_auth) (au_cache demo_auth))" "[7]"]
  by (auto simp: demo_auth_def)

end
