(* ===== verification/Ledger.thy ===== *)
theory Ledger
  imports Verification_Plan Execution_Envelope
begin

text \<open>
  The ledger of \<^verbatim>\<open>ledger_write.go\<close>: the rows of \<^verbatim>\<open>ledger_entries\<close>, the check that every write
  passes (\<^verbatim>\<open>resolveLedgerInsert\<close>), the three ways a row is inserted, and the citation of a
  pricing authority (\<^verbatim>\<open>liability_authority.go\<close>).

  An amount is a number of millionths, which \<^verbatim>\<open>NUMERIC(12,6)\<close> holds exactly. The unique indexes
  and \<^verbatim>\<open>CHECK\<close> constraints of \<^verbatim>\<open>schema.sql\<close> are part of an insert; its currency triggers are
  deferred and run at commit. None of the modelled functions goes on after a failed statement,
  so a transaction body is a function to an error or to a result and the new tables, and an
  error leaves the tables as they were.
\<close>

section \<open>Rows\<close>

definition KindClawback :: string where "KindClawback = ''clawback''"
definition KindBuyerRefund :: string where "KindBuyerRefund = ''buyer_refund''"
definition KindPlatformRefund :: string where "KindPlatformRefund = ''platform_refund''"
definition KindPrepaidTopup :: string where "KindPrepaidTopup = ''prepaid_topup''"
definition KindPrepaidDebit :: string where "KindPrepaidDebit = ''prepaid_debit''"
definition KindPrepaidRestore :: string where "KindPrepaidRestore = ''prepaid_restore''"
definition KindPrepaidBalanceReturn :: string where "KindPrepaidBalanceReturn = ''prepaid_balance_return''"
definition KindPrepaidRefund :: string where "KindPrepaidRefund = ''prepaid_refund''"
definition KindStripeFee :: string where "KindStripeFee = ''stripe_fee''"
definition KindSLARefund :: string where "KindSLARefund = ''sla_refund''"
definition KindRiskReserveAccrual :: string where "KindRiskReserveAccrual = ''risk_reserve_accrual''"
definition KindRiskReserveRelease :: string where "KindRiskReserveRelease = ''risk_reserve_release''"
definition KindRiskReserveConsume :: string where "KindRiskReserveConsume = ''risk_reserve_consume''"

definition maxMoneyAbsMicros :: int64 where "maxMoneyAbsMicros = 999999999999"
definition liabilityLifecycleRevision :: string where "liabilityLifecycleRevision = ''refund-dispute-payout-lifecycle-v1''"

definition ledgerCurrencyAuthorityNone :: string where "ledgerCurrencyAuthorityNone = []"
definition ledgerCurrencyAuthorityPrepaid :: string where "ledgerCurrencyAuthorityPrepaid = ''prepaid_source''"
definition ledgerCurrencyAuthorityExecutionContract :: string where
  "ledgerCurrencyAuthorityExecutionContract = ''execution_contract_source''"
definition ledgerCurrencyAuthorityJob :: string where "ledgerCurrencyAuthorityJob = ''job_source''"

lemmas kind_defs = KindBuyerCharge_def KindSupplierCredit_def KindPlatformTake_def KindClawback_def KindBuyerRefund_def
  KindPlatformRefund_def KindPrepaidTopup_def KindPrepaidDebit_def KindPrepaidRestore_def KindPrepaidBalanceReturn_def
  KindPrepaidRefund_def KindStripeFee_def KindSLARefund_def KindRiskReserveAccrual_def KindRiskReserveRelease_def
  KindRiskReserveConsume_def

lemmas authority_defs = ledgerCurrencyAuthorityNone_def ledgerCurrencyAuthorityPrepaid_def
  ledgerCurrencyAuthorityExecutionContract_def ledgerCurrencyAuthorityJob_def

record ledgerInsert =
  li_Kind :: string
  li_SupplierID :: "uuid option"
  li_BuyerID :: "uuid option"
  li_TaskID :: "uuid option"
  li_ExecutionContractID :: "uuid option"
  li_AmountMicros :: int64
  li_Currency :: string
  li_CurrencyAuthority :: string
  li_BoundJobCurrency :: string
  li_PayoutStatus :: string
  li_ReleaseAt :: "int option"
  li_PayoutRef :: string
  li_PricingDecisionSHA256 :: string
  li_LifecycleRevision :: string
  li_LaneSettlementID :: string

text \<open>A composite literal with the named fields; the others have Go's zero values.\<close>

definition ledger_literal :: "string \<Rightarrow> int64 \<Rightarrow> string \<Rightarrow> string \<Rightarrow> ledgerInsert" where
  "ledger_literal kind amount currency status = \<lparr>li_Kind = kind, li_SupplierID = None, li_BuyerID = None, li_TaskID = None,
     li_ExecutionContractID = None, li_AmountMicros = amount, li_Currency = currency, li_CurrencyAuthority = [],
     li_BoundJobCurrency = [], li_PayoutStatus = status, li_ReleaseAt = None, li_PayoutRef = [],
     li_PricingDecisionSHA256 = [], li_LifecycleRevision = [], li_LaneSettlementID = []\<rparr>"

record ledger_row =
  lr_kind :: string
  lr_supplier :: "uuid option"
  lr_buyer :: "uuid option"
  lr_task :: "uuid option"
  lr_contract :: "uuid option"
  lr_amount :: int
  lr_currency :: string
  lr_status :: string
  lr_release :: "int option"
  lr_ref :: "string option"
  lr_sha :: "string option"
  lr_revision :: "string option"
  lr_lane :: "string option"

text \<open>The columns of \<^verbatim>\<open>jobs\<close>, with the premium and currency of the job's economic plan if it has one.\<close>

record job_row =
  jb_id :: uuid
  jb_buyer :: uuid
  jb_currency :: string
  jb_status :: string
  jb_sha :: string
  jb_plan :: "(int \<times> string) option"
  jb_card_collected :: bool

text \<open>The operation tables of prepaid top-ups and refunds, and the cash collected from cards.\<close>

record topup_op =
  tu_key :: string
  tu_buyer :: uuid
  tu_cents :: int64
  tu_currency :: string
  tu_status :: string
  tu_intent :: "string option"
  tu_charge :: "string option"

record cash_collection =
  cc_intent :: string
  cc_charge :: string
  cc_buyer :: uuid
  cc_source :: string
  cc_requested :: int64
  cc_received :: int64
  cc_currency :: string

record refund_op =
  ro_key :: string
  ro_refund :: string
  ro_buyer :: uuid
  ro_cents :: int64
  ro_currency :: string
  ro_status :: string
  ro_intent :: string
  ro_stripe :: "string option"

text \<open>
  The tables. A task has its job, an execution contract and a service lease their buyer and
  currency, a balance its buyer and currency, and an administrative action on prepaid refunds,
  found by its reference, the digest of its request and its actor.
\<close>

record ledger_db =
  ld_entries :: "ledger_row list"
  ld_jobs :: "job_row list"
  ld_tasks :: "(uuid \<times> uuid) list"
  ld_contracts :: "(uuid \<times> (uuid \<times> string)) list"
  ld_leases :: "(uuid \<times> (uuid \<times> string)) list"
  ld_balances :: "((uuid \<times> string) \<times> int64) list"
  ld_topups :: "topup_op list"
  ld_collections :: "cash_collection list"
  ld_refunds :: "refund_op list"
  ld_admin :: "(string \<times> (string \<times> string)) list"

definition job_of :: "ledger_db \<Rightarrow> uuid \<Rightarrow> job_row option" where
  "job_of db j = find (\<lambda>r. jb_id r = j) (ld_jobs db)"

definition nullif_empty :: "string \<Rightarrow> string option" where
  "nullif_empty s = (if s = [] then None else Some s)"

section \<open>Constraints\<close>

abbreviation "errCheckViolation \<equiv> Sentinel ''SQLSTATE 23514''"

definition lower_hex :: "char \<Rightarrow> bool" where
  "lower_hex c = (let n = of_char c :: nat in (48 \<le> n \<and> n \<le> 57) \<or> (97 \<le> n \<and> n \<le> 102))"

definition row_checks :: "ledger_row \<Rightarrow> bool" where
  "row_checks r \<longleftrightarrow> \<bar>lr_amount r\<bar> \<le> sint maxMoneyAbsMicros \<and> lr_currency r \<in> set (map fst supportedCurrencies) \<and>
     (lr_kind r = KindSupplierCredit \<and> lr_status r = PayoutReleased \<longrightarrow> lr_ref r \<noteq> None) \<and>
     (case lr_sha r of None \<Rightarrow> True | Some s \<Rightarrow> length s = 64 \<and> list_all lower_hex s) \<and>
     (case lr_revision r of None \<Rightarrow> True | Some s \<Rightarrow> s = liabilityLifecycleRevision)"

definition same_key :: "'k option \<Rightarrow> 'k option \<Rightarrow> bool" where
  "same_key a b \<longleftrightarrow> a \<noteq> None \<and> a = b"

definition task_conflict :: "ledger_row \<Rightarrow> ledger_row \<Rightarrow> bool" where
  "task_conflict r s \<longleftrightarrow> lr_kind r = lr_kind s \<and> same_key (lr_task r) (lr_task s)"

text \<open>The partial unique index on \<^verbatim>\<open>payout_ref\<close> a row belongs to, if any.\<close>

definition ref_index :: "ledger_row \<Rightarrow> string option" where
  "ref_index r =
     (if lr_kind r \<in> set [KindStripeFee, KindSLARefund, KindPrepaidTopup, KindPrepaidRefund, KindPrepaidRestore, KindPrepaidBalanceReturn]
      then Some (lr_kind r)
      else if lr_kind r \<in> set [KindRiskReserveAccrual, KindRiskReserveRelease, KindRiskReserveConsume] then Some ''risk_reserve''
      else if lr_kind r = KindBuyerCharge \<and> lr_task r = None then Some ''sla_premium'' else None)"

definition other_conflict :: "ledger_row \<Rightarrow> ledger_row \<Rightarrow> bool" where
  "other_conflict r s \<longleftrightarrow> (lr_kind r = lr_kind s \<and> same_key (lr_contract r) (lr_contract s)) \<or>
     (same_key (ref_index r) (ref_index s) \<and> same_key (lr_ref r) (lr_ref s))"

definition add_row :: "ledger_row \<Rightarrow> ledger_db \<Rightarrow> ledger_db" where
  "add_row r db = db\<lparr>ld_entries := ld_entries db @ [r]\<rparr>"

text \<open>\<^verbatim>\<open>INSERT\<close>, and \<^verbatim>\<open>INSERT ... ON CONFLICT (task_id, kind) DO NOTHING\<close>, with the rows affected.\<close>

definition insert_row :: "ledger_row \<Rightarrow> ledger_db \<Rightarrow> (nat \<times> ledger_db) result" where
  "insert_row r db =
     (if \<not> row_checks r then Inl errCheckViolation
      else if list_ex (\<lambda>s. task_conflict r s \<or> other_conflict r s) (ld_entries db) then Inl errUniqueViolation
      else Inr (1, add_row r db))"

definition insert_row_or_nothing :: "ledger_row \<Rightarrow> ledger_db \<Rightarrow> (nat \<times> ledger_db) result" where
  "insert_row_or_nothing r db =
     (if \<not> row_checks r then Inl errCheckViolation
      else if list_ex (task_conflict r) (ld_entries db) then Inr (0, db)
      else if list_ex (other_conflict r) (ld_entries db) then Inl errUniqueViolation
      else Inr (1, add_row r db))"

text \<open>The deferred triggers: a row of a task or an execution contract has its currency.\<close>

definition currency_fence :: "ledger_db \<Rightarrow> ledger_row \<Rightarrow> bool" where
  "currency_fence db r \<longleftrightarrow>
     (case lr_task r of None \<Rightarrow> True | Some t \<Rightarrow>
        (case map_of (ld_tasks db) t of None \<Rightarrow> False | Some j \<Rightarrow>
          (case job_of db j of None \<Rightarrow> False | Some job \<Rightarrow> jb_currency job = lr_currency r))) \<and>
     (case lr_contract r of None \<Rightarrow> True | Some c \<Rightarrow>
        (case map_of (ld_contracts db) c of None \<Rightarrow> False | Some (_, currency) \<Rightarrow> currency = lr_currency r))"

definition ledger_commit :: "ledger_db \<Rightarrow> ledger_db result" where
  "ledger_commit db = (if list_all (currency_fence db) (ld_entries db) then Inr db else Inl errCheckViolation)"

section \<open>The write check\<close>

definition source_bound :: "ledgerInsert \<Rightarrow> Currency \<Rightarrow> bool result" where
  "source_bound e got =
     (if li_CurrencyAuthority e = ledgerCurrencyAuthorityNone then Inr False
      else if li_CurrencyAuthority e = ledgerCurrencyAuthorityPrepaid
      then Inr (li_Kind e \<in> set [KindPrepaidTopup, KindPrepaidDebit, KindPrepaidRestore, KindPrepaidBalanceReturn, KindPrepaidRefund])
      else if li_CurrencyAuthority e = ledgerCurrencyAuthorityExecutionContract then Inr (li_ExecutionContractID e \<noteq> None)
      else if li_CurrencyAuthority e = ledgerCurrencyAuthorityJob then
        (if TrimSpace (li_BoundJobCurrency e) = []
         then Inl (Msg ''job currency authority requires bound job currency'')
         else case ParseCurrency (li_BoundJobCurrency e) of
             Inl e' \<Rightarrow> Inl (Wrap ''ledger insert bound job currency'' e')
           | Inr bound \<Rightarrow>
               if \<not> Currency_Equal got bound then Inl (Wrap ''does not match job currency'' errCurrencyMismatch)
               else Inr (li_Kind e \<in> set [KindRiskReserveAccrual, KindRiskReserveRelease, KindRiskReserveConsume, KindSLARefund]))
      else Inl (Msg ''unknown currency authority''))"

definition citation_format :: "ledgerInsert \<Rightarrow> ledgerInsert result" where
  "citation_format e =
     (let sha = TrimSpace (li_PricingDecisionSHA256 e); rev = TrimSpace (li_LifecycleRevision e) in
      if sha \<noteq> [] \<and> \<not> validSHA256 sha then Inl (Msg ''is not a sha256 hex digest'')
      else if rev \<noteq> [] \<and> rev \<noteq> liabilityLifecycleRevision then Inl (Msg ''unknown lifecycle revision'')
      else Inr (e\<lparr>li_PricingDecisionSHA256 := (if sha \<noteq> [] then sha else li_PricingDecisionSHA256 e),
        li_LifecycleRevision := (if rev \<noteq> [] then rev else li_LifecycleRevision e),
        li_LaneSettlementID := TrimSpace (li_LaneSettlementID e)\<rparr>))"

definition resolveLedgerInsert :: "settlement \<Rightarrow> ledgerInsert \<Rightarrow> ledgerInsert result" where
  "resolveLedgerInsert g e =
     (if li_Kind e = [] then Inl (Msg ''ledger insert requires kind'')
      else if maxMoneyAbsMicros <s li_AmountMicros e \<or> li_AmountMicros e <s - maxMoneyAbsMicros
      then Inl (Msg ''exceeds NUMERIC(12,6) domain'')
      else let cur = TrimSpace (li_Currency e) in
      if cur = [] \<and> SettlementCurrencyCode g = [] then Inl (Msg ''ledger insert requires currency'')
      else case ParseCurrency (if cur = [] then SettlementCurrencyCode g else cur) of
        Inl e' \<Rightarrow> Inl (Wrap ''ledger insert currency'' e')
      | Inr got \<Rightarrow>
          bind_result (SettlementCurrency g) (\<lambda>settle.
          bind_result (source_bound e got) (\<lambda>bound.
          if li_CurrencyAuthority e \<noteq> ledgerCurrencyAuthorityNone \<and> \<not> bound
          then Inl (Msg ''currency authority does not bind this row'')
          else if \<not> Currency_Equal got settle \<and> li_Kind e \<noteq> KindClawback \<and> li_Kind e \<noteq> KindBuyerRefund \<and>
            li_Kind e \<noteq> KindPlatformRefund \<and> \<not> bound
          then Inl (Wrap ''does not match settlement'' errCurrencyMismatch)
          else citation_format (e\<lparr>li_Currency := Currency_Code got\<rparr>))))"

definition row_of :: "ledgerInsert \<Rightarrow> ledger_row" where
  "row_of e = \<lparr>lr_kind = li_Kind e, lr_supplier = li_SupplierID e, lr_buyer = li_BuyerID e, lr_task = li_TaskID e,
     lr_contract = li_ExecutionContractID e, lr_amount = sint (li_AmountMicros e), lr_currency = li_Currency e,
     lr_status = li_PayoutStatus e, lr_release = li_ReleaseAt e, lr_ref = nullif_empty (li_PayoutRef e),
     lr_sha = nullif_empty (li_PricingDecisionSHA256 e), lr_revision = nullif_empty (li_LifecycleRevision e),
     lr_lane = nullif_empty (li_LaneSettlementID e)\<rparr>"

section \<open>Inserts\<close>

definition insertLedgerEntryTx :: "settlement \<Rightarrow> ledgerInsert \<Rightarrow> ledger_db \<Rightarrow> (nat \<times> ledger_db) result" where
  "insertLedgerEntryTx g e0 db = bind_result (resolveLedgerInsert g e0) (\<lambda>e. insert_row (row_of e) db)"

text \<open>This statement does not list \<^verbatim>\<open>execution_contract_id\<close>, which stays null.\<close>

definition insertLedgerEntryOnTaskConflictDoNothingTx ::
    "settlement \<Rightarrow> ledgerInsert \<Rightarrow> ledger_db \<Rightarrow> (nat \<times> ledger_db) result" where
  "insertLedgerEntryOnTaskConflictDoNothingTx g e0 db =
     bind_result (resolveLedgerInsert g e0) (\<lambda>e. insert_row_or_nothing ((row_of e)\<lparr>lr_contract := None\<rparr>) db)"

definition has_ref :: "string \<Rightarrow> string \<Rightarrow> ledger_row \<Rightarrow> bool" where
  "has_ref kind ref r \<longleftrightarrow> lr_kind r = kind \<and> lr_ref r = Some ref"

definition insertLedgerEntryIfAbsentByRefTx :: "settlement \<Rightarrow> ledgerInsert \<Rightarrow> ledger_db \<Rightarrow> (nat \<times> ledger_db) result" where
  "insertLedgerEntryIfAbsentByRefTx g e0 db =
     bind_result (resolveLedgerInsert g e0) (\<lambda>e.
       if li_PayoutRef e = [] then Inl (Msg ''ledger insert by ref requires payout_ref'')
       else if list_ex (has_ref (li_Kind e) (li_PayoutRef e)) (ld_entries db) then Inr (0, db)
       else insert_row (row_of e) db)"

section \<open>Citations\<close>

record liabilityAuthority =
  la_PricingDecisionSHA256 :: string
  la_LaneSettlementID :: string
  la_LifecycleRevision :: string

definition liabilityAuthority_ok :: "liabilityAuthority \<Rightarrow> bool" where
  "liabilityAuthority_ok a \<longleftrightarrow> TrimSpace (la_PricingDecisionSHA256 a) \<noteq> [] \<or> TrimSpace (la_LaneSettlementID a) \<noteq> []"

definition liabilityAuthority_validate :: "liabilityAuthority \<Rightarrow> unit result" where
  "liabilityAuthority_validate a =
     (if \<not> liabilityAuthority_ok a
      then Inl (Msg ''liability authority requires pricing_decision_sha256 or lane_settlement_id'')
      else if TrimSpace (la_PricingDecisionSHA256 a) \<noteq> [] \<and> \<not> validSHA256 (TrimSpace (la_PricingDecisionSHA256 a))
      then Inl (Msg ''is not a sha256 hex digest'')
      else if TrimSpace (la_LifecycleRevision a) \<noteq> [] \<and> TrimSpace (la_LifecycleRevision a) \<noteq> liabilityLifecycleRevision
      then Inl (Msg ''unknown liability lifecycle revision'')
      else Inr ())"

definition applyLiabilityAuthority :: "ledgerInsert \<Rightarrow> liabilityAuthority \<Rightarrow> ledgerInsert result" where
  "applyLiabilityAuthority e a =
     bind_result (liabilityAuthority_validate a) (\<lambda>_.
       Inr (e\<lparr>li_PricingDecisionSHA256 := TrimSpace (la_PricingDecisionSHA256 a),
         li_LaneSettlementID := TrimSpace (la_LaneSettlementID a), li_LifecycleRevision := TrimSpace (la_LifecycleRevision a)\<rparr>))"

definition sameOptionalUUID :: "uuid option \<Rightarrow> uuid option \<Rightarrow> bool" where
  "sameOptionalUUID a b \<longleftrightarrow>
     (case (a, b) of (Some x, Some y) \<Rightarrow> x = y | _ \<Rightarrow> a = None \<and> b = None)"

section \<open>What a write keeps\<close>

lemma citation_format_Inr:
  assumes "citation_format e = Inr e'"
  shows "e' = e\<lparr>li_PricingDecisionSHA256 := li_PricingDecisionSHA256 e', li_LifecycleRevision := li_LifecycleRevision e',
     li_LaneSettlementID := li_LaneSettlementID e'\<rparr>"
  using assms by (auto simp: citation_format_def Let_def split: if_splits)

lemma resolve_Inr:
  assumes "resolveLedgerInsert g e = Inr e'"
  obtains got settle bound where "ParseCurrency (if TrimSpace (li_Currency e) = [] then SettlementCurrencyCode g else TrimSpace (li_Currency e)) = Inr got"
    and "SettlementCurrency g = Inr settle" "source_bound e got = Inr bound"
    and "li_CurrencyAuthority e = ledgerCurrencyAuthorityNone \<or> bound"
    and "Currency_Equal got settle \<or> li_Kind e = KindClawback \<or> li_Kind e = KindBuyerRefund \<or> li_Kind e = KindPlatformRefund \<or> bound"
    and "citation_format (e\<lparr>li_Currency := Currency_Code got\<rparr>) = Inr e'"
    and "\<not> maxMoneyAbsMicros <s li_AmountMicros e" "\<not> li_AmountMicros e <s - maxMoneyAbsMicros"
proof -
  have dom: "\<not> maxMoneyAbsMicros <s li_AmountMicros e" "\<not> li_AmountMicros e <s - maxMoneyAbsMicros" "li_Kind e \<noteq> []"
    using assms unfolding resolveLedgerInsert_def by (auto split: if_splits)
  let ?cur = "if TrimSpace (li_Currency e) = [] then SettlementCurrencyCode g else TrimSpace (li_Currency e)"
  obtain got where got: "ParseCurrency ?cur = Inr got"
    using assms dom unfolding resolveLedgerInsert_def Let_def by (cases "ParseCurrency ?cur") (auto split: if_splits)
  have "bind_result (SettlementCurrency g) (\<lambda>settle. bind_result (source_bound e got) (\<lambda>bound.
      if li_CurrencyAuthority e \<noteq> ledgerCurrencyAuthorityNone \<and> \<not> bound then Inl (Msg ''currency authority does not bind this row'')
      else if \<not> Currency_Equal got settle \<and> li_Kind e \<noteq> KindClawback \<and> li_Kind e \<noteq> KindBuyerRefund \<and>
        li_Kind e \<noteq> KindPlatformRefund \<and> \<not> bound then Inl (Wrap ''does not match settlement'' errCurrencyMismatch)
      else citation_format (e\<lparr>li_Currency := Currency_Code got\<rparr>))) = Inr e'"
    using assms dom got unfolding resolveLedgerInsert_def Let_def by (auto split: if_splits)
  then show ?thesis using that [OF got _ _ _ _ _ dom(1,2)] by (auto split: if_splits)
qed

lemma resolve_keeps:
  assumes "resolveLedgerInsert g e = Inr e'"
  shows "li_Kind e' = li_Kind e" "li_AmountMicros e' = li_AmountMicros e" "li_BuyerID e' = li_BuyerID e" "li_SupplierID e' = li_SupplierID e"
    "li_TaskID e' = li_TaskID e" "li_ExecutionContractID e' = li_ExecutionContractID e" "li_PayoutRef e' = li_PayoutRef e"
    "li_PayoutStatus e' = li_PayoutStatus e"
  by (rule resolve_Inr [OF assms], drule citation_format_Inr, erule ssubst, simp)+

section \<open>What an accepted write looks like\<close>

text \<open>The entries the check lets through in another currency than the one in force.\<close>

definition own_currency :: "ledgerInsert \<Rightarrow> string \<Rightarrow> bool" where
  "own_currency e currency \<longleftrightarrow> li_Kind e \<in> set [KindClawback, KindBuyerRefund, KindPlatformRefund] \<or>
     li_CurrencyAuthority e = ledgerCurrencyAuthorityPrepaid \<and>
       li_Kind e \<in> set [KindPrepaidTopup, KindPrepaidDebit, KindPrepaidRestore, KindPrepaidBalanceReturn, KindPrepaidRefund] \<or>
     li_CurrencyAuthority e = ledgerCurrencyAuthorityExecutionContract \<and> li_ExecutionContractID e \<noteq> None \<or>
     li_CurrencyAuthority e = ledgerCurrencyAuthorityJob \<and>
       li_Kind e \<in> set [KindRiskReserveAccrual, KindRiskReserveRelease, KindRiskReserveConsume, KindSLARefund] \<and>
       (\<exists>job. ParseCurrency (li_BoundJobCurrency e) = Inr job \<and> currency = Currency_Code job)"

lemma source_bound_own:
  assumes "source_bound e got = Inr True"
  shows "own_currency e (Currency_Code got)"
  using assms unfolding source_bound_def own_currency_def authority_defs
  by (auto simp: Currency_Equal_iff split: if_splits sum.splits)

text \<open>
  C18. Every row the ledger accepts is within the money domain and in a currency of the registry, and that is
  the settlement currency in force unless the entry reverses earlier money or cites a source with
  its own currency: a prepaid balance, an execution contract, or the job whose currency it carries.
\<close>

theorem ledger_write_currency:
  assumes run: "insertLedgerEntryTx g e db = Inr (n, db')"
  shows "\<exists>r settle. SettlementCurrency g = Inr settle \<and> ld_entries db' = ld_entries db @ [r] \<and> lr_kind r = li_Kind e \<and>
    lr_amount r = sint (li_AmountMicros e) \<and> \<bar>lr_amount r\<bar> \<le> sint maxMoneyAbsMicros \<and> lr_currency r \<in> set (map fst supportedCurrencies) \<and>
    (lr_currency r = Currency_Code settle \<or> own_currency e (lr_currency r))"
proof -
  obtain e' where e': "resolveLedgerInsert g e = Inr e'" "insert_row (row_of e') db = Inr (n, db')"
    using run by (auto simp: insertLedgerEntryTx_def)
  have row: "row_checks (row_of e')" "db' = add_row (row_of e') db" using e'(2) by (auto simp: insert_row_def split: if_splits)
  obtain got settle bound where r: "SettlementCurrency g = Inr settle" "source_bound e got = Inr bound"
    "Currency_Equal got settle \<or> li_Kind e = KindClawback \<or> li_Kind e = KindBuyerRefund \<or> li_Kind e = KindPlatformRefund \<or> bound"
    "citation_format (e\<lparr>li_Currency := Currency_Code got\<rparr>) = Inr e'" by (rule resolve_Inr [OF e'(1)])
  have cur: "lr_currency (row_of e') = Currency_Code got"
    using arg_cong [OF citation_format_Inr [OF r(4)], of li_Currency] by (simp add: row_of_def)
  have "Currency_Code got = Currency_Code settle \<or> own_currency e (Currency_Code got)"
    using r(2,3) source_bound_own [of e got] by (auto simp: Currency_Equal_iff own_currency_def)
  then show ?thesis using row r(1) cur resolve_keeps(1,2) [OF e'(1)]
    by (intro exI [of _ "row_of e'"] exI [of _ settle]) (simp add: add_row_def row_checks_def row_of_def)
qed

definition demo_entry :: "string \<Rightarrow> string \<Rightarrow> ledgerInsert" where
  "demo_entry kind currency = (ledger_literal kind (- 1000000) currency PayoutReleased)\<lparr>li_BuyerID := Some 7\<rparr>"

definition demo_books_db :: ledger_db where
  "demo_books_db = \<lparr>ld_entries = [], ld_jobs = [], ld_tasks = [], ld_contracts = [], ld_leases = [], ld_balances = [],
     ld_topups = [], ld_collections = [], ld_refunds = [], ld_admin = []\<rparr>"

theorem ledger_write_currency_witness:
  "insertLedgerEntryTx demo_settlement (demo_entry KindBuyerCharge ''cad'') demo_books_db = Inl (Wrap ''does not match settlement'' errCurrencyMismatch) \<and>
   (\<exists>n db'. insertLedgerEntryTx demo_settlement (demo_entry KindBuyerCharge ''usd'') demo_books_db = Inr (n, db') \<and>
     map lr_currency (ld_entries db') = [''usd''])"
proof -
  let ?run = "insertLedgerEntryTx demo_settlement (demo_entry KindBuyerCharge ''usd'') demo_books_db"
  have "isOK ?run" by code_simp
  then obtain n db' where run: "?run = Inr (n, db')" by (auto simp: isOK_def split: sum.splits)
  have own: "\<not> own_currency (demo_entry KindBuyerCharge ''usd'') c" for c
    by (simp add: own_currency_def demo_entry_def ledger_literal_def kind_defs KindBuyerCharge_def authority_defs)
  have settle: "SettlementCurrency demo_settlement = Inr \<lparr>cur_code = ''usd'', cur_exponent = 2\<rparr>" by code_simp
  have "map lr_currency (ld_entries db') = [''usd'']"
    using ledger_write_currency [OF run] own settle by (auto simp: demo_books_db_def Currency_Code_def)
  then show ?thesis using run by (auto, code_simp)
qed

end
