(* ===== verification/Prepaid.thy ===== *)
theory Prepaid
  imports Ledger
begin

text \<open>
  Prepaid balances (\<^verbatim>\<open>store_prepaid.go\<close>): top-ups, debits, restores and refunds. Each of them
  changes the materialised balance of a buyer in a currency and the prepaid rows of the ledger,
  and the theorems say that the two never drift apart and that refunds are covered by top-ups.

  The text form of a UUID is the argument \<^verbatim>\<open>U\<close>. Row locks and advisory locks serialise the
  transactions of a buyer, so each function is one step. The foreign keys to \<^verbatim>\<open>buyers\<close> only
  refuse more and are left out.
\<close>

section \<open>Balances\<close>

abbreviation "errInsufficientPrepaid \<equiv> Sentinel ''errInsufficientPrepaid''"

definition balance_of :: "ledger_db \<Rightarrow> uuid \<times> string \<Rightarrow> int64 option" where
  "balance_of db k = map_of (ld_balances db) k"

text \<open>\<^verbatim>\<open>INSERT ... VALUES (buyer, currency, 0) ON CONFLICT DO NOTHING\<close>.\<close>

definition ensure_balance :: "uuid \<times> string \<Rightarrow> ledger_db \<Rightarrow> ledger_db" where
  "ensure_balance k db = (if balance_of db k = None then db\<lparr>ld_balances := ld_balances db @ [(k, 0)]\<rparr> else db)"

definition set_balance :: "uuid \<times> string \<Rightarrow> int64 \<Rightarrow> ledger_db \<Rightarrow> ledger_db" where
  "set_balance k v db = db\<lparr>ld_balances := AList.update k v (ld_balances db)\<rparr>"

text \<open>\<^verbatim>\<open>UPDATE ... SET balance_micros = balance_micros - amount WHERE ... AND balance_micros >= amount\<close>.\<close>

definition debit_balance :: "uuid \<times> string \<Rightarrow> int64 \<Rightarrow> ledger_db \<Rightarrow> (nat \<times> ledger_db) result" where
  "debit_balance k amount db =
     (case balance_of db k of None \<Rightarrow> Inr (0, db) | Some b \<Rightarrow>
        if b <s amount then Inr (0, db)
        else bind_result (sql_sub b amount) (\<lambda>v. if v <s 0 then Inl errCheckViolation else Inr (1, set_balance k v db)))"

definition add_balance :: "uuid \<times> string \<Rightarrow> int64 \<Rightarrow> ledger_db \<Rightarrow> ledger_db result" where
  "add_balance k amount db =
     (case balance_of db k of None \<Rightarrow> Inr db | Some b \<Rightarrow>
        bind_result (sql_add b amount) (\<lambda>v. if v <s 0 then Inl errCheckViolation else Inr (set_balance k v db)))"

text \<open>\<^verbatim>\<open>INSERT ... ON CONFLICT (buyer_id,currency) DO UPDATE SET balance_micros = balance_micros + EXCLUDED.balance_micros\<close>.\<close>

definition upsert_balance :: "uuid \<times> string \<Rightarrow> int64 \<Rightarrow> ledger_db \<Rightarrow> ledger_db result" where
  "upsert_balance k amount db =
     (if amount <s 0 then Inl errCheckViolation
      else if balance_of db k = None then Inr (db\<lparr>ld_balances := ld_balances db @ [(k, amount)]\<rparr>)
      else add_balance k amount db)"

definition buyerPrepaidBalanceMicrosInCurrency :: "uuid \<Rightarrow> string \<Rightarrow> ledger_db \<Rightarrow> int64 result" where
  "buyerPrepaidBalanceMicrosInCurrency buyer currency db =
     bind_result (ParseCurrency currency) (\<lambda>cur.
       Inr (case balance_of db (buyer, Currency_Code cur) of None \<Rightarrow> 0 | Some b \<Rightarrow> b))"

definition creditPrepaidBalanceTx :: "uuid \<Rightarrow> int64 \<Rightarrow> string \<Rightarrow> ledger_db \<Rightarrow> ledger_db result" where
  "creditPrepaidBalanceTx buyerID amountMicros currency db =
     (if amountMicros \<le>s 0 then Inl (Msg ''prepaid credit requires positive micro-units'')
      else if buyerID = uuid_Nil then Inl (Msg ''prepaid credit requires buyer_id'')
      else bind_result (ParseCurrency currency) (\<lambda>cur. upsert_balance (buyerID, Currency_Code cur) amountMicros db))"

section \<open>Debits\<close>

text \<open>The steps the three debits share: ensure the row, lock and read it, check it, and update it.\<close>

definition take_balance :: "uuid \<times> string \<Rightarrow> int64 \<Rightarrow> ledger_db \<Rightarrow> ledger_db result" where
  "take_balance k amount db =
     (let db1 = ensure_balance k db in
      case balance_of db1 k of None \<Rightarrow> Inl errNoRows | Some bal \<Rightarrow>
        if bal <s amount then Inl errInsufficientPrepaid
        else bind_result (debit_balance k amount db1) (\<lambda>(n, db2). if n \<noteq> 1 then Inl errInsufficientPrepaid else Inr db2))"

definition prepaid_entry :: "string \<Rightarrow> uuid \<Rightarrow> int64 \<Rightarrow> string \<Rightarrow> string \<Rightarrow> ledgerInsert" where
  "prepaid_entry kind buyer amount currency ref = (ledger_literal kind amount currency PayoutReleased)
     \<lparr>li_BuyerID := Some buyer, li_CurrencyAuthority := ledgerCurrencyAuthorityPrepaid, li_PayoutRef := ref\<rparr>"

definition task_job :: "ledger_db \<Rightarrow> uuid \<Rightarrow> uuid \<Rightarrow> job_row option" where
  "task_job db tskID buyerID =
     (case map_of (ld_tasks db) tskID of None \<Rightarrow> None | Some j \<Rightarrow>
        (case job_of db j of None \<Rightarrow> None | Some job \<Rightarrow> if jb_buyer job = buyerID then Some job else None))"

definition debitPrepaidForTaskTx :: "settlement \<Rightarrow> uuid \<Rightarrow> uuid \<Rightarrow> int64 \<Rightarrow> ledger_db \<Rightarrow> ledger_db result" where
  "debitPrepaidForTaskTx g buyerID tskID amountMicros db =
     (if amountMicros \<le>s 0 then Inl (Msg ''prepaid debit requires positive micro-USD'')
      else case task_job db tskID buyerID of None \<Rightarrow> Inl errNoRows | Some job \<Rightarrow>
        bind_result (ParseCurrency (jb_currency job)) (\<lambda>cur. let k = (buyerID, Currency_Code cur) in
        bind_result (take_balance k amountMicros db) (\<lambda>db1.
        bind_result (insertLedgerEntryOnTaskConflictDoNothingTx g
          ((prepaid_entry KindPrepaidDebit buyerID (- amountMicros) (Currency_Code cur) [])\<lparr>li_TaskID := Some tskID\<rparr>) db1) (\<lambda>(n, db2).
        if n = 0 then add_balance k amountMicros db2 else Inr db2))))"

definition debitPrepaidByRefTx ::
    "settlement \<Rightarrow> uuid \<Rightarrow> int64 \<Rightarrow> string \<Rightarrow> string \<Rightarrow> string \<Rightarrow> string \<Rightarrow> ledger_db \<Rightarrow> ledger_db result" where
  "debitPrepaidByRefTx g buyerID amountMicros currency ref requireMsg conflictMsg db =
     (if buyerID = uuid_Nil \<or> amountMicros \<le>s 0 \<or> ref = [] then Inl (Msg requireMsg)
      else case ParseCurrency currency of Inl e \<Rightarrow> Inl (Wrap requireMsg e) | Inr cur \<Rightarrow>
        (case find (has_ref KindPrepaidDebit ref) (ld_entries db) of
           Some r \<Rightarrow>
             if lr_amount r \<noteq> - sint amountMicros \<or> lr_currency r \<noteq> Currency_Code cur \<or>
               \<not> sameOptionalUUID (lr_buyer r) (Some buyerID)
             then Inl (Msg conflictMsg) else Inr db
         | None \<Rightarrow> let k = (buyerID, Currency_Code cur) in
             bind_result (take_balance k amountMicros db) (\<lambda>db1.
             bind_result (insertLedgerEntryIfAbsentByRefTx g
               (prepaid_entry KindPrepaidDebit buyerID (- amountMicros) (Currency_Code cur) ref) db1) (\<lambda>(n, db2).
             if n = 0 then add_balance k amountMicros db2 else Inr db2))))"

definition prepaidExecutionContractDebitRef :: "(uuid \<Rightarrow> string) \<Rightarrow> uuid \<Rightarrow> string" where
  "prepaidExecutionContractDebitRef U contractID = ''prepaid-execution-contract-'' @ U contractID"

definition prepaidExecutionContractRestoreRef :: "(uuid \<Rightarrow> string) \<Rightarrow> uuid \<Rightarrow> string" where
  "prepaidExecutionContractRestoreRef U contractID = ''prepaid-execution-contract-restore-'' @ U contractID"

definition prepaidTaskRestoreRef :: "(uuid \<Rightarrow> string) \<Rightarrow> uuid \<Rightarrow> string" where
  "prepaidTaskRestoreRef U tskID = ''prepaid-task-restore-'' @ U tskID"

definition prepaidSLAPremiumRestoreRef :: "(uuid \<Rightarrow> string) \<Rightarrow> uuid \<Rightarrow> string" where
  "prepaidSLAPremiumRestoreRef U jobID = ''prepaid-sla-restore-'' @ U jobID"

definition prepaidSLAPremiumDebitRef :: "(uuid \<Rightarrow> string) \<Rightarrow> uuid \<Rightarrow> string" where
  "prepaidSLAPremiumDebitRef U jobID = ''prepaid-sla-'' @ U jobID"

definition prepaidServiceLeaseDebitRef :: "(uuid \<Rightarrow> string) \<Rightarrow> uuid \<Rightarrow> string" where
  "prepaidServiceLeaseDebitRef U leaseID = ''prepaid-service-lease-'' @ U leaseID"

definition debitPrepaidForExecutionContractTx ::
    "(uuid \<Rightarrow> string) \<Rightarrow> settlement \<Rightarrow> uuid \<Rightarrow> uuid \<Rightarrow> int64 \<Rightarrow> ledger_db \<Rightarrow> ledger_db result" where
  "debitPrepaidForExecutionContractTx U g buyerID contractID amountMicros db =
     (if contractID = uuid_Nil then Inl (Msg ''prepaid execution debit requires buyer, contract, and positive ledger micros'')
      else case map_of (ld_contracts db) contractID of None \<Rightarrow> Inl errNoRows | Some (buyer, currency) \<Rightarrow>
        if buyer \<noteq> buyerID then Inl errNoRows
        else debitPrepaidByRefTx g buyerID amountMicros currency (prepaidExecutionContractDebitRef U contractID)
          ''prepaid execution debit requires buyer, contract, and positive ledger micros''
          ''conflicting prepaid execution debit for contract'' db)"

definition debitPrepaidForServiceLeaseTx ::
    "(uuid \<Rightarrow> string) \<Rightarrow> settlement \<Rightarrow> uuid \<Rightarrow> uuid \<Rightarrow> int64 \<Rightarrow> ledger_db \<Rightarrow> ledger_db result" where
  "debitPrepaidForServiceLeaseTx U g buyerID leaseID amountMicros db =
     (if leaseID = uuid_Nil then Inl (Msg ''prepaid service debit requires buyer, lease, and positive ledger micros'')
      else case map_of (ld_leases db) leaseID of None \<Rightarrow> Inl errNoRows | Some (buyer, currency) \<Rightarrow>
        if buyer \<noteq> buyerID then Inl errNoRows
        else debitPrepaidByRefTx g buyerID amountMicros currency (prepaidServiceLeaseDebitRef U leaseID)
          ''prepaid service debit requires buyer, lease, and positive ledger micros''
          ''conflicting prepaid service debit for lease'' db)"

definition debitPrepaidForSLAPremiumTx ::
    "(uuid \<Rightarrow> string) \<Rightarrow> settlement \<Rightarrow> uuid \<Rightarrow> uuid \<Rightarrow> int64 \<Rightarrow> ledger_db \<Rightarrow> ledger_db result" where
  "debitPrepaidForSLAPremiumTx U g buyerID jobID amountMicros db =
     (if amountMicros \<le>s 0 then Inl (Msg ''prepaid SLA debit requires positive micro-USD'')
      else case job_of db jobID of None \<Rightarrow> Inl errNoRows | Some job \<Rightarrow>
        if jb_buyer job \<noteq> buyerID then Inl errNoRows
        else bind_result (ParseCurrency (jb_currency job)) (\<lambda>cur. let k = (buyerID, Currency_Code cur) in
        bind_result (take_balance k amountMicros db) (\<lambda>db1.
        bind_result (insertLedgerEntryIfAbsentByRefTx g
          (prepaid_entry KindPrepaidDebit buyerID (- amountMicros) (Currency_Code cur) (prepaidSLAPremiumDebitRef U jobID)) db1) (\<lambda>(n, db2).
        if n = 0 then add_balance k amountMicros db2 else Inr db2))))"

section \<open>Restores\<close>

text \<open>The receipt of a restore, and the balance credit that goes with a new one.\<close>

definition receipt_and_credit ::
    "(nat \<times> ledger_db) result \<Rightarrow> uuid \<Rightarrow> int64 \<Rightarrow> string \<Rightarrow> ledger_db result" where
  "receipt_and_credit inserted buyerID micros currency =
     bind_result inserted (\<lambda>(n, db). if n = 0 then Inr db else creditPrepaidBalanceTx buyerID micros currency db)"

definition restorePrepaidByDebitRefTx ::
    "settlement \<Rightarrow> uuid \<Rightarrow> string \<Rightarrow> string \<Rightarrow> string \<Rightarrow> int64 \<Rightarrow> ledger_db \<Rightarrow> ledger_db result" where
  "restorePrepaidByDebitRefTx g buyerID currency debitRef restoreRef restoreMicros db =
     (if buyerID = uuid_Nil \<or> debitRef = [] \<or> restoreRef = []
      then Inl (Msg ''prepaid restore requires buyer, debit ref, and restore ref'')
      else if restoreMicros \<le>s 0 then Inr db
      else bind_result (ParseCurrency currency) (\<lambda>cur.
      case find (has_ref KindPrepaidDebit debitRef) (ld_entries db) of
        None \<Rightarrow> Inl (Msg ''prepaid restore: no debit at ref'')
      | Some r \<Rightarrow>
          if 0 \<le> lr_amount r then Inl (Msg ''prepaid restore: debit ref has non-negative amount'')
          else if - lr_amount r < sint restoreMicros then Inl (Msg ''prepaid restore exceeds debit'')
          else if lr_currency r \<noteq> Currency_Code cur \<or> \<not> sameOptionalUUID (lr_buyer r) (Some buyerID)
          then Inl (Msg ''prepaid restore debit identity mismatch'')
          else receipt_and_credit (insertLedgerEntryIfAbsentByRefTx g
              (prepaid_entry KindPrepaidRestore buyerID restoreMicros (Currency_Code cur) restoreRef) db)
            buyerID restoreMicros (Currency_Code cur)))"

definition restorePrepaidForExecutionContractRefundTx ::
    "(uuid \<Rightarrow> string) \<Rightarrow> settlement \<Rightarrow> uuid \<Rightarrow> uuid \<Rightarrow> string \<Rightarrow> ledger_db \<Rightarrow> ledger_db result" where
  "restorePrepaidForExecutionContractRefundTx U g buyerID contractID currency db =
     (if contractID = uuid_Nil then Inl (Msg ''prepaid execution restore requires contract id'')
      else let debitRef = prepaidExecutionContractDebitRef U contractID in
      case find (has_ref KindPrepaidDebit debitRef) (ld_entries db) of
        None \<Rightarrow> Inr db
      | Some r \<Rightarrow>
          if - lr_amount r \<le> 0 then Inr db
          else restorePrepaidByDebitRefTx g buyerID currency debitRef (prepaidExecutionContractRestoreRef U contractID)
            (word_of_int (- lr_amount r)) db)"

definition restorePrepaidForSLAPremiumRefundTx ::
    "(uuid \<Rightarrow> string) \<Rightarrow> settlement \<Rightarrow> uuid \<Rightarrow> uuid \<Rightarrow> string \<Rightarrow> int64 \<Rightarrow> ledger_db \<Rightarrow> ledger_db result" where
  "restorePrepaidForSLAPremiumRefundTx U g buyerID jobID currency refundMicros db =
     (if jobID = uuid_Nil \<or> refundMicros \<le>s 0 then Inr db
      else case find (has_ref KindPrepaidDebit (prepaidSLAPremiumDebitRef U jobID)) (ld_entries db) of
        None \<Rightarrow> Inr db
      | Some r \<Rightarrow>
          if - lr_amount r \<le> 0 then Inr db
          else bind_result (ParseCurrency currency) (\<lambda>cur.
          if lr_currency r \<noteq> Currency_Code cur \<or> \<not> sameOptionalUUID (lr_buyer r) (Some buyerID)
          then Inl (Msg ''prepaid SLA restore debit identity mismatch'')
          else let restore = (if - lr_amount r < sint refundMicros then word_of_int (- lr_amount r) else refundMicros) in
            receipt_and_credit (insertLedgerEntryIfAbsentByRefTx g
              (prepaid_entry KindPrepaidBalanceReturn buyerID restore (Currency_Code cur) (prepaidSLAPremiumRestoreRef U jobID)) db)
              buyerID restore (Currency_Code cur)))"

definition on_task :: "string \<Rightarrow> uuid \<Rightarrow> ledger_row \<Rightarrow> bool" where
  "on_task kind tskID r \<longleftrightarrow> lr_kind r = kind \<and> lr_task r = Some tskID"

definition net_spent :: "ledger_db \<Rightarrow> uuid \<Rightarrow> string \<Rightarrow> int" where
  "net_spent db tskID currency =
     sum_list (map (\<lambda>r. - lr_amount r) (filter (\<lambda>r. lr_task r = Some tskID \<and>
       (lr_kind r = KindBuyerCharge \<or> lr_kind r = KindBuyerRefund) \<and> lr_currency r = currency) (ld_entries db)))"

definition restorePrepaidForTaskDebitTx ::
    "(uuid \<Rightarrow> string) \<Rightarrow> settlement \<Rightarrow> uuid \<Rightarrow> uuid \<Rightarrow> string \<Rightarrow> ledger_db \<Rightarrow> ledger_db result" where
  "restorePrepaidForTaskDebitTx U g buyerID tskID currency db =
     (if buyerID = uuid_Nil \<or> tskID = uuid_Nil then Inl (Msg ''prepaid task restore requires buyer and task'')
      else bind_result (ParseCurrency currency) (\<lambda>cur.
      case find (on_task KindPrepaidDebit tskID) (ld_entries db) of
        None \<Rightarrow> Inl (Msg ''prepaid task restore: no debit on task'')
      | Some r \<Rightarrow>
          if 0 \<le> lr_amount r then Inl (Msg ''prepaid task restore: debit has non-negative amount'')
          else if lr_currency r \<noteq> Currency_Code cur \<or> \<not> sameOptionalUUID (lr_buyer r) (Some buyerID)
          then Inl (Msg ''prepaid task restore debit identity mismatch'')
          else if net_spent db tskID (Currency_Code cur) \<noteq> 0
          then Inl (Msg ''prepaid task restore refused: task still has net spent'')
          else let restoreMicros = word_of_int (- lr_amount r) in
            receipt_and_credit (insertLedgerEntryOnTaskConflictDoNothingTx g
              ((prepaid_entry KindPrepaidRestore buyerID restoreMicros (Currency_Code cur) (prepaidTaskRestoreRef U tskID))
                \<lparr>li_TaskID := Some tskID\<rparr>) db)
              buyerID restoreMicros (Currency_Code cur)))"

text \<open>The debited tasks of a job whose refund equals the debit, in the order of their ids.\<close>

definition restorable_tasks :: "ledger_db \<Rightarrow> uuid \<Rightarrow> uuid list" where
  "restorable_tasks db jobID =
     sort [t. d \<leftarrow> ld_entries db, r \<leftarrow> ld_entries db, lr_kind d = KindPrepaidDebit, lr_kind r = KindBuyerRefund,
       t \<leftarrow> (case lr_task d of None \<Rightarrow> [] | Some t \<Rightarrow> [t]), lr_task r = Some t, map_of (ld_tasks db) t = Some jobID,
       - lr_amount d = lr_amount r]"

fun each_result :: "('a \<Rightarrow> 'db \<Rightarrow> 'db result) \<Rightarrow> 'a list \<Rightarrow> 'db \<Rightarrow> 'db result" where
  "each_result f [] db = Inr db"
| "each_result f (x # xs) db = bind_result (f x db) (each_result f xs)"

definition restorePrepaidForDisputeJobTasksTx ::
    "(uuid \<Rightarrow> string) \<Rightarrow> settlement \<Rightarrow> uuid \<Rightarrow> uuid \<Rightarrow> string \<Rightarrow> ledger_db \<Rightarrow> ledger_db result" where
  "restorePrepaidForDisputeJobTasksTx U g buyerID jobID currency db =
     (if buyerID = uuid_Nil \<or> jobID = uuid_Nil then Inl (Msg ''prepaid dispute restore requires buyer and job'')
      else each_result (\<lambda>tskID. restorePrepaidForTaskDebitTx U g buyerID tskID currency) (restorable_tasks db jobID) db)"

section \<open>Top-ups\<close>

record ChargeResult =
  cr_PaymentIntentID :: string
  cr_ChargeID :: string
  cr_Requested :: int64
  cr_Received :: int64
  cr_ChargeCurrency :: string

definition id_char :: "char \<Rightarrow> bool" where
  "id_char c = (let n = of_char c :: nat in (97 \<le> n \<and> n \<le> 122) \<or> (65 \<le> n \<and> n \<le> 90) \<or> (48 \<le> n \<and> n \<le> 57) \<or> n = 95 \<or> n = 45)"

definition validStripeObjectID :: "string \<Rightarrow> string \<Rightarrow> bool" where
  "validStripeObjectID value0 prefix0 =
     (let value = TrimSpace value0; prefix = TrimSpace prefix0 in
      if prefix = [] \<or> length value \<le> length prefix \<or> take (length prefix) value \<noteq> prefix then False
      else list_all id_char (drop (length prefix) value))"

definition validateChargeResultShape :: "ChargeResult \<Rightarrow> unit result" where
  "validateChargeResultShape charge =
     (if \<not> validStripeObjectID (cr_PaymentIntentID charge) ''pi_'' \<or> \<not> validStripeObjectID (cr_ChargeID charge) ''ch_'' \<or>
        cr_Requested charge \<le>s 0 \<or> cr_Received charge \<noteq> cr_Requested charge
      then Inl (Msg ''charge result has invalid Stripe identities or amount'')
      else case ParseCurrency (cr_ChargeCurrency charge) of
          Inl _ \<Rightarrow> Inl (Msg ''charge result has invalid settlement currency'') | Inr _ \<Rightarrow> Inr ())"

datatype topup_state = TopupArmed | TopupInFlight | TopupCredited

definition pending_topup :: "string \<Rightarrow> uuid \<Rightarrow> int64 \<Rightarrow> string \<Rightarrow> topup_op" where
  "pending_topup key buyer cents currency = \<lparr>tu_key = key, tu_buyer = buyer, tu_cents = cents, tu_currency = currency,
     tu_status = ''pending'', tu_intent = None, tu_charge = None\<rparr>"

definition BeginPrepaidTopup :: "settlement \<Rightarrow> string \<Rightarrow> uuid \<Rightarrow> int64 \<Rightarrow> ledger_db \<Rightarrow> (topup_state \<times> ledger_db) result" where
  "BeginPrepaidTopup g key0 buyerID amountCents db =
     (let operationKey = TrimSpace key0 in
      if operationKey = [] \<or> buyerID = uuid_Nil \<or> amountCents \<le>s 0 then Inl (Msg ''invalid prepaid top-up identity'')
      else let currency = SettlementCurrencyCode g in
      bind_result (ParseCurrency currency) (\<lambda>_.
      case find (\<lambda>op. tu_key op = operationKey) (ld_topups db) of
        None \<Rightarrow> Inr (TopupArmed, db\<lparr>ld_topups := ld_topups db @ [pending_topup operationKey buyerID amountCents currency]\<rparr>)
      | Some stored \<Rightarrow>
          if tu_buyer stored \<noteq> buyerID \<or> tu_cents stored \<noteq> amountCents \<or> tu_currency stored \<noteq> currency
          then Inl (Sentinel ''errPrepaidTopupConflict'')
          else Inr (if tu_status stored = ''succeeded'' then TopupCredited else TopupInFlight, db)))"

text \<open>The cash collection of a charge: inserted if its intent is new, then read back and compared.\<close>

definition record_collection :: "uuid \<Rightarrow> ChargeResult \<Rightarrow> string \<Rightarrow> ledger_db \<Rightarrow> ledger_db result" where
  "record_collection buyerID charge currency db =
     (let new = \<lparr>cc_intent = cr_PaymentIntentID charge, cc_charge = cr_ChargeID charge, cc_buyer = buyerID, cc_source = ''topup'',
          cc_requested = cr_Requested charge, cc_received = cr_Received charge, cc_currency = currency\<rparr> in
      case find (\<lambda>c. cc_intent c = cr_PaymentIntentID charge) (ld_collections db) of
        Some c \<Rightarrow> if c \<noteq> new then Inl (Msg ''conflicts with its durable cash collection binding'') else Inr db
      | None \<Rightarrow>
          if list_ex (\<lambda>c. cc_charge c = cr_ChargeID charge) (ld_collections db) then Inl errUniqueViolation
          else Inr (db\<lparr>ld_collections := ld_collections db @ [new]\<rparr>))"

definition complete_op :: "string \<Rightarrow> string \<Rightarrow> string \<Rightarrow> topup_op \<Rightarrow> topup_op" where
  "complete_op key intent charge op = (if tu_key op = key \<and> tu_status op = ''pending''
     then op\<lparr>tu_status := ''succeeded'', tu_intent := Some intent, tu_charge := Some charge\<rparr> else op)"

definition complete_topup :: "string \<Rightarrow> ChargeResult \<Rightarrow> ledger_db \<Rightarrow> ledger_db result" where
  "complete_topup operationKey charge db =
     (if list_ex (\<lambda>op. tu_key op \<noteq> operationKey \<and> tu_intent op = Some (cr_PaymentIntentID charge)) (ld_topups db)
      then Inl errUniqueViolation
      else Inr (db\<lparr>ld_topups := map (complete_op operationKey (cr_PaymentIntentID charge) (cr_ChargeID charge)) (ld_topups db)\<rparr>))"

text \<open>
  The credit. \<^verbatim>\<open>bind_cash\<close> is \<^verbatim>\<open>bindStripeCashStateToCollection\<close>, which writes the tables of Stripe cash
  events only. The compare-and-swap of the last update cannot miss under the row lock.
\<close>

definition credit_pending ::
    "(ChargeResult \<Rightarrow> string \<Rightarrow> unit result) \<Rightarrow> settlement \<Rightarrow> string \<Rightarrow> uuid \<Rightarrow> ChargeResult \<Rightarrow> Currency \<Rightarrow> ledger_db \<Rightarrow> ledger_db result" where
  "credit_pending bind_cash g operationKey buyerID charge settle db =
     bind_result (record_collection buyerID charge (Currency_Code settle) db) (\<lambda>db1.
     bind_result (bind_cash charge (Currency_Code settle)) (\<lambda>_.
     bind_result (MinorToMicros settle (cr_Received charge)) (\<lambda>micros.
     bind_result (upsert_balance (buyerID, Currency_Code settle) micros db1) (\<lambda>db2.
     bind_result (insertLedgerEntryIfAbsentByRefTx g
       (prepaid_entry KindPrepaidTopup buyerID micros (Currency_Code settle) (cr_PaymentIntentID charge)) db2) (\<lambda>(_, db3).
     complete_topup operationKey charge db3)))))"

definition CreditPrepaidTopup ::
    "(ChargeResult \<Rightarrow> string \<Rightarrow> unit result) \<Rightarrow> settlement \<Rightarrow> string \<Rightarrow> uuid \<Rightarrow> ChargeResult \<Rightarrow> ledger_db \<Rightarrow> ledger_db result" where
  "CreditPrepaidTopup bind_cash g key0 buyerID charge db =
     (let operationKey = TrimSpace key0 in
      if operationKey = [] \<or> buyerID = uuid_Nil then Inl (Msg ''invalid prepaid top-up credit'')
      else bind_result (wrap_result ''invalid prepaid top-up credit'' (validateChargeResultShape charge)) (\<lambda>_.
      bind_result (wrap_result ''invalid prepaid top-up credit currency'' (ParseCurrency (cr_ChargeCurrency charge))) (\<lambda>chargeCurrency.
      let new = pending_topup operationKey buyerID (cr_Received charge) (Currency_Code chargeCurrency);
          (stored, db0) = (case find (\<lambda>op. tu_key op = operationKey) (ld_topups db) of
             Some op \<Rightarrow> (op, db) | None \<Rightarrow> (new, db\<lparr>ld_topups := ld_topups db @ [new]\<rparr>))
      in if tu_buyer stored \<noteq> buyerID then Inl (Msg ''top-up buyer mismatch'')
      else if tu_cents stored \<noteq> cr_Received charge then Inl (Msg ''top-up amount mismatch'')
      else bind_result (wrap_result ''top-up has invalid stored currency'' (ParseCurrency (tu_currency stored))) (\<lambda>settle.
      if Currency_Code chargeCurrency \<noteq> Currency_Code settle then Inl (Msg ''top-up currency mismatch'')
      else if tu_status stored = ''succeeded'' then
        (if tu_intent stored \<noteq> Some (cr_PaymentIntentID charge) \<or> tu_charge stored \<noteq> Some (cr_ChargeID charge)
         then Inl (Msg ''top-up has a conflicting completed provider identity'')
         else bind_result (wrap_result ''cannot bind prior Stripe cash state'' (bind_cash charge (Currency_Code settle))) (\<lambda>_. Inr db0))
      else if tu_status stored \<noteq> ''pending'' then Inl (Msg ''top-up cannot credit'')
      else credit_pending bind_cash g operationKey buyerID charge settle db0))))"

section \<open>Refunds\<close>

record prepaidRefundSlice =
  rs_OperationKey :: string
  rs_PaymentIntent :: string
  rs_Cents :: int64
  rs_Currency :: string
  rs_RefundID :: string
  rs_Status :: string

record prepaidRefundPlan =
  rp_OperationKey :: string
  rp_Currency :: string
  rp_Cents :: int64
  rp_Slices :: "prepaidRefundSlice list"
  rp_Replayed :: bool

definition prepaidRefundOperationKey :: "(uuid \<Rightarrow> string) \<Rightarrow> uuid \<Rightarrow> string \<Rightarrow> string" where
  "prepaidRefundOperationKey U buyerID ref = ''prepaid-refund-'' @ U buyerID @ ''-'' @ TrimSpace ref"

definition refunded_cents :: "refund_op list \<Rightarrow> string \<Rightarrow> string \<Rightarrow> int" where
  "refunded_cents ops intent currency =
     sum_list (map (\<lambda>op. sint (ro_cents op)) (filter (\<lambda>op. ro_intent op = intent \<and> ro_currency op = currency \<and>
       (ro_status op = ''pending'' \<or> ro_status op = ''succeeded'')) ops))"

text \<open>The funded intents of a buyer with what is left of each; \<^verbatim>\<open>by_credit\<close> is the order the query asks for.\<close>

definition refundable_rows :: "(topup_op list \<Rightarrow> topup_op list) \<Rightarrow> uuid \<Rightarrow> string \<Rightarrow> ledger_db \<Rightarrow> (string \<times> int) list" where
  "refundable_rows by_credit buyerID currency db =
     [(intent, sint (tu_cents op) - refunded_cents (ld_refunds db) intent currency).
        op \<leftarrow> by_credit (filter (\<lambda>op. tu_buyer op = buyerID \<and> tu_currency op = currency \<and> tu_status op = ''succeeded'') (ld_topups db)),
        intent \<leftarrow> (case tu_intent op of None \<Rightarrow> [] | Some i \<Rightarrow> [i])]"

fun plan_slices :: "string \<Rightarrow> string \<Rightarrow> (string \<times> int) list \<Rightarrow> int64 \<Rightarrow> (prepaidRefundSlice list \<times> int64) result" where
  "plan_slices operationKey currency [] remaining = Inr ([], remaining)"
| "plan_slices operationKey currency ((intent, left) # rows) remaining =
     bind_result (sql_bigint left) (\<lambda>refundable.
     if remaining \<le>s 0 \<or> refundable \<le>s 0 then plan_slices operationKey currency rows remaining
     else let tk = (if remaining <s refundable then remaining else refundable) in
       bind_result (plan_slices operationKey currency rows (remaining - tk)) (\<lambda>(slices, rest).
         Inr (\<lparr>rs_OperationKey = operationKey @ ''-'' @ intent, rs_PaymentIntent = intent, rs_Cents = tk, rs_Currency = currency,
           rs_RefundID = [], rs_Status = ''pending''\<rparr> # slices, rest)))"

definition planPrepaidRefundSlicesTx ::
    "(topup_op list \<Rightarrow> topup_op list) \<Rightarrow> string \<Rightarrow> uuid \<Rightarrow> string \<Rightarrow> int64 \<Rightarrow> ledger_db \<Rightarrow> prepaidRefundSlice list result" where
  "planPrepaidRefundSlicesTx by_credit operationKey buyerID currency cents db =
     bind_result (plan_slices operationKey currency (refundable_rows by_credit buyerID currency db) cents) (\<lambda>(slices, remaining).
       if 0 <s remaining then Inl (Msg ''refund would exceed funded value'') else Inr slices)"

definition insert_refund_slice :: "string \<Rightarrow> uuid \<Rightarrow> prepaidRefundSlice \<Rightarrow> ledger_db \<Rightarrow> ledger_db result" where
  "insert_refund_slice operationKey buyerID sl db =
     (if rs_Cents sl \<le>s 0 then Inl errCheckViolation
      else if list_ex (\<lambda>op. ro_key op = rs_OperationKey sl) (ld_refunds db) then Inl errUniqueViolation
      else Inr (db\<lparr>ld_refunds := ld_refunds db @ [\<lparr>ro_key = rs_OperationKey sl, ro_refund = operationKey, ro_buyer = buyerID,
        ro_cents = rs_Cents sl, ro_currency = rs_Currency sl, ro_status = ''pending'', ro_intent = rs_PaymentIntent sl,
        ro_stripe = None\<rparr>]\<rparr>))"

text \<open>The scan of \<^verbatim>\<open>prepaidRefundSlicesTx\<close>: the cents and currency of the slices read so far.\<close>

fun replay_slices :: "refund_op list \<Rightarrow> int64 \<Rightarrow> string \<Rightarrow> (prepaidRefundSlice list \<times> int64 \<times> string) result" where
  "replay_slices [] cents currency = Inr ([], cents, currency)"
| "replay_slices (op # ops) cents currency =
     (if ro_status op = ''failed'' then Inl (Msg ''prepaid refund has a failed slice'')
      else if ro_status op \<noteq> ''pending'' \<and> ro_status op \<noteq> ''succeeded'' then Inl (Msg ''unsupported slice status'')
      else if currency \<noteq> [] \<and> currency \<noteq> ro_currency op then Inl (Msg ''prepaid refund mixes currencies'')
      else bind_result (replay_slices ops (cents + ro_cents op) (ro_currency op)) (\<lambda>(slices, t, c).
        Inr (\<lparr>rs_OperationKey = ro_key op, rs_PaymentIntent = ro_intent op, rs_Cents = ro_cents op, rs_Currency = ro_currency op,
          rs_RefundID = (case ro_stripe op of None \<Rightarrow> [] | Some i \<Rightarrow> i), rs_Status = ro_status op\<rparr> # slices, t, c)))"

definition prepaidRefundSlicesTx ::
    "(refund_op list \<Rightarrow> refund_op list) \<Rightarrow> string \<Rightarrow> ledger_db \<Rightarrow> (prepaidRefundSlice list \<times> int64 \<times> string) result" where
  "prepaidRefundSlicesTx by_key operationKey db =
     bind_result (replay_slices (by_key (filter (\<lambda>op. ro_refund op = operationKey) (ld_refunds db))) 0 []) (\<lambda>(slices, cents, currency).
       if slices = [] \<or> currency = [] then Inl (Msg ''prepaid refund has no durable slices'')
       else bind_result (ParseCurrency currency) (\<lambda>_. Inr (slices, cents, currency)))"

text \<open>
  \<^verbatim>\<open>BeginPrepaidRefund\<close> after the administrative checks: \<^verbatim>\<open>ref\<close> is the correlation reference,
  \<^verbatim>\<open>request\<close> the digest of the intent and \<^verbatim>\<open>actor\<close> the identity of the operator. \<^verbatim>\<open>reserved\<close> and
  \<^verbatim>\<open>executingHold\<close> are the open exposure of the buyer, which the queries of \<^verbatim>\<open>buyer_open_exposure.go\<close>
  read from other tables.
\<close>

definition refund_commit ::
    "(uuid \<Rightarrow> string) \<Rightarrow> (topup_op list \<Rightarrow> topup_op list) \<Rightarrow> settlement \<Rightarrow> Currency \<Rightarrow> int64 \<Rightarrow> string \<times> string \<Rightarrow> uuid \<Rightarrow> string \<Rightarrow>
     ledger_db \<Rightarrow> (prepaidRefundPlan \<times> ledger_db) result" where
  "refund_commit U by_credit g settle cents audit buyerID ref db =
     (let operationKey = prepaidRefundOperationKey U buyerID ref; currency = Currency_Code settle; k = (buyerID, currency) in
      bind_result (MinorToMicros settle cents) (\<lambda>refundMicros.
      bind_result (planPrepaidRefundSlicesTx by_credit operationKey buyerID currency cents db) (\<lambda>slices.
      bind_result (debit_balance k refundMicros db) (\<lambda>(n, db1).
      if n \<noteq> 1 then Inl errInsufficientPrepaid
      else bind_result (insertLedgerEntryIfAbsentByRefTx g
        (prepaid_entry KindPrepaidRefund buyerID (- refundMicros) currency operationKey) db1) (\<lambda>(_, db2).
      bind_result (each_result (insert_refund_slice operationKey buyerID) slices db2) (\<lambda>db3.
        Inr (\<lparr>rp_OperationKey = operationKey, rp_Currency = currency, rp_Cents = cents, rp_Slices = slices, rp_Replayed = False\<rparr>,
          db3\<lparr>ld_admin := ld_admin db3 @ [(ref, audit)]\<rparr>)))))))"

definition refund_new ::
    "(uuid \<Rightarrow> string) \<Rightarrow> (topup_op list \<Rightarrow> topup_op list) \<Rightarrow> settlement \<Rightarrow> int64 \<Rightarrow> int64 \<Rightarrow> string \<Rightarrow> string \<Rightarrow> uuid \<Rightarrow> string \<Rightarrow>
     ledger_db \<Rightarrow> (prepaidRefundPlan \<times> ledger_db) result" where
  "refund_new U by_credit g reserved executingHold request actor buyerID ref db =
     bind_result (SettlementCurrency g) (\<lambda>settle. let k = (buyerID, Currency_Code settle); db1 = ensure_balance k db in
     case balance_of db1 k of None \<Rightarrow> Inl errNoRows | Some bal \<Rightarrow>
       let available = bal - reserved - executingHold in
       if available \<le>s 0 then Inl errInsufficientPrepaid
       else bind_result (MicrosPerMinorUnit settle) (\<lambda>microsPerMinor. let cents = go_div available microsPerMinor in
         if cents \<le>s 0 then Inl (Msg ''below one minor unit and cannot be refunded via card rails'')
         else refund_commit U by_credit g settle cents (request, actor) buyerID ref db1))"

definition BeginPrepaidRefund ::
    "(uuid \<Rightarrow> string) \<Rightarrow> (topup_op list \<Rightarrow> topup_op list) \<Rightarrow> (refund_op list \<Rightarrow> refund_op list) \<Rightarrow> settlement \<Rightarrow> int64 \<Rightarrow> int64 \<Rightarrow>
     string \<Rightarrow> string \<Rightarrow> uuid \<Rightarrow> string \<Rightarrow> ledger_db \<Rightarrow> (prepaidRefundPlan \<times> ledger_db) result" where
  "BeginPrepaidRefund U by_credit by_key g reserved executingHold request actor buyerID ref0 db =
     (let ref = TrimSpace ref0 in
      case map_of (ld_admin db) ref of
        Some (storedRequest, storedActor) \<Rightarrow>
          if storedRequest \<noteq> request \<or> storedActor \<noteq> actor
          then Inl (Wrap ''incident or ticket reference already belongs to another privileged request'' (Sentinel ''errAdminMutationInvalid''))
          else bind_result (prepaidRefundSlicesTx by_key (prepaidRefundOperationKey U buyerID ref) db) (\<lambda>(slices, cents, currency).
            Inr (\<lparr>rp_OperationKey = prepaidRefundOperationKey U buyerID ref, rp_Currency = currency, rp_Cents = cents,
              rp_Slices = slices, rp_Replayed = True\<rparr>, db))
      | None \<Rightarrow> refund_new U by_credit g reserved executingHold request actor buyerID ref db)"

definition prepaidRefundFailureRef :: "string \<Rightarrow> string" where
  "prepaidRefundFailureRef operationKey = ''prepaid-refund-failed-'' @ TrimSpace operationKey"

definition set_refund :: "(refund_op \<Rightarrow> bool) \<Rightarrow> (refund_op \<Rightarrow> refund_op) \<Rightarrow> ledger_db \<Rightarrow> nat \<times> ledger_db" where
  "set_refund cond upd db =
     (length (filter cond (ld_refunds db)), db\<lparr>ld_refunds := map (\<lambda>r. if cond r then upd r else r) (ld_refunds db)\<rparr>)"

definition bind_refund_id :: "string \<Rightarrow> string \<Rightarrow> refund_op \<Rightarrow> bool" where
  "bind_refund_id operationKey refundID r \<longleftrightarrow> ro_key r = operationKey \<and> ro_status r = ''pending'' \<and>
     (ro_stripe r = None \<or> ro_stripe r = Some refundID)"

definition refund_id_taken :: "string \<Rightarrow> string \<Rightarrow> ledger_db \<Rightarrow> bool" where
  "refund_id_taken operationKey refundID db \<longleftrightarrow>
     list_ex (\<lambda>r. ro_key r \<noteq> operationKey \<and> ro_stripe r = Some refundID) (ld_refunds db)"

definition RecordPrepaidRefundProviderID :: "string \<Rightarrow> string \<Rightarrow> string \<Rightarrow> ledger_db \<Rightarrow> ledger_db result" where
  "RecordPrepaidRefundProviderID key0 intent0 id0 db =
     (let operationKey = TrimSpace key0; paymentIntent = TrimSpace intent0; refundID = TrimSpace id0 in
      if operationKey = [] \<or> \<not> validStripeObjectID paymentIntent ''pi_'' \<or> \<not> validStripeObjectID refundID ''re_''
      then Inl (Msg ''prepaid refund provider binding has invalid identity'')
      else let cond = (\<lambda>r. bind_refund_id operationKey refundID r \<and> ro_intent r = paymentIntent);
               (n, db') = set_refund cond (\<lambda>r. r\<lparr>ro_stripe := Some refundID\<rparr>) db in
      if 0 < n \<and> refund_id_taken operationKey refundID db then Inl errUniqueViolation
      else if n = 1 then Inr db'
      else case find (\<lambda>r. ro_key r = operationKey) (ld_refunds db) of
          None \<Rightarrow> Inl (Msg ''prepaid refund slice is missing'')
        | Some r \<Rightarrow>
            if ro_intent r \<noteq> paymentIntent \<or> ro_stripe r \<noteq> Some refundID \<or> (ro_status r \<noteq> ''pending'' \<and> ro_status r \<noteq> ''succeeded'')
            then Inl (Msg ''prepaid refund slice has a conflicting provider binding'') else Inr db)"

definition FailPrepaidRefund :: "settlement \<Rightarrow> prepaidRefundSlice \<Rightarrow> ledger_db \<Rightarrow> ledger_db result" where
  "FailPrepaidRefund g sl db =
     (let operationKey = TrimSpace (rs_OperationKey sl); refundID = TrimSpace (rs_RefundID sl) in
      if operationKey = [] \<or> \<not> validStripeObjectID refundID ''re_''
      then Inl (Msg ''failed prepaid refund requires an operation and provider refund id'')
      else case find (\<lambda>r. ro_key r = operationKey) (ld_refunds db) of
        None \<Rightarrow> Inl (Msg ''prepaid refund slice is missing'')
      | Some r \<Rightarrow>
          let identityMatches = (ro_stripe r = Some refundID \<and> ro_intent r = rs_PaymentIntent sl \<and> ro_cents r = rs_Cents sl \<and>
            ro_currency r = rs_Currency sl) in
          if ro_status r = ''failed'' then
            (if \<not> identityMatches then Inl (Msg ''conflicting failure identity'') else Inr db)
          else if ro_status r = ''succeeded'' then Inl (Msg ''prepaid refund slice already succeeded'')
          else if ro_status r \<noteq> ''pending'' \<or> \<not> identityMatches then Inl (Msg ''conflicting failure identity'')
          else bind_result (ParseCurrency (ro_currency r)) (\<lambda>settle.
          bind_result (MinorToMicros settle (ro_cents r)) (\<lambda>refundMicros.
          bind_result (receipt_and_credit (insertLedgerEntryIfAbsentByRefTx g
              (prepaid_entry KindPrepaidBalanceReturn (ro_buyer r) refundMicros (ro_currency r) (prepaidRefundFailureRef operationKey)) db)
            (ro_buyer r) refundMicros (ro_currency r)) (\<lambda>db1.
          case set_refund (\<lambda>r. ro_key r = operationKey \<and> ro_status r = ''pending'' \<and> ro_stripe r = Some refundID)
              (\<lambda>r. r\<lparr>ro_status := ''failed''\<rparr>) db1 of
            (n, db2) \<Rightarrow> if n \<noteq> 1 then Inl (Msg ''failed status CAS'') else Inr db2))))"

text \<open>The completion loop runs outside a transaction: what it did before an error stays.\<close>

fun CompletePrepaidRefund :: "prepaidRefundSlice list \<Rightarrow> ledger_db \<Rightarrow> unit result \<times> ledger_db" where
  "CompletePrepaidRefund [] db = (Inr (), db)"
| "CompletePrepaidRefund (sl # slices) db =
     (if \<not> validStripeObjectID (rs_RefundID sl) ''re_'' then (Inl (Msg ''prepaid refund has no provider refund id''), db)
      else case set_refund (bind_refund_id (rs_OperationKey sl) (rs_RefundID sl))
          (\<lambda>r. r\<lparr>ro_status := ''succeeded'', ro_stripe := Some (rs_RefundID sl)\<rparr>) db of
        (n, db') \<Rightarrow>
          if 0 < n \<and> refund_id_taken (rs_OperationKey sl) (rs_RefundID sl) db then (Inl errUniqueViolation, db)
          else if n = 1 then CompletePrepaidRefund slices db'
          else case find (\<lambda>r. ro_key r = rs_OperationKey sl) (ld_refunds db) of
              None \<Rightarrow> (Inl errNoRows, db)
            | Some r \<Rightarrow>
                if ro_status r \<noteq> ''succeeded'' \<or> ro_stripe r \<noteq> Some (TrimSpace (rs_RefundID sl))
                then (Inl (Msg ''prepaid refund has a conflicting completion identity''), db)
                else CompletePrepaidRefund slices db)"

section \<open>The balance is the sum of the prepaid rows\<close>

definition prepaid_kinds :: "string list" where
  "prepaid_kinds = [KindPrepaidTopup, KindPrepaidDebit, KindPrepaidRestore, KindPrepaidBalanceReturn, KindPrepaidRefund]"

definition counts_for :: "uuid \<times> string \<Rightarrow> ledger_row \<Rightarrow> bool" where
  "counts_for k r \<longleftrightarrow> lr_kind r \<in> set prepaid_kinds \<and> lr_buyer r = Some (fst k) \<and> lr_currency r = snd k"

definition prepaid_sum :: "ledger_db \<Rightarrow> uuid \<times> string \<Rightarrow> int" where
  "prepaid_sum db k = sum_list (map lr_amount (filter (counts_for k) (ld_entries db)))"

definition held_balance :: "ledger_db \<Rightarrow> uuid \<times> string \<Rightarrow> int" where
  "held_balance db k = (case balance_of db k of None \<Rightarrow> 0 | Some b \<Rightarrow> sint b)"

definition prepaid_books :: "ledger_db \<Rightarrow> bool" where
  "prepaid_books db \<longleftrightarrow> (\<forall>k. held_balance db k = prepaid_sum db k)"

text \<open>The effect of a step on the tables: the balances it leaves and the rows it adds.\<close>

lemma prepaid_sum_add_row:
  "prepaid_sum (add_row r db) k = prepaid_sum db k + (if counts_for k r then lr_amount r else 0)"
  by (simp add: prepaid_sum_def add_row_def)

lemma held_add_row [simp]: "held_balance (add_row r db) = held_balance db" "balance_of (add_row r db) = balance_of db"
  by (simp_all add: fun_eq_iff held_balance_def balance_of_def add_row_def)

lemma held_cong: "ld_balances db' = ld_balances db \<Longrightarrow> held_balance db' = held_balance db"
  by (simp add: fun_eq_iff held_balance_def balance_of_def)

lemma prepaid_sum_cong: "ld_entries db' = ld_entries db \<Longrightarrow> prepaid_sum db' = prepaid_sum db"
  by (simp add: fun_eq_iff prepaid_sum_def)

lemma prepaid_books_cong:
  assumes "ld_entries db' = ld_entries db" "ld_balances db' = ld_balances db"
  shows "prepaid_books db' = prepaid_books db"
  unfolding prepaid_books_def held_cong [OF assms(2)] prepaid_sum_cong [OF assms(1)] by (rule refl)

lemma balance_of_set [simp]: "balance_of (set_balance k v db) k' = (if k' = k then Some v else balance_of db k')"
  by (simp add: balance_of_def set_balance_def update_conv')

lemma held_set: "held_balance (set_balance k v db) k' = (if k' = k then sint v else held_balance db k')"
  by (simp add: held_balance_def)

lemma balance_of_ensure: "balance_of (ensure_balance k db) k' = (if k' = k \<and> balance_of db k = None then Some 0 else balance_of db k')"
proof (cases "balance_of db k")
  case None
  then show ?thesis unfolding ensure_balance_def by (cases "k' = k") (simp_all add: balance_of_def map_add_def split: option.split)
next
  case (Some b)
  then show ?thesis unfolding ensure_balance_def by simp
qed

lemma held_ensure [simp]: "held_balance (ensure_balance k db) = held_balance db"
proof
  fix k'
  show "held_balance (ensure_balance k db) k' = held_balance db k'"
    unfolding held_balance_def balance_of_ensure by (cases "k' = k \<and> balance_of db k = None") auto
qed

lemma set_balance_only: "\<exists>bs. set_balance k v db = db\<lparr>ld_balances := bs\<rparr>"
  unfolding set_balance_def by (rule exI, rule refl)

lemma ensure_balance_only: "\<exists>bs. ensure_balance k db = db\<lparr>ld_balances := bs\<rparr>"
proof (cases "balance_of db k = None")
  case True
  then show ?thesis unfolding ensure_balance_def if_P [OF True] by (intro exI) (rule refl)
next
  case False
  then have "ensure_balance k db = db\<lparr>ld_balances := ld_balances db\<rparr>" unfolding ensure_balance_def by simp
  then show ?thesis by (rule exI)
qed

text \<open>A step that touches only the balances, and moves one of them by \<^verbatim>\<open>d\<close>.\<close>

definition moves :: "uuid \<times> string \<Rightarrow> int \<Rightarrow> ledger_db \<Rightarrow> ledger_db \<Rightarrow> bool" where
  "moves k d db db' \<longleftrightarrow> (\<exists>bs. db' = db\<lparr>ld_balances := bs\<rparr>) \<and> balance_of db' k \<noteq> None \<and>
     (\<forall>k'. held_balance db' k' = held_balance db k' + (if k' = k then d else 0))"

lemma moves_set: "balance_of db k = Some b \<Longrightarrow> sint v = sint b + d \<Longrightarrow> moves k d db (set_balance k v db)"
  using set_balance_only [of k v db] by (auto simp: moves_def held_set held_balance_def)

lemma moves_ensure: "moves k d (ensure_balance k db) db' \<Longrightarrow> moves k d db db'"
  using ensure_balance_only [of k db] by (auto simp: moves_def)

lemma debit_balance_moves:
  assumes "debit_balance k amount db = Inr (n, db')" "n = 1"
  shows "moves k (- sint amount) db db'"
  using assms by (auto simp: debit_balance_def split: option.splits if_splits intro!: moves_set)

lemma take_balance_moves:
  assumes "take_balance k amount db = Inr db'"
  shows "moves k (- sint amount) db db'"
proof -
  obtain n where "debit_balance k amount (ensure_balance k db) = Inr (n, db')" "n = 1"
    using assms by (auto simp: take_balance_def Let_def split: option.splits if_splits)
  then show ?thesis by (rule moves_ensure [OF debit_balance_moves])
qed

lemma add_balance_moves:
  assumes "add_balance k amount db = Inr db'" "balance_of db k \<noteq> None"
  shows "moves k (sint amount) db db'"
  using assms by (auto simp: add_balance_def split: option.splits if_splits intro!: moves_set)

lemma upsert_balance_moves:
  assumes "upsert_balance k amount db = Inr db'"
  shows "moves k (sint amount) db db'"
proof (cases "balance_of db k = None")
  case True
  then have db': "db' = db\<lparr>ld_balances := ld_balances db @ [(k, amount)]\<rparr>"
    using assms by (auto simp: upsert_balance_def split: if_splits)
  then have "balance_of db' k' = (if k' = k then Some amount else balance_of db k')" for k'
    using True by (auto simp: balance_of_def map_add_def split: option.splits)
  then show ?thesis using True db' by (auto simp: moves_def held_balance_def)
next
  case False
  then show ?thesis using assms by (auto simp: upsert_balance_def split: if_splits intro: add_balance_moves)
qed

text \<open>A move of the balance and a new row of the same amount keep the books.\<close>

lemma moves_sum: "moves k d db db' \<Longrightarrow> prepaid_sum db' = prepaid_sum db"
  by (auto simp: moves_def intro!: prepaid_sum_cong)

lemma moves_held: "moves k d db db' \<Longrightarrow> held_balance db' k' = held_balance db k' + (if k' = k then d else 0)"
  unfolding moves_def by blast

lemma moves_zero:
  assumes "moves k d db db1" "moves k (- d) db1 db'" "prepaid_books db"
  shows "prepaid_books db'"
  unfolding prepaid_books_def
proof
  fix k'
  show "held_balance db' k' = prepaid_sum db' k'"
    using moves_held [OF assms(1), of k'] moves_held [OF assms(2), of k'] moves_sum [OF assms(1)] moves_sum [OF assms(2)]
      assms(3) [unfolded prepaid_books_def, THEN spec, of k'] by (cases "k' = k") simp_all
qed

lemma moves_row_books:
  assumes "moves k d db db1" "prepaid_books db" "\<And>k'. counts_for k' r \<longleftrightarrow> k' = k" "lr_amount r = d"
  shows "prepaid_books (add_row r db1)"
  unfolding prepaid_books_def
proof
  fix k'
  have "held_balance (add_row r db1) k' = held_balance db k' + (if k' = k then d else 0)"
    using moves_held [OF assms(1), of k'] by (simp only: held_add_row)
  moreover have "prepaid_sum (add_row r db1) k' = prepaid_sum db k' + (if k' = k then d else 0)"
    using moves_sum [OF assms(1)] by (simp only: prepaid_sum_add_row assms(3,4))
  ultimately show "held_balance (add_row r db1) k' = prepaid_sum (add_row r db1) k'"
    using assms(2) [unfolded prepaid_books_def, THEN spec, of k'] by linarith
qed

lemma row_moves_books:
  assumes "moves k d (add_row r db) db'" "prepaid_books db" "\<And>k'. counts_for k' r \<longleftrightarrow> k' = k" "lr_amount r = d"
  shows "prepaid_books db'"
  unfolding prepaid_books_def
proof
  fix k'
  have "held_balance db' k' = held_balance db k' + (if k' = k then d else 0)"
    using moves_held [OF assms(1), of k'] by (simp only: held_add_row)
  moreover have "prepaid_sum db' k' = prepaid_sum db k' + (if k' = k then d else 0)"
    using moves_sum [OF assms(1)] by (simp only: prepaid_sum_add_row assms(3,4))
  ultimately show "held_balance db' k' = prepaid_sum db' k'"
    using assms(2) [unfolded prepaid_books_def, THEN spec, of k'] by linarith
qed

lemma ParseCurrency_valid: "ParseCurrency x = Inr cur \<Longrightarrow> Currency_Valid cur"
  by (simp add: ParseCurrency_Inr)

lemma valid_code: "Currency_Valid cur \<Longrightarrow> ParseCurrency (Currency_Code cur) = Inr cur"
  by (cases cur rule: Currency_Valid_cases) (simp_all add: ParseCurrency_def Currency_Code_def
    ToLower_def TrimSpace_def is_space_def lower_char_def Let_def supportedCurrencies_def)

lemma ParseCurrency_code: "ParseCurrency x = Inr cur \<Longrightarrow> ParseCurrency (Currency_Code cur) = Inr cur"
  by (rule valid_code [OF ParseCurrency_valid])

lemma resolve_currency:
  assumes "resolveLedgerInsert g e = Inr e'" "ParseCurrency (li_Currency e) = Inr cur"
  shows "li_Currency e' = Currency_Code cur"
proof -
  have ne: "TrimSpace (li_Currency e) \<noteq> []" using assms(2) ParseCurrency_only_space [of "li_Currency e"] by auto
  obtain got where "ParseCurrency (if TrimSpace (li_Currency e) = [] then SettlementCurrencyCode g else TrimSpace (li_Currency e)) = Inr got"
    and c: "citation_format (e\<lparr>li_Currency := Currency_Code got\<rparr>) = Inr e'"
    by (rule resolve_Inr [OF assms(1)])
  then have "got = cur" using ne assms(2) by (simp add: ParseCurrency_TrimSpace)
  then show ?thesis using arg_cong [OF citation_format_Inr [OF c], of li_Currency] by simp
qed

text \<open>What an accepted insert does: nothing, because of a row it names, or one row with the entry's values.\<close>

definition carries :: "ledgerInsert \<Rightarrow> Currency \<Rightarrow> ledger_row \<Rightarrow> bool" where
  "carries e cur r \<longleftrightarrow> lr_kind r = li_Kind e \<and> lr_buyer r = li_BuyerID e \<and> lr_supplier r = li_SupplierID e \<and> lr_task r = li_TaskID e \<and>
     lr_amount r = sint (li_AmountMicros e) \<and> lr_currency r = Currency_Code cur \<and> lr_ref r = nullif_empty (li_PayoutRef e) \<and>
     lr_status r = li_PayoutStatus e"

lemma resolve_carries:
  assumes "resolveLedgerInsert g e = Inr e'" "ParseCurrency (li_Currency e) = Inr cur"
  shows "carries e cur (row_of e')" "carries e cur ((row_of e')\<lparr>lr_contract := None\<rparr>)"
  using resolve_keeps [OF assms(1)] resolve_currency [OF assms] by (simp_all add: carries_def row_of_def)

lemma insert_ref_cases:
  assumes "insertLedgerEntryIfAbsentByRefTx g e db = Inr (n, db')" "ParseCurrency (li_Currency e) = Inr cur"
  obtains (old) r where "n = 0" "db' = db" "r \<in> set (ld_entries db)" "has_ref (li_Kind e) (li_PayoutRef e) r"
  | (new) r where "n = 1" "db' = add_row r db" "carries e cur r" "li_PayoutRef e \<noteq> []"
      "\<And>s. s \<in> set (ld_entries db) \<Longrightarrow> \<not> has_ref (li_Kind e) (li_PayoutRef e) s"
      "\<And>s. s \<in> set (ld_entries db) \<Longrightarrow> \<not> task_conflict r s \<and> \<not> other_conflict r s"
proof -
  obtain e' where e': "resolveLedgerInsert g e = Inr e'"
    and i: "(if li_PayoutRef e' = [] then Inl (Msg ''ledger insert by ref requires payout_ref'')
       else if list_ex (has_ref (li_Kind e') (li_PayoutRef e')) (ld_entries db) then Inr (0, db)
       else insert_row (row_of e') db) = Inr (n, db')"
    using assms(1) unfolding insertLedgerEntryIfAbsentByRefTx_def bind_result_eq_Inr by blast
  note keep = resolve_keeps [OF e']
  show ?thesis
  proof (cases "list_ex (has_ref (li_Kind e) (li_PayoutRef e)) (ld_entries db)")
    case True
    then have "n = 0" "db' = db" using i keep by (auto split: if_splits)
    then show ?thesis using True old by (auto simp: list_ex_iff)
  next
    case False
    then have "insert_row (row_of e') db = Inr (n, db')" "li_PayoutRef e \<noteq> []" using i keep by (auto split: if_splits)
    then show ?thesis using False new [of "row_of e'"] resolve_carries(1) [OF e' assms(2)]
      by (auto simp: insert_row_def list_ex_iff split: if_splits)
  qed
qed

lemma insert_task_cases:
  assumes "insertLedgerEntryOnTaskConflictDoNothingTx g e db = Inr (n, db')" "ParseCurrency (li_Currency e) = Inr cur"
  obtains (old) r where "n = 0" "db' = db" "r \<in> set (ld_entries db)" "lr_kind r = li_Kind e" "same_key (li_TaskID e) (lr_task r)"
  | (new) r where "n = 1" "db' = add_row r db" "carries e cur r"
      "\<And>s. s \<in> set (ld_entries db) \<Longrightarrow> \<not> task_conflict r s \<and> \<not> other_conflict r s"
proof -
  obtain e' where e': "resolveLedgerInsert g e = Inr e'"
    and i: "insert_row_or_nothing ((row_of e')\<lparr>lr_contract := None\<rparr>) db = Inr (n, db')"
    using assms(1) unfolding insertLedgerEntryOnTaskConflictDoNothingTx_def bind_result_eq_Inr by blast
  let ?r = "(row_of e')\<lparr>lr_contract := None\<rparr>"
  have c: "carries e cur ?r" by (rule resolve_carries(2) [OF e' assms(2)])
  show ?thesis
  proof (cases "list_ex (task_conflict ?r) (ld_entries db)")
    case True
    then obtain s where "s \<in> set (ld_entries db)" "task_conflict ?r s" by (auto simp: list_ex_iff)
    moreover have "n = 0" "db' = db" using i True by (auto simp: insert_row_or_nothing_def split: if_splits)
    ultimately show ?thesis using old [of s] c by (simp add: task_conflict_def carries_def)
  next
    case False
    then show ?thesis using i new [of ?r] c by (auto simp: insert_row_or_nothing_def list_ex_iff split: if_splits)
  qed
qed

lemma carries_prepaid:
  assumes "carries (prepaid_entry kind buyer amount code ref) cur r \<or>
      carries ((prepaid_entry kind buyer amount code ref)\<lparr>li_TaskID := t\<rparr>) cur r" "kind \<in> set prepaid_kinds"
  shows "counts_for k r \<longleftrightarrow> k = (buyer, Currency_Code cur)" "lr_amount r = sint amount"
  using assms by (auto simp: carries_def prepaid_entry_def ledger_literal_def counts_for_def prod_eq_iff)

lemma sint_neg_positive: "0 <s a \<Longrightarrow> sint (- a :: int64) = - sint a"
  using sint64_bounds [of a] by (simp add: sless64 sint64_uminus wrap64_id in64_def)

text \<open>
  Debits, restores and failed refunds: they leave the operation tables alone, add rows of other
  kinds than top-ups and refunds, and keep the books.
\<close>

definition books_step :: "ledger_db \<Rightarrow> ledger_db \<Rightarrow> bool" where
  "books_step db db' \<longleftrightarrow> ld_topups db' = ld_topups db \<and> ld_refunds db' = ld_refunds db \<and> ld_admin db' = ld_admin db \<and>
     (prepaid_books db \<longrightarrow> prepaid_books db') \<and>
     (\<forall>r \<in> set (ld_entries db'). r \<in> set (ld_entries db) \<or> lr_kind r \<noteq> KindPrepaidTopup \<and> lr_kind r \<noteq> KindPrepaidRefund)"

lemma books_step_refl: "books_step db db"
  by (simp add: books_step_def)

lemma books_step_trans: "books_step a b \<Longrightarrow> books_step b c \<Longrightarrow> books_step a c"
  unfolding books_step_def by (elim conjE, intro conjI) (simp_all, blast+)

lemma moves_tables:
  assumes "moves k d db db'"
  shows "ld_entries db' = ld_entries db" "ld_topups db' = ld_topups db" "ld_refunds db' = ld_refunds db" "ld_admin db' = ld_admin db"
    "balance_of db' k \<noteq> None"
  using assms by (auto simp: moves_def)

lemma add_row_tables [simp]:
  "ld_entries (add_row r db) = ld_entries db @ [r]" "ld_topups (add_row r db) = ld_topups db"
  "ld_refunds (add_row r db) = ld_refunds db" "ld_admin (add_row r db) = ld_admin db"
  by (simp_all add: add_row_def)

lemma moves_row_step:
  assumes "moves k d db db1" "\<And>k'. counts_for k' r \<longleftrightarrow> k' = k" "lr_amount r = d"
    "lr_kind r \<noteq> KindPrepaidTopup" "lr_kind r \<noteq> KindPrepaidRefund"
  shows "books_step db (add_row r db1)"
  using moves_tables [OF assms(1)] moves_row_books [OF assms(1) _ assms(2,3)] assms(4,5) by (simp add: books_step_def)

lemma row_moves_step:
  assumes "moves k d (add_row r db) db'" "\<And>k'. counts_for k' r \<longleftrightarrow> k' = k" "lr_amount r = d"
    "lr_kind r \<noteq> KindPrepaidTopup" "lr_kind r \<noteq> KindPrepaidRefund"
  shows "books_step db db'"
  using moves_tables [OF assms(1)] row_moves_books [OF assms(1) _ assms(2,3)] assms(4,5) by (simp add: books_step_def)

lemma moves_back_step: "moves k d db db1 \<Longrightarrow> moves k (- d) db1 db' \<Longrightarrow> books_step db db'"
  using moves_tables [of k d db db1] moves_tables [of k "- d" db1 db'] moves_zero [of k d db db1 db'] by (simp add: books_step_def)

lemma insert_effects:
  assumes "insertLedgerEntryIfAbsentByRefTx g e db = Inr (n, db') \<or> insertLedgerEntryOnTaskConflictDoNothingTx g e db = Inr (n, db')"
    and "ParseCurrency (li_Currency e) = Inr cur"
  shows "n = 0 \<and> db' = db \<or> (\<exists>r. n = 1 \<and> db' = add_row r db \<and> carries e cur r)"
  using assms(1)
proof
  assume "insertLedgerEntryIfAbsentByRefTx g e db = Inr (n, db')"
  then show ?thesis using assms(2) by (rule insert_ref_cases) blast+
next
  assume "insertLedgerEntryOnTaskConflictDoNothingTx g e db = Inr (n, db')"
  then show ?thesis using assms(2) by (rule insert_task_cases) blast+
qed

text \<open>A debit: the balance is taken, then the row inserted, or the balance given back for a row that is there.\<close>

lemma debit_step:
  assumes take: "take_balance (buyer, Currency_Code cur) amount db = Inr db1" and pos: "0 <s amount"
    and ins: "insertLedgerEntryIfAbsentByRefTx g e db1 = Inr (n, db2) \<or> insertLedgerEntryOnTaskConflictDoNothingTx g e db1 = Inr (n, db2)"
    and e: "e = (prepaid_entry KindPrepaidDebit buyer (- amount) (Currency_Code cur) ref)\<lparr>li_TaskID := t\<rparr>"
    and cur: "ParseCurrency (Currency_Code cur) = Inr cur"
    and last: "(if n = 0 then add_balance (buyer, Currency_Code cur) amount db2 else Inr db2) = Inr db'"
  shows "books_step db db'"
proof -
  let ?k = "(buyer, Currency_Code cur)"
  note m = take_balance_moves [OF take]
  have cur': "ParseCurrency (li_Currency e) = Inr cur" using cur by (simp add: e prepaid_entry_def ledger_literal_def)
  have "n = 0 \<and> db2 = db1 \<or> (\<exists>r. n = 1 \<and> db2 = add_row r db1 \<and> carries e cur r)"
    by (rule insert_effects [OF ins cur'])
  then show ?thesis
  proof (elim disjE conjE exE)
    assume "n = 0" "db2 = db1"
    then have "add_balance ?k amount db1 = Inr db'" using last by simp
    then have "moves ?k (sint amount) db1 db'" by (rule add_balance_moves) (rule moves_tables(5) [OF m])
    then show ?thesis using moves_back_step [OF m] by simp
  next
    fix r assume r: "n = 1" "db2 = add_row r db1" "carries e cur r"
    have "counts_for k' r \<longleftrightarrow> k' = ?k" "lr_amount r = - sint amount" for k'
      using carries_prepaid [where t = t, OF disjI2, OF r(3) [unfolded e]] sint_neg_positive [OF pos] by (simp_all add: prepaid_kinds_def)
    moreover have "lr_kind r = KindPrepaidDebit" using r(3) by (simp add: carries_def e prepaid_entry_def ledger_literal_def)
    ultimately show ?thesis using r last moves_row_step [OF m, of r] by (simp add: kind_defs)
  qed
qed

lemma credit_balance_moves:
  assumes "creditPrepaidBalanceTx buyer micros currency db = Inr db'" "ParseCurrency currency = Inr cur"
  shows "moves (buyer, Currency_Code cur) (sint micros) db db'"
  using assms by (auto simp: creditPrepaidBalanceTx_def split: if_splits intro: upsert_balance_moves)

lemma restore_step:
  assumes run: "receipt_and_credit (ins0 g e db) buyer micros currency = Inr db'"
    and ins: "ins0 = insertLedgerEntryIfAbsentByRefTx \<or> ins0 = insertLedgerEntryOnTaskConflictDoNothingTx"
    and e: "e = (prepaid_entry kind buyer micros currency ref)\<lparr>li_TaskID := t\<rparr>"
    and kind: "kind = KindPrepaidRestore \<or> kind = KindPrepaidBalanceReturn"
    and cur: "ParseCurrency currency = Inr cur"
  shows "books_step db db'"
proof -
  have cur': "ParseCurrency (li_Currency e) = Inr cur" using cur by (simp add: e prepaid_entry_def ledger_literal_def)
  obtain n db1 where i: "ins0 g e db = Inr (n, db1)"
    and last: "(if n = 0 then Inr db1 else creditPrepaidBalanceTx buyer micros currency db1) = Inr db'"
    using run by (auto simp: receipt_and_credit_def)
  have "n = 0 \<and> db1 = db \<or> (\<exists>r. n = 1 \<and> db1 = add_row r db \<and> carries e cur r)"
    by (rule insert_effects [OF _ cur']) (use ins i in auto)
  then show ?thesis
  proof (elim disjE conjE exE)
    assume "n = 0" "db1 = db"
    then show ?thesis using last books_step_refl by simp
  next
    fix r assume r: "n = 1" "db1 = add_row r db" "carries e cur r"
    have "kind \<in> set prepaid_kinds" using kind by (auto simp: prepaid_kinds_def)
    note c = carries_prepaid [where t = t, OF disjI2, OF r(3) [unfolded e] this]
    have "lr_kind r = kind" using r(3) by (simp add: carries_def e prepaid_entry_def ledger_literal_def)
    then have "lr_kind r \<noteq> KindPrepaidTopup" "lr_kind r \<noteq> KindPrepaidRefund" using kind by (auto simp: kind_defs)
    moreover have "moves (buyer, Currency_Code cur) (sint micros) (add_row r db) db'"
      using last r(1,2) by (intro credit_balance_moves [OF _ cur]) simp
    ultimately show ?thesis by (intro row_moves_step [OF _ c])
  qed
qed

lemma prepaid_entry_no_task [simp]: "(prepaid_entry kind buyer a c ref)\<lparr>li_TaskID := None\<rparr> = prepaid_entry kind buyer a c ref"
  by (simp add: prepaid_entry_def ledger_literal_def)

lemmas debit_ref_step = debit_step [where t = None, unfolded prepaid_entry_no_task, OF _ _ disjI1 refl]
lemmas debit_task_step = debit_step [OF _ _ disjI2 refl]
lemmas restore_ref_step = restore_step [where t = None and ?ins0.0 = insertLedgerEntryIfAbsentByRefTx, unfolded prepaid_entry_no_task, OF _ disjI1 [OF refl] refl]
lemmas restore_task_step = restore_step [where ?ins0.0 = insertLedgerEntryOnTaskConflictDoNothingTx, OF _ disjI2 [OF refl] refl]

lemma not_sle_zero: "\<not> (a \<le>s (0 :: int64)) \<longleftrightarrow> 0 <s a"
  by (simp add: sle64 sless64 not_le)

lemma debitPrepaidForTaskTx_step:
  assumes "debitPrepaidForTaskTx g b t a db = Inr db'"
  shows "books_step db db'"
proof -
  have pos: "0 <s a" using assms unfolding not_sle_zero [symmetric] by (auto simp: debitPrepaidForTaskTx_def)
  obtain job where job: "task_job db t b = Some job"
    using assms pos by (cases "task_job db t b") (auto simp: debitPrepaidForTaskTx_def split: if_splits)
  obtain cur db1 n db2 where c: "ParseCurrency (jb_currency job) = Inr cur" "take_balance (b, Currency_Code cur) a db = Inr db1"
    "insertLedgerEntryOnTaskConflictDoNothingTx g
       ((prepaid_entry KindPrepaidDebit b (- a) (Currency_Code cur) [])\<lparr>li_TaskID := Some t\<rparr>) db1 = Inr (n, db2)"
    "(if n = 0 then add_balance (b, Currency_Code cur) a db2 else Inr db2) = Inr db'"
    using assms job pos [unfolded not_sle_zero [symmetric]] by (auto simp: debitPrepaidForTaskTx_def Let_def)
  show ?thesis by (rule debit_task_step [OF c(2) pos c(3) ParseCurrency_code [OF c(1)] c(4)])
qed

lemma debitPrepaidByRefTx_step:
  assumes "debitPrepaidByRefTx g b a currency ref m1 m2 db = Inr db'"
  shows "books_step db db'"
proof -
  have pos: "0 <s a" and ok: "\<not> (b = uuid_Nil \<or> a \<le>s 0 \<or> ref = [])"
    using assms unfolding not_sle_zero [symmetric] by (auto simp: debitPrepaidByRefTx_def split: if_splits)
  obtain cur where cur: "ParseCurrency currency = Inr cur"
    using assms ok by (cases "ParseCurrency currency") (auto simp: debitPrepaidByRefTx_def split: if_splits)
  show ?thesis
  proof (cases "find (has_ref KindPrepaidDebit ref) (ld_entries db)")
    case None
    then obtain db1 n db2 where c: "take_balance (b, Currency_Code cur) a db = Inr db1"
      "insertLedgerEntryIfAbsentByRefTx g (prepaid_entry KindPrepaidDebit b (- a) (Currency_Code cur) ref) db1 = Inr (n, db2)"
      "(if n = 0 then add_balance (b, Currency_Code cur) a db2 else Inr db2) = Inr db'"
      using assms ok cur by (auto simp: debitPrepaidByRefTx_def Let_def)
    show ?thesis by (rule debit_ref_step [OF c(1) pos c(2) ParseCurrency_code [OF cur] c(3)])
  next
    case (Some r)
    then have "db' = db" using assms ok cur by (simp add: debitPrepaidByRefTx_def split: if_splits)
    then show ?thesis using books_step_refl by simp
  qed
qed

lemma debitPrepaidForExecutionContractTx_step:
  "debitPrepaidForExecutionContractTx U g b c a db = Inr db' \<Longrightarrow> books_step db db'"
  by (auto simp: debitPrepaidForExecutionContractTx_def split: if_splits option.splits intro: debitPrepaidByRefTx_step)

lemma debitPrepaidForServiceLeaseTx_step:
  "debitPrepaidForServiceLeaseTx U g b l a db = Inr db' \<Longrightarrow> books_step db db'"
  by (auto simp: debitPrepaidForServiceLeaseTx_def split: if_splits option.splits intro: debitPrepaidByRefTx_step)

lemma debitPrepaidForSLAPremiumTx_step:
  assumes "debitPrepaidForSLAPremiumTx U g b j a db = Inr db'"
  shows "books_step db db'"
proof -
  have pos: "0 <s a" using assms unfolding not_sle_zero [symmetric] by (auto simp: debitPrepaidForSLAPremiumTx_def)
  obtain job where job: "job_of db j = Some job" "jb_buyer job = b"
    using assms pos by (auto simp: debitPrepaidForSLAPremiumTx_def split: if_splits option.splits)
  obtain cur db1 n db2 where c: "ParseCurrency (jb_currency job) = Inr cur" "take_balance (b, Currency_Code cur) a db = Inr db1"
    "insertLedgerEntryIfAbsentByRefTx g
       (prepaid_entry KindPrepaidDebit b (- a) (Currency_Code cur) (prepaidSLAPremiumDebitRef U j)) db1 = Inr (n, db2)"
    "(if n = 0 then add_balance (b, Currency_Code cur) a db2 else Inr db2) = Inr db'"
    using assms job pos [unfolded not_sle_zero [symmetric]] by (auto simp: debitPrepaidForSLAPremiumTx_def Let_def)
  show ?thesis by (rule debit_ref_step [OF c(2) pos c(3) ParseCurrency_code [OF c(1)] c(4)])
qed

lemma restorePrepaidByDebitRefTx_step:
  assumes "restorePrepaidByDebitRefTx g b currency dref rref a db = Inr db'"
  shows "books_step db db'"
proof (cases "a \<le>s 0")
  case True
  then show ?thesis using assms books_step_refl by (simp add: restorePrepaidByDebitRefTx_def split: if_splits)
next
  case False
  then obtain cur r where cur: "ParseCurrency currency = Inr cur" and "find (has_ref KindPrepaidDebit dref) (ld_entries db) = Some r"
    using assms by (auto simp: restorePrepaidByDebitRefTx_def split: if_splits option.splits)
  then have "receipt_and_credit (insertLedgerEntryIfAbsentByRefTx g
      (prepaid_entry KindPrepaidRestore b a (Currency_Code cur) rref) db) b a (Currency_Code cur) = Inr db'"
    using assms False by (simp add: restorePrepaidByDebitRefTx_def split: if_splits)
  then show ?thesis by (rule restore_ref_step [OF _ disjI1 [OF refl] ParseCurrency_code [OF cur]])
qed

lemma restorePrepaidForExecutionContractRefundTx_step:
  "restorePrepaidForExecutionContractRefundTx U g b c currency db = Inr db' \<Longrightarrow> books_step db db'"
  by (auto simp: restorePrepaidForExecutionContractRefundTx_def Let_def books_step_refl split: if_splits option.splits
    intro: restorePrepaidByDebitRefTx_step)

lemma restorePrepaidForSLAPremiumRefundTx_step:
  assumes "restorePrepaidForSLAPremiumRefundTx U g b j currency a db = Inr db'"
  shows "books_step db db'"
proof (cases "j = uuid_Nil \<or> a \<le>s 0")
  case True
  then show ?thesis using assms books_step_refl by (auto simp: restorePrepaidForSLAPremiumRefundTx_def)
next
  case False
  show ?thesis
  proof (cases "find (has_ref KindPrepaidDebit (prepaidSLAPremiumDebitRef U j)) (ld_entries db)")
    case None
    then show ?thesis using assms False books_step_refl by (simp add: restorePrepaidForSLAPremiumRefundTx_def)
  next
    case (Some r)
    have "db' = db \<or> (\<exists>cur x. ParseCurrency currency = Inr cur \<and> receipt_and_credit (insertLedgerEntryIfAbsentByRefTx g
        (prepaid_entry KindPrepaidBalanceReturn b x (Currency_Code cur) (prepaidSLAPremiumRestoreRef U j)) db) b x (Currency_Code cur) = Inr db')"
      using assms False Some by (auto simp: restorePrepaidForSLAPremiumRefundTx_def Let_def split: if_splits)
    then show ?thesis using books_step_refl restore_ref_step [OF _ disjI2 [OF refl] ParseCurrency_code] by auto
  qed
qed

lemma restorePrepaidForTaskDebitTx_step:
  assumes "restorePrepaidForTaskDebitTx U g b t currency db = Inr db'"
  shows "books_step db db'"
proof -
  obtain cur r where cur: "ParseCurrency currency = Inr cur" and "find (on_task KindPrepaidDebit t) (ld_entries db) = Some r"
    using assms by (auto simp: restorePrepaidForTaskDebitTx_def split: if_splits option.splits)
  then have "receipt_and_credit (insertLedgerEntryOnTaskConflictDoNothingTx g
      ((prepaid_entry KindPrepaidRestore b (word_of_int (- lr_amount r)) (Currency_Code cur) (prepaidTaskRestoreRef U t))
        \<lparr>li_TaskID := Some t\<rparr>) db) b (word_of_int (- lr_amount r)) (Currency_Code cur) = Inr db'"
    using assms by (simp add: restorePrepaidForTaskDebitTx_def Let_def split: if_splits)
  then show ?thesis by (rule restore_task_step [OF _ disjI1 [OF refl] ParseCurrency_code [OF cur]])
qed

lemma each_result_step:
  assumes "\<And>x a b. f x a = Inr b \<Longrightarrow> books_step a b"
  shows "each_result f xs db = Inr db' \<Longrightarrow> books_step db db'"
proof (induction xs arbitrary: db)
  case (Cons x xs)
  then obtain d where "f x db = Inr d" "each_result f xs d = Inr db'" by auto
  then show ?case using Cons.IH assms by (blast intro: books_step_trans)
qed (simp add: books_step_refl)

lemma restorePrepaidForDisputeJobTasksTx_step:
  "restorePrepaidForDisputeJobTasksTx U g b j currency db = Inr db' \<Longrightarrow> books_step db db'"
  using each_result_step [of "\<lambda>t. restorePrepaidForTaskDebitTx U g b t currency"] restorePrepaidForTaskDebitTx_step
  by (auto simp: restorePrepaidForDisputeJobTasksTx_def split: if_splits)

section \<open>Refunds are covered by top-ups\<close>

text \<open>
  The operation tables: keys and intents are unique, an operation has an intent exactly when it
  succeeded, top-up rows name such an intent and refund rows an audited reference, every refund
  slice is traced to the top-up of its intent, and no top-up is refunded beyond what it brought.
\<close>

definition topups_ok :: "topup_op list \<Rightarrow> bool" where
  "topups_ok ops \<longleftrightarrow> distinct (map tu_key ops) \<and> (\<forall>op \<in> set ops. 0 < sint (tu_cents op)) \<and>
     (\<forall>op \<in> set ops. (tu_status op = ''succeeded'') = (tu_intent op \<noteq> None)) \<and>
     (\<forall>a \<in> set ops. \<forall>b \<in> set ops. same_key (tu_intent a) (tu_intent b) \<longrightarrow> a = b)"

definition rows_traced :: "(uuid \<Rightarrow> string) \<Rightarrow> ledger_db \<Rightarrow> bool" where
  "rows_traced U db \<longleftrightarrow>
     (\<forall>r \<in> set (ld_entries db). lr_kind r = KindPrepaidTopup \<longrightarrow> (\<exists>op \<in> set (ld_topups db). same_key (lr_ref r) (tu_intent op))) \<and>
     (\<forall>r \<in> set (ld_entries db). lr_kind r = KindPrepaidRefund \<longrightarrow>
        (\<exists>b ref. lr_ref r = Some (prepaidRefundOperationKey U b ref) \<and> TrimSpace ref \<in> fst ` set (ld_admin db)))"

definition funded_by :: "refund_op \<Rightarrow> topup_op \<Rightarrow> bool" where
  "funded_by r op \<longleftrightarrow> tu_intent op = Some (ro_intent r) \<and> tu_currency op = ro_currency r \<and> tu_buyer op = ro_buyer r"

definition refunds_covered :: "topup_op list \<Rightarrow> refund_op list \<Rightarrow> bool" where
  "refunds_covered ops refunds \<longleftrightarrow>
     (\<forall>r \<in> set refunds. 0 < sint (ro_cents r) \<and> (\<exists>op \<in> set ops. funded_by r op)) \<and>
     (\<forall>op \<in> set ops. \<forall>i. tu_intent op = Some i \<longrightarrow> refunded_cents refunds i (tu_currency op) \<le> sint (tu_cents op))"

definition prepaid_inv :: "(uuid \<Rightarrow> string) \<Rightarrow> ledger_db \<Rightarrow> bool" where
  "prepaid_inv U db \<longleftrightarrow> prepaid_books db \<and> topups_ok (ld_topups db) \<and> rows_traced U db \<and> refunds_covered (ld_topups db) (ld_refunds db)"

lemma books_step_inv:
  assumes "books_step db db'" "prepaid_inv U db"
  shows "prepaid_inv U db'"
proof -
  have "rows_traced U db'" using assms unfolding rows_traced_def books_step_def prepaid_inv_def by (metis (no_types, lifting))
  then show ?thesis using assms by (simp add: books_step_def prepaid_inv_def)
qed

lemma topups_ok_add:
  assumes "topups_ok ops" "op \<notin> set ops" "tu_key op \<notin> tu_key ` set ops" "0 < sint (tu_cents op)" "tu_status op = ''pending''" "tu_intent op = None"
  shows "topups_ok (ops @ [op])"
  using assms unfolding topups_ok_def by (auto simp: same_key_def)

lemma pending_inv:
  assumes inv: "prepaid_inv U db" and "find (\<lambda>op. tu_key op = key) (ld_topups db) = None" "0 <s cents"
  shows "prepaid_inv U (db\<lparr>ld_topups := ld_topups db @ [pending_topup key b cents currency]\<rparr>)" (is "prepaid_inv U ?db")
proof -
  have "topups_ok (ld_topups ?db)" using assms
    by (auto intro!: topups_ok_add simp: prepaid_inv_def pending_topup_def find_None_iff sless64 image_iff)
  moreover have "rows_traced U ?db" using inv unfolding prepaid_inv_def rows_traced_def by auto
  moreover have "refunds_covered (ld_topups ?db) (ld_refunds ?db)"
    using inv unfolding prepaid_inv_def refunds_covered_def by (auto simp: pending_topup_def)
  moreover have "prepaid_books ?db" using inv prepaid_books_cong [of ?db db] by (simp add: prepaid_inv_def)
  ultimately show ?thesis by (simp add: prepaid_inv_def)
qed

lemma BeginPrepaidTopup_inv:
  assumes "BeginPrepaidTopup g key b cents db = Inr (st, db')" "prepaid_inv U db"
  shows "prepaid_inv U db'"
proof -
  have ok: "0 <s cents" "\<not> (TrimSpace key = [] \<or> b = uuid_Nil \<or> cents \<le>s 0)"
    using assms(1) unfolding not_sle_zero [symmetric] by (auto simp: BeginPrepaidTopup_def Let_def split: if_splits)
  show ?thesis
  proof (cases "find (\<lambda>op. tu_key op = TrimSpace key) (ld_topups db)")
    case None
    then have "db' = db\<lparr>ld_topups := ld_topups db @ [pending_topup (TrimSpace key) b cents (SettlementCurrencyCode g)]\<rparr>"
      using assms(1) ok by (auto simp: BeginPrepaidTopup_def Let_def)
    then show ?thesis using pending_inv [OF assms(2) None ok(1)] by simp
  next
    case (Some stored)
    then have "db' = db" using assms(1) ok by (auto simp: BeginPrepaidTopup_def Let_def split: if_splits)
    then show ?thesis using assms(2) by simp
  qed
qed

lemma complete_topups_ok:
  assumes ok: "topups_ok ops" and fresh: "\<And>op. op \<in> set ops \<Longrightarrow> tu_key op \<noteq> key \<Longrightarrow> tu_intent op \<noteq> Some i"
  shows "topups_ok (map (complete_op key i c) ops)" (is "topups_ok (map ?f ops)")
proof -
  have keys: "tu_key (?f op) = tu_key op" "tu_cents (?f op) = tu_cents op" for op by (simp_all add: complete_op_def)
  have "tu_key \<circ> ?f = tu_key" by (simp add: fun_eq_iff keys)
  moreover have "a = b" if "a \<in> set ops" "b \<in> set ops" "same_key (tu_intent (?f a)) (tu_intent (?f b))" for a b
  proof (cases "tu_intent (?f a) = Some i")
    case False
    then have "tu_intent (?f a) = tu_intent a" "tu_intent (?f b) = tu_intent b" using that(3) by (auto simp: same_key_def complete_op_def split: if_splits)
    then show ?thesis using ok that unfolding topups_ok_def by metis
  next
    case True
    then have "tu_intent (?f b) = Some i" using that(3) by (simp add: same_key_def)
    then have "tu_key a = key" "tu_key b = key" using True fresh that(1,2) by (auto simp: complete_op_def split: if_splits)
    then show ?thesis using ok that(1,2) by (simp add: topups_ok_def distinct_map inj_on_def)
  qed
  moreover have "(tu_status (?f op) = ''succeeded'') = (tu_intent (?f op) \<noteq> None)" if "op \<in> set ops" for op
    using ok that by (simp add: topups_ok_def complete_op_def)
  ultimately show ?thesis using ok unfolding topups_ok_def by (auto simp: keys)
qed

lemma key_unique: "topups_ok ops \<Longrightarrow> a \<in> set ops \<Longrightarrow> b \<in> set ops \<Longrightarrow> tu_key a = tu_key b \<Longrightarrow> a = b"
  by (simp add: topups_ok_def distinct_map inj_on_def)

lemma refunded_cents_none: "(\<And>r. r \<in> set refunds \<Longrightarrow> ro_intent r \<noteq> i) \<Longrightarrow> refunded_cents refunds i currency = 0"
proof -
  assume "\<And>r. r \<in> set refunds \<Longrightarrow> ro_intent r \<noteq> i"
  then have "filter (\<lambda>op. ro_intent op = i \<and> ro_currency op = currency \<and> (ro_status op = ''pending'' \<or> ro_status op = ''succeeded'')) refunds = []"
    by (auto simp: filter_empty_conv)
  then show ?thesis by (simp add: refunded_cents_def)
qed

lemma complete_covered:
  assumes ok: "topups_ok ops" and cov: "refunds_covered ops refunds" and fresh: "\<And>op. op \<in> set ops \<Longrightarrow> tu_intent op \<noteq> Some i"
  shows "refunds_covered (map (complete_op key i c) ops) refunds" (is "refunds_covered (map ?f ops) refunds")
proof -
  have none: "ro_intent r \<noteq> i" if "r \<in> set refunds" for r
    using cov that fresh unfolding refunds_covered_def funded_by_def by metis
  have "\<exists>op \<in> set (map ?f ops). funded_by r op" if r: "r \<in> set refunds" for r
  proof -
    obtain op where op: "op \<in> set ops" "funded_by r op" using cov r unfolding refunds_covered_def by metis
    then have "tu_status op = ''succeeded''" using ok by (auto simp: topups_ok_def funded_by_def)
    then have "?f op = op" by (simp add: complete_op_def)
    then show ?thesis using op by force
  qed
  moreover have "refunded_cents refunds j (tu_currency (?f op)) \<le> sint (tu_cents (?f op))"
    if "op \<in> set ops" "tu_intent (?f op) = Some j" for op j
  proof (cases "j = i")
    case True
    then show ?thesis using refunded_cents_none [of refunds i, OF none] ok that(1) by (auto simp: topups_ok_def less_imp_le complete_op_def)
  next
    case False
    then show ?thesis using that cov by (auto simp: refunds_covered_def complete_op_def split: if_splits)
  qed
  ultimately show ?thesis using cov unfolding refunds_covered_def by auto
qed

lemma complete_traced:
  assumes "topups_ok (ld_topups db)" "rows_traced U db" "ld_entries db' = ld_entries db @ [r]" "ld_admin db' = ld_admin db"
    "ld_topups db' = map (complete_op key i c) (ld_topups db)"
    "lr_ref r = Some i" "lr_kind r = KindPrepaidTopup" "op \<in> set (ld_topups db)" "tu_key op = key" "tu_status op = ''pending''"
  shows "rows_traced U db'"
proof -
  let ?f = "complete_op key i c"
  have "\<exists>op \<in> ?f ` set (ld_topups db). same_key (lr_ref s) (tu_intent op)" if s: "s \<in> set (ld_entries db)" "lr_kind s = KindPrepaidTopup" for s
  proof -
    obtain o' where o': "o' \<in> set (ld_topups db)" "same_key (lr_ref s) (tu_intent o')" using assms(2) s unfolding rows_traced_def by metis
    then have "tu_status o' = ''succeeded''" using assms(1) by (auto simp: topups_ok_def same_key_def)
    then have "?f o' = o'" by (simp add: complete_op_def)
    then show ?thesis using o' by force
  qed
  moreover have "\<exists>op \<in> ?f ` set (ld_topups db). same_key (lr_ref r) (tu_intent op)"
    using assms(6,8-10) by (intro bexI [of _ "?f op"]) (simp_all add: same_key_def complete_op_def)
  moreover have "KindPrepaidTopup \<noteq> KindPrepaidRefund" by (simp add: kind_defs)
  ultimately show ?thesis using assms(2-5,7) unfolding rows_traced_def by auto
qed

lemma record_collection_tables:
  "record_collection b charge currency db = Inr db' \<Longrightarrow> \<exists>cs. db' = db\<lparr>ld_collections := cs\<rparr>"
  unfolding record_collection_def Let_def by (auto split: option.splits if_splits intro: exI [of _ "ld_collections db"])

lemma credit_pending_inv:
  assumes inv: "prepaid_inv U db" and op: "op \<in> set (ld_topups db)" "tu_key op = key" "tu_status op = ''pending''"
    and cur: "ParseCurrency currency = Inr settle"
    and run: "credit_pending bc g key b charge settle db = Inr db'"
  shows "prepaid_inv U db'"
proof -
  let ?i = "cr_PaymentIntentID charge" and ?k = "(b, Currency_Code settle)" and ?f = "complete_op key (cr_PaymentIntentID charge) (cr_ChargeID charge)"
  obtain db1 m db2 n db3 where 1: "record_collection b charge (Currency_Code settle) db = Inr db1"
    and 2: "upsert_balance ?k m db1 = Inr db2"
    and 3: "insertLedgerEntryIfAbsentByRefTx g (prepaid_entry KindPrepaidTopup b m (Currency_Code settle) ?i) db2 = Inr (n, db3)"
    and 4: "complete_topup key charge db3 = Inr db'"
    using run unfolding credit_pending_def by auto
  note mv = upsert_balance_moves [OF 2]
  obtain cs where db1: "db1 = db\<lparr>ld_collections := cs\<rparr>" using record_collection_tables [OF 1] by blast
  have same: "ld_entries db2 = ld_entries db" "ld_topups db2 = ld_topups db" "ld_refunds db2 = ld_refunds db" "ld_admin db2 = ld_admin db"
    using moves_tables [OF mv] db1 by simp_all
  have books: "prepaid_books db1" using inv prepaid_books_cong [of db1 db] db1 by (simp add: prepaid_inv_def)
  have ok: "topups_ok (ld_topups db)" and tr: "rows_traced U db" and cov: "refunds_covered (ld_topups db) (ld_refunds db)"
    using inv by (simp_all add: prepaid_inv_def)
  have topups3: "ld_topups db3 = ld_topups db"
    using insert_effects [OF disjI1 [OF 3]] ParseCurrency_code [OF cur] same by (auto simp: prepaid_entry_def ledger_literal_def)
  have fresh: "tu_intent op' \<noteq> Some ?i" if "op' \<in> set (ld_topups db)" for op'
  proof (cases "tu_key op' = key")
    case True
    then have "op' = op" using key_unique [OF ok that op(1)] op(2) by simp
    then show ?thesis using op(3) ok that by (auto simp: topups_ok_def)
  qed (use 4 that topups3 in \<open>auto simp: complete_topup_def list_ex_iff split: if_splits\<close>)
  have "\<exists>r. db3 = add_row r db2 \<and> carries (prepaid_entry KindPrepaidTopup b m (Currency_Code settle) ?i) settle r \<and> ?i \<noteq> []"
    using 3
  proof (rule insert_ref_cases)
    fix r assume "r \<in> set (ld_entries db2)" "has_ref (li_Kind (prepaid_entry KindPrepaidTopup b m (Currency_Code settle) ?i))
      (li_PayoutRef (prepaid_entry KindPrepaidTopup b m (Currency_Code settle) ?i)) r"
    then have "r \<in> set (ld_entries db)" "lr_kind r = KindPrepaidTopup" "lr_ref r = Some ?i"
      by (simp_all add: same has_ref_def prepaid_entry_def ledger_literal_def)
    then have False using tr fresh unfolding rows_traced_def same_key_def by metis
    then show ?thesis ..
  qed (auto simp: prepaid_entry_def ledger_literal_def ParseCurrency_code [OF cur])
  then obtain r where r: "db3 = add_row r db2" "carries (prepaid_entry KindPrepaidTopup b m (Currency_Code settle) ?i) settle r" "?i \<noteq> []" by blast
  have db': "db' = (add_row r db2)\<lparr>ld_topups := map ?f (ld_topups db)\<rparr>"
    using 4 r(1) same by (simp add: complete_topup_def split: if_splits)
  have row: "lr_ref r = Some ?i" "lr_kind r = KindPrepaidTopup"
    using r(2,3) by (simp_all add: carries_def prepaid_entry_def ledger_literal_def nullif_empty_def)
  note c = carries_prepaid [OF disjI1, OF r(2)]
  have "prepaid_books (add_row r db2)" by (rule moves_row_books [OF mv books c]) (simp_all add: prepaid_kinds_def)
  then have "prepaid_books db'" using prepaid_books_cong [of db' "add_row r db2"] db' by simp
  moreover have "topups_ok (ld_topups db')" using complete_topups_ok [OF ok fresh] db' by simp
  moreover have "rows_traced U db'" by (rule complete_traced [where c = "cr_ChargeID charge", OF ok tr _ _ _ row op]) (simp_all add: db' same)
  moreover have "refunds_covered (ld_topups db') (ld_refunds db')" using complete_covered [OF ok cov fresh] db' same by simp
  ultimately show ?thesis by (simp add: prepaid_inv_def)
qed

lemma CreditPrepaidTopup_inv:
  assumes run: "CreditPrepaidTopup bc g key b charge db = Inr db'" and inv: "prepaid_inv U db"
  shows "prepaid_inv U db'"
proof -
  let ?key = "TrimSpace key"
  have ids: "\<not> (?key = [] \<or> b = uuid_Nil)" using run by (auto simp: CreditPrepaidTopup_def Let_def)
  obtain cc where shape: "validateChargeResultShape charge = Inr ()" and cc: "ParseCurrency (cr_ChargeCurrency charge) = Inr cc"
    using run ids by (auto simp: CreditPrepaidTopup_def Let_def)
  have pos: "0 <s cr_Received charge" using shape unfolding not_sle_zero [symmetric] by (auto simp: validateChargeResultShape_def split: if_splits)
  define new where "new = pending_topup ?key b (cr_Received charge) (Currency_Code cc)"
  obtain stored db0 where at0: "(case find (\<lambda>op. tu_key op = ?key) (ld_topups db) of
      Some op \<Rightarrow> (op, db) | None \<Rightarrow> (new, db\<lparr>ld_topups := ld_topups db @ [new]\<rparr>)) = (stored, db0)" by (rule prod.exhaust)
  have inv0: "prepaid_inv U db0" "stored \<in> set (ld_topups db0)" "tu_key stored = ?key"
    using at0 inv pending_inv [OF inv _ pos, of ?key b "Currency_Code cc"]
    by (auto simp: new_def pending_topup_def find_Some_iff split: option.splits)
  obtain settle where "ParseCurrency (tu_currency stored) = Inr settle"
    and "(if Currency_Code cc \<noteq> Currency_Code settle then Inl (Msg ''top-up currency mismatch'')
      else if tu_status stored = ''succeeded'' then
        (if tu_intent stored \<noteq> Some (cr_PaymentIntentID charge) \<or> tu_charge stored \<noteq> Some (cr_ChargeID charge)
         then Inl (Msg ''top-up has a conflicting completed provider identity'')
         else bind_result (wrap_result ''cannot bind prior Stripe cash state'' (bc charge (Currency_Code settle))) (\<lambda>_. Inr db0))
      else if tu_status stored \<noteq> ''pending'' then Inl (Msg ''top-up cannot credit'')
      else credit_pending bc g ?key b charge settle db0) = Inr db'"
    using run ids shape cc at0 unfolding CreditPrepaidTopup_def Let_def new_def by (simp split: if_splits)
  then show ?thesis using inv0 credit_pending_inv [OF inv0(1,2,3)] by (auto split: if_splits)
qed

text \<open>The plan of a refund: its slices have distinct intents, each within what is left, and they add up to the refund.\<close>

lemma plan_slices_Cons:
  assumes "plan_slices key cur ((intent, left) # rows) rem = Inr (slices, rest)" "0 \<le>s rem"
  obtains (skip) "plan_slices key cur rows rem = Inr (slices, rest)"
  | (part) tk ss where "plan_slices key cur rows (rem - tk) = Inr (ss, rest)" "0 \<le>s rem - tk"
      "slices = \<lparr>rs_OperationKey = key @ ''-'' @ intent, rs_PaymentIntent = intent, rs_Cents = tk, rs_Currency = cur,
         rs_RefundID = [], rs_Status = ''pending''\<rparr> # ss"
      "0 < sint tk" "sint tk \<le> left" "sint (rem - tk) = sint rem - sint tk"
proof -
  obtain refundable where refundable: "sql_bigint left = Inr refundable" using assms(1) by auto
  then have left: "sint refundable = left" by simp
  define tk where "tk = (if rem <s refundable then rem else refundable)"
  show ?thesis
  proof (cases "rem \<le>s 0 \<or> refundable \<le>s 0")
    case True
    then show ?thesis using assms(1) refundable skip by auto
  next
    case False
    then have tk: "0 < sint tk" "sint tk \<le> left" "sint tk \<le> sint rem" using left by (auto simp: sle64 sless64 tk_def)
    then have sub: "sint (rem - tk) = sint rem - sint tk" using sint64_bounds [of rem] by (intro sint64_diff_in64) (auto simp: in64_def)
    have "0 \<le>s rem - tk" using tk(3) sub by (simp add: sle64)
    then show ?thesis using part [of tk] assms(1) refundable False tk sub by (auto simp: Let_def tk_def [symmetric])
  qed
qed

definition plan_ok :: "string \<Rightarrow> (string \<times> int) list \<Rightarrow> prepaidRefundSlice list \<Rightarrow> bool" where
  "plan_ok cur rows slices \<longleftrightarrow> distinct (map rs_PaymentIntent slices) \<and>
     (\<forall>s \<in> set slices. rs_Currency s = cur \<and> 0 < sint (rs_Cents s) \<and> (\<exists>left. (rs_PaymentIntent s, left) \<in> set rows \<and> sint (rs_Cents s) \<le> left))"

lemma plan_ok_skip: "plan_ok cur rows slices \<Longrightarrow> plan_ok cur (row # rows) slices"
  unfolding plan_ok_def by (meson list.set_intros(2))

lemma plan_ok_part:
  assumes "plan_ok cur rows ss" "rs_PaymentIntent s \<notin> fst ` set rows" "rs_Currency s = cur" "0 < sint (rs_Cents s)" "sint (rs_Cents s) \<le> left"
  shows "plan_ok cur ((rs_PaymentIntent s, left) # rows) (s # ss)"
proof -
  have "rs_PaymentIntent s \<notin> rs_PaymentIntent ` set ss" using assms(1,2) unfolding plan_ok_def by force
  then show ?thesis using plan_ok_skip [OF assms(1), of "(rs_PaymentIntent s, left)"] assms(3-5) unfolding plan_ok_def by auto
qed

lemma plan_slices_spec:
  assumes "plan_slices key cur rows rem = Inr (slices, rest)" "distinct (map fst rows)" "0 \<le>s rem"
  shows "plan_ok cur rows slices \<and> sum_list (map (\<lambda>s. sint (rs_Cents s)) slices) = sint rem - sint rest \<and> 0 \<le>s rest"
  using assms
proof (induction rows arbitrary: rem slices rest)
  case Nil
  then show ?case by (simp add: plan_ok_def)
next
  case (Cons row rows)
  obtain intent left where row: "row = (intent, left)" by (rule prod.exhaust)
  have d: "distinct (map fst rows)" "intent \<notin> fst ` set rows" using Cons.prems(2) row by simp_all
  show ?case using Cons.prems(1) [unfolded row] Cons.prems(3)
  proof (cases rule: plan_slices_Cons)
    case skip
    show ?thesis using Cons.IH [OF skip d(1) Cons.prems(3)] plan_ok_skip by blast
  next
    case (part tk ss)
    note IH = Cons.IH [OF part(1) d(1) part(2)]
    have "plan_ok cur (row # rows) slices"
      using plan_ok_part [of cur rows ss "\<lparr>rs_OperationKey = key @ ''-'' @ intent, rs_PaymentIntent = intent, rs_Cents = tk,
        rs_Currency = cur, rs_RefundID = [], rs_Status = ''pending''\<rparr>" left] IH d(2) part(3,4,5) row by simp
    then show ?thesis using IH part(3,6) by simp
  qed
qed

definition slice_row :: "string \<Rightarrow> uuid \<Rightarrow> prepaidRefundSlice \<Rightarrow> refund_op" where
  "slice_row key b sl = \<lparr>ro_key = rs_OperationKey sl, ro_refund = key, ro_buyer = b, ro_cents = rs_Cents sl,
     ro_currency = rs_Currency sl, ro_status = ''pending'', ro_intent = rs_PaymentIntent sl, ro_stripe = None\<rparr>"

lemma insert_slices:
  "each_result (insert_refund_slice key b) slices db = Inr db' \<Longrightarrow> db' = db\<lparr>ld_refunds := ld_refunds db @ map (slice_row key b) slices\<rparr>"
proof (induction slices arbitrary: db)
  case (Cons sl slices)
  then obtain d where d: "insert_refund_slice key b sl db = Inr d" "each_result (insert_refund_slice key b) slices d = Inr db'" by auto
  then have "d = db\<lparr>ld_refunds := ld_refunds db @ [slice_row key b sl]\<rparr>" by (auto simp: insert_refund_slice_def slice_row_def split: if_splits)
  then show ?case using Cons.IH [OF d(2)] by simp
qed simp

lemma sum_distinct_bound:
  fixes f :: "'a \<Rightarrow> 'k" and w :: "'a \<Rightarrow> int"
  assumes "distinct (map f xs)" "\<And>x. x \<in> set xs \<Longrightarrow> f x = i \<Longrightarrow> w x \<le> B" "0 \<le> B"
  shows "sum_list (map w (filter (\<lambda>x. f x = i) xs)) \<le> B"
  using assms
proof (induction xs)
  case (Cons x xs)
  show ?case
  proof (cases "f x = i")
    case True
    then have "filter (\<lambda>x. f x = i) xs = []" using Cons.prems(1) by (auto simp: filter_empty_conv image_iff)
    then show ?thesis using True Cons.prems(2) by simp
  qed (use Cons in simp)
qed simp

lemma refunded_cents_append: "refunded_cents (xs @ ys) i c = refunded_cents xs i c + refunded_cents ys i c"
  by (simp add: refunded_cents_def)

lemma refunded_cents_slices:
  assumes "plan_ok c rows slices" "\<And>left. (i, left) \<in> set rows \<Longrightarrow> left \<le> B" "0 \<le> B"
  shows "refunded_cents (map (slice_row key b) slices) i c' \<le> B"
proof (cases "c' = c")
  case True
  have "refunded_cents (map (slice_row key b) slices) i c = sum_list (map (\<lambda>s. sint (rs_Cents s)) (filter (\<lambda>s. rs_PaymentIntent s = i) slices))"
    using assms(1) unfolding plan_ok_def refunded_cents_def
    by (auto simp: filter_map slice_row_def o_def intro!: arg_cong [where f = sum_list] map_cong filter_cong)
  also have "\<dots> \<le> B"
  proof (rule sum_distinct_bound)
    show "sint (rs_Cents s) \<le> B" if "s \<in> set slices" "rs_PaymentIntent s = i" for s
      using assms(1,2) that unfolding plan_ok_def by (meson order_trans)
  qed (use assms(1,3) in \<open>simp_all add: plan_ok_def\<close>)
  finally show ?thesis using True by simp
next
  case False
  then have "filter (\<lambda>op. ro_intent op = i \<and> ro_currency op = c' \<and> (ro_status op = ''pending'' \<or> ro_status op = ''succeeded''))
      (map (slice_row key b) slices) = []"
    using assms(1) by (auto simp: filter_empty_conv slice_row_def plan_ok_def)
  then show ?thesis using assms(3) by (simp only: refunded_cents_def list.map sum_list.Nil)
qed

lemma refundable_rows_set:
  assumes "\<And>xs :: topup_op list. mset (by_credit xs) = mset xs"
  shows "set (refundable_rows by_credit b c db) = {(i, sint (tu_cents op) - refunded_cents (ld_refunds db) i c) | i op.
     op \<in> set (ld_topups db) \<and> tu_buyer op = b \<and> tu_currency op = c \<and> tu_status op = ''succeeded'' \<and> tu_intent op = Some i}"
proof -
  have "set (by_credit xs) = set xs" for xs using assms [of xs] by (metis set_mset_mset)
  then show ?thesis by (auto simp: refundable_rows_def split: option.splits)
qed

lemma refundable_rows_distinct:
  assumes ok: "topups_ok (ld_topups db)" and perm: "\<And>xs :: topup_op list. mset (by_credit xs) = mset xs"
  shows "distinct (map fst (refundable_rows by_credit b c db))"
proof -
  define ops where "ops = by_credit (filter (\<lambda>op. tu_buyer op = b \<and> tu_currency op = c \<and> tu_status op = ''succeeded'') (ld_topups db))"
  have set_ops: "set ops \<subseteq> set (ld_topups db)" unfolding ops_def 
    using arg_cong [OF perm, of set_mset] by simp
  have "distinct (ld_topups db)" using ok by (auto simp: topups_ok_def distinct_map)
  then have d: "distinct ops" unfolding ops_def 
    using mset_eq_imp_distinct_iff [OF perm] by simp
  have sub: "op \<in> set ops \<Longrightarrow> op' \<in> set ops \<Longrightarrow> same_key (tu_intent op) (tu_intent op') \<Longrightarrow> op = op'" for op op'
    using ok subsetD [OF set_ops] unfolding topups_ok_def by blast
  define part where "part = (\<lambda>op :: topup_op. case tu_intent op of None \<Rightarrow> [] | Some i \<Rightarrow> [i])"
  have "map fst (refundable_rows by_credit b c db) = concat (map part ops)"
    unfolding refundable_rows_def ops_def [symmetric] part_def map_concat map_map by (rule arg_cong [where f = concat], rule map_cong [OF refl]) (simp split: option.split)
  moreover have "distinct (concat (map part ops))" using d sub
  proof (induction ops)
    case (Cons op ops)
    have "False" if "o' \<in> set ops" "i \<in> set (part op)" "i \<in> set (part o')" for o' i
    proof -
      have "tu_intent op = Some i" "tu_intent o' = Some i" using that(2,3) by (simp_all add: part_def split: option.splits)
      then show False using Cons.prems(1) Cons.prems(2) [of op o'] that(1) by (simp add: same_key_def)
    qed
    then have "set (part op) \<inter> (\<Union>o' \<in> set ops. set (part o')) = {}" by blast
    moreover have "distinct (part op)" by (simp add: part_def split: option.split)
    ultimately show ?case using Cons by simp
  qed simp
  ultimately show ?thesis by simp
qed

lemma refund_key_ref:
  assumes "\<And>u v. length (U u) = length (U v)" "prepaidRefundOperationKey U b ref = prepaidRefundOperationKey U b' ref'"
  shows "TrimSpace ref = TrimSpace ref'"
  using assms(1) [of b b'] assms(2) by (simp add: prepaidRefundOperationKey_def)

lemma refunds_covered_add:
  assumes ok: "topups_ok (ld_topups db)" and cov: "refunds_covered (ld_topups db) (ld_refunds db)"
    and perm: "\<And>xs :: topup_op list. mset (by_credit xs) = mset xs"
    and plan: "plan_ok c (refundable_rows by_credit b c db) slices"
  shows "refunds_covered (ld_topups db) (ld_refunds db @ map (slice_row key b) slices)"
proof -
  note rows = refundable_rows_set [OF perm, of b c db]
  have "0 < sint (ro_cents r) \<and> (\<exists>op \<in> set (ld_topups db). funded_by r op)" if r: "r \<in> set (map (slice_row key b) slices)" for r
  proof -
    obtain sl where sl: "sl \<in> set slices" "r = slice_row key b sl" using r by auto
    then obtain left where "(rs_PaymentIntent sl, left) \<in> set (refundable_rows by_credit b c db)" "0 < sint (rs_Cents sl)" "rs_Currency sl = c"
      using plan unfolding plan_ok_def by blast
    then show ?thesis unfolding rows sl(2) by (auto simp: slice_row_def funded_by_def)
  qed
  moreover have "refunded_cents (ld_refunds db @ map (slice_row key b) slices) i (tu_currency op) \<le> sint (tu_cents op)"
    if op: "op \<in> set (ld_topups db)" "tu_intent op = Some i" for op i
  proof -
    let ?B = "sint (tu_cents op) - refunded_cents (ld_refunds db) i (tu_currency op)"
    have "refunded_cents (ld_refunds db) i (tu_currency op) \<le> sint (tu_cents op)" using cov op unfolding refunds_covered_def by blast
    then have "0 \<le> ?B" by simp
    moreover have "left \<le> ?B" if "(i, left) \<in> set (refundable_rows by_credit b c db)" for left
    proof -
      obtain o' where o': "o' \<in> set (ld_topups db)" "tu_intent o' = Some i" "tu_currency o' = c"
        "left = sint (tu_cents o') - refunded_cents (ld_refunds db) i c" using \<open>(i, left) \<in> _\<close> unfolding rows by blast
      then have "same_key (tu_intent o') (tu_intent op)" using op(2) by (simp add: same_key_def)
      then have "o' = op" using ok o'(1) op(1) unfolding topups_ok_def by blast
      then show ?thesis using o' by simp
    qed
    ultimately have "refunded_cents (map (slice_row key b) slices) i (tu_currency op) \<le> ?B" using refunded_cents_slices [OF plan] by blast
    then show ?thesis unfolding refunded_cents_append by linarith
  qed
  moreover have "0 < sint (ro_cents r) \<and> (\<exists>op \<in> set (ld_topups db). funded_by r op)" if "r \<in> set (ld_refunds db)" for r
    using cov that unfolding refunds_covered_def by blast
  ultimately show ?thesis unfolding refunds_covered_def set_append by blast
qed


lemma refund_new_runs:
  assumes "refund_new U by_credit g res ex req act b ref db = Inr (plan, db')"
  obtains settle cents where "SettlementCurrency g = Inr settle" "0 <s cents"
    "refund_commit U by_credit g settle cents (req, act) b ref (ensure_balance (b, Currency_Code settle) db) = Inr (plan, db')"
proof -
  obtain settle where 1: "SettlementCurrency g = Inr settle" using assms unfolding refund_new_def bind_result_eq_Inr by blast
  obtain bal where 2: "balance_of (ensure_balance (b, Currency_Code settle) db) (b, Currency_Code settle) = Some bal"
    by (cases "balance_of db (b, Currency_Code settle)") (auto simp: balance_of_ensure)
  let ?rest = "\<lambda>f. refund_commit U by_credit g settle (go_div (bal - res - ex) f) (req, act) b ref (ensure_balance (b, Currency_Code settle) db)"
  have "(if bal - res - ex \<le>s 0 then Inl errInsufficientPrepaid
      else bind_result (MicrosPerMinorUnit settle) (\<lambda>f. if go_div (bal - res - ex) f \<le>s 0
        then Inl (Msg ''below one minor unit and cannot be refunded via card rails'') else ?rest f)) = Inr (plan, db')"
    using assms unfolding refund_new_def Let_def 1 bind_result_simps 2 option.case .
  then obtain f where "(if go_div (bal - res - ex) f \<le>s 0
      then Inl (Msg ''below one minor unit and cannot be refunded via card rails'') else ?rest f) = Inr (plan, db')"
    by (cases "bal - res - ex \<le>s 0") auto
  then have "\<not> go_div (bal - res - ex) f \<le>s 0" "?rest f = Inr (plan, db')"
    by (cases "go_div (bal - res - ex) f \<le>s 0"; simp)+
  then show ?thesis using that [OF 1] not_sle_zero by blast
qed

lemma refund_commit_runs:
  assumes "refund_commit U by_credit g settle cents audit b ref db = Inr (plan, db')"
  obtains micros slices db1 n db2 where "MinorToMicros settle cents = Inr micros"
    "planPrepaidRefundSlicesTx by_credit (prepaidRefundOperationKey U b ref) b (Currency_Code settle) cents db = Inr slices"
    "debit_balance (b, Currency_Code settle) micros db = Inr (1, db1)"
    "insertLedgerEntryIfAbsentByRefTx g (prepaid_entry KindPrepaidRefund b (- micros) (Currency_Code settle) (prepaidRefundOperationKey U b ref)) db1 = Inr (n, db2)"
    "db' = db2\<lparr>ld_refunds := ld_refunds db2 @ map (slice_row (prepaidRefundOperationKey U b ref) b) slices, ld_admin := ld_admin db2 @ [(ref, audit)]\<rparr>"
    "rp_Cents plan = cents" "rp_Slices plan = slices"
proof -
  let ?key = "prepaidRefundOperationKey U b ref" and ?k = "(b, Currency_Code settle)"
  obtain micros slices p where 0: "MinorToMicros settle cents = Inr micros"
    "planPrepaidRefundSlicesTx by_credit ?key b (Currency_Code settle) cents db = Inr slices" "debit_balance ?k micros db = Inr p"
    "(case p of (n1, db1) \<Rightarrow> if n1 \<noteq> 1 then Inl errInsufficientPrepaid
      else bind_result (insertLedgerEntryIfAbsentByRefTx g (prepaid_entry KindPrepaidRefund b (- micros) (Currency_Code settle) ?key) db1) (\<lambda>(_, db2).
      bind_result (each_result (insert_refund_slice ?key b) slices db2) (\<lambda>db3.
        Inr (\<lparr>rp_OperationKey = ?key, rp_Currency = Currency_Code settle, rp_Cents = cents, rp_Slices = slices, rp_Replayed = False\<rparr>,
          db3\<lparr>ld_admin := ld_admin db3 @ [(ref, audit)]\<rparr>)))) = Inr (plan, db')"
    using assms unfolding refund_commit_def Let_def bind_result_eq_Inr by blast
  obtain n1 db1 where p: "p = (n1, db1)" by (rule prod.exhaust)
  note 1 = 0 [unfolded p prod.case]
  have "n1 = 1" using 1(4) by (simp split: if_splits)
  with 1(4) obtain q where q: "insertLedgerEntryIfAbsentByRefTx g (prepaid_entry KindPrepaidRefund b (- micros) (Currency_Code settle) ?key) db1 = Inr q"
    "(case q of (n, db2) \<Rightarrow> bind_result (each_result (insert_refund_slice ?key b) slices db2) (\<lambda>db3.
        Inr (\<lparr>rp_OperationKey = ?key, rp_Currency = Currency_Code settle, rp_Cents = cents, rp_Slices = slices, rp_Replayed = False\<rparr>,
          db3\<lparr>ld_admin := ld_admin db3 @ [(ref, audit)]\<rparr>))) = Inr (plan, db')"
    unfolding \<open>n1 = 1\<close> bind_result_eq_Inr by auto
  obtain n db2 where n: "q = (n, db2)" by (rule prod.exhaust)
  obtain db3 where 2: "each_result (insert_refund_slice ?key b) slices db2 = Inr db3"
    "(\<lparr>rp_OperationKey = ?key, rp_Currency = Currency_Code settle, rp_Cents = cents, rp_Slices = slices, rp_Replayed = False\<rparr>,
          db3\<lparr>ld_admin := ld_admin db3 @ [(ref, audit)]\<rparr>) = (plan, db')"
    using q(2) unfolding n prod.case bind_result_eq_Inr sum.inject by blast
  have "db' = db2\<lparr>ld_refunds := ld_refunds db2 @ map (slice_row ?key b) slices, ld_admin := ld_admin db2 @ [(ref, audit)]\<rparr>"
    using insert_slices [OF 2(1)] 2(2) by simp
  moreover have "rp_Cents plan = cents" "rp_Slices plan = slices" using 2(2) by (simp_all only: prod.inject) auto
  ultimately show ?thesis by (rule that [OF 1(1,2) 1(3) [unfolded \<open>n1 = 1\<close>] q(1) [unfolded n]])
qed

lemma ensure_tables [simp]:
  "ld_entries (ensure_balance k db) = ld_entries db" "ld_topups (ensure_balance k db) = ld_topups db"
  "ld_refunds (ensure_balance k db) = ld_refunds db" "ld_admin (ensure_balance k db) = ld_admin db"
  by (simp_all add: ensure_balance_def)

lemma ensure_step: "books_step db (ensure_balance k db)"
proof -
  have "prepaid_books (ensure_balance k db) = prepaid_books db"
    unfolding prepaid_books_def held_ensure prepaid_sum_cong [OF ensure_tables(1)] by (rule refl)
  then show ?thesis by (simp add: books_step_def)
qed

lemma rows_traced_refund:
  assumes "rows_traced U db" "r \<in> set (ld_entries db)" "lr_kind r = KindPrepaidRefund" "lr_ref r = Some key"
  obtains b ref where "key = prepaidRefundOperationKey U b ref" "TrimSpace ref \<in> fst ` set (ld_admin db)"
proof -
  have "\<exists>b ref. lr_ref r = Some (prepaidRefundOperationKey U b ref) \<and> TrimSpace ref \<in> fst ` set (ld_admin db)"
    using assms(1-3) unfolding rows_traced_def by blast
  then show ?thesis using that assms(4) by auto
qed

lemma rows_traced_add:
  assumes "rows_traced U db" "lr_kind r = KindPrepaidRefund" "lr_ref r = Some (prepaidRefundOperationKey U b ref)" "TrimSpace ref = ref"
    "ld_entries db' = ld_entries db @ [r]" "ld_admin db' = ld_admin db @ [(ref, audit)]" "ld_topups db' = ld_topups db"
  shows "rows_traced U db'"
proof -
  have "KindPrepaidRefund \<noteq> KindPrepaidTopup" by (simp add: kind_defs)
  then have 1: "\<exists>op \<in> set (ld_topups db'). same_key (lr_ref s) (tu_intent op)" if "s \<in> set (ld_entries db')" "lr_kind s = KindPrepaidTopup" for s
    using assms(1,2,5,7) that unfolding rows_traced_def by auto
  have 2: "\<exists>b ref. lr_ref s = Some (prepaidRefundOperationKey U b ref) \<and> TrimSpace ref \<in> fst ` set (ld_admin db')"
    if s: "s \<in> set (ld_entries db')" "lr_kind s = KindPrepaidRefund" for s
  proof (cases "s \<in> set (ld_entries db)")
    case True
    then have "\<exists>b ref. lr_ref s = Some (prepaidRefundOperationKey U b ref) \<and> TrimSpace ref \<in> fst ` set (ld_admin db)"
      using assms(1) s(2) unfolding rows_traced_def by blast
    then show ?thesis using assms(6) by auto
  next
    case False
    then have "s = r" using s(1) assms(5) by simp
    then show ?thesis using assms(3,4,6) by (intro exI [of _ b] exI [of _ ref]) simp
  qed
  show ?thesis unfolding rows_traced_def using 1 2 by blast
qed

lemma refund_row_new:
  assumes ins: "insertLedgerEntryIfAbsentByRefTx g (prepaid_entry KindPrepaidRefund b m (Currency_Code settle) (prepaidRefundOperationKey U b ref)) db = Inr (n, db')"
    and settle: "Currency_Valid settle" and tr: "rows_traced U db" and fresh: "TrimSpace ref \<notin> fst ` set (ld_admin db)"
    and uuid: "\<And>u v. length (U u) = length (U v)"
  obtains r where "db' = add_row r db" "lr_kind r = KindPrepaidRefund" "lr_ref r = Some (prepaidRefundOperationKey U b ref)"
    "\<And>k. counts_for k r \<longleftrightarrow> k = (b, Currency_Code settle)" "lr_amount r = sint m"
proof -
  let ?e = "prepaid_entry KindPrepaidRefund b m (Currency_Code settle) (prepaidRefundOperationKey U b ref)"
  have e: "li_Kind ?e = KindPrepaidRefund" "li_PayoutRef ?e = prepaidRefundOperationKey U b ref" "li_Currency ?e = Currency_Code settle"
    by (simp_all add: prepaid_entry_def ledger_literal_def)
  have "ParseCurrency (li_Currency ?e) = Inr settle" unfolding e(3) by (rule valid_code [OF settle])
  with ins show ?thesis
  proof (cases rule: insert_ref_cases)
    case (old r)
    then have "lr_kind r = KindPrepaidRefund" "lr_ref r = Some (prepaidRefundOperationKey U b ref)" using e by (simp_all add: has_ref_def)
    then obtain b' ref' where key: "prepaidRefundOperationKey U b ref = prepaidRefundOperationKey U b' ref'" "TrimSpace ref' \<in> fst ` set (ld_admin db)"
      by (rule rows_traced_refund [OF tr old(3)])
    show ?thesis using fresh key(2) unfolding refund_key_ref [OF uuid key(1)] by contradiction
  next
    case (new r)
    have "lr_kind r = KindPrepaidRefund" "lr_ref r = Some (prepaidRefundOperationKey U b ref)"
      using new(3,4) e by (simp_all add: carries_def nullif_empty_def)
    then show ?thesis using that [OF new(2)] carries_prepaid [OF disjI1, OF new(3)] by (simp add: prepaid_kinds_def)
  qed
qed

lemma refund_commit_inv:
  assumes run: "refund_commit U by_credit g settle cents audit b ref db = Inr (plan, db')" and inv: "prepaid_inv U db"
    and pos: "0 <s cents" and fresh: "TrimSpace ref \<notin> fst ` set (ld_admin db)" and ref: "TrimSpace ref = ref"
    and uuid: "\<And>u v. length (U u) = length (U v)" and perm: "\<And>xs :: topup_op list. mset (by_credit xs) = mset xs"
  shows "prepaid_inv U db' \<and> sum_list (map (\<lambda>s. sint (rs_Cents s)) (rp_Slices plan)) = sint cents \<and> rp_Cents plan = cents"
proof -
  let ?key = "prepaidRefundOperationKey U b ref" and ?k = "(b, Currency_Code settle)"
  obtain m slices db1 n db2 where 1: "MinorToMicros settle cents = Inr m"
    "planPrepaidRefundSlicesTx by_credit ?key b (Currency_Code settle) cents db = Inr slices" "debit_balance ?k m db = Inr (1, db1)"
    "insertLedgerEntryIfAbsentByRefTx g (prepaid_entry KindPrepaidRefund b (- m) (Currency_Code settle) ?key) db1 = Inr (n, db2)"
    "db' = db2\<lparr>ld_refunds := ld_refunds db2 @ map (slice_row ?key b) slices, ld_admin := ld_admin db2 @ [(ref, audit)]\<rparr>"
    "rp_Cents plan = cents" "rp_Slices plan = slices" by (rule refund_commit_runs [OF run])
  have settle: "Currency_Valid settle" and m: "0 <s m" using 1(1) pos by (simp_all add: MinorToMicros_exact sless64)
  note mv = debit_balance_moves [OF 1(3) refl]
  note same = moves_tables(1-4) [OF mv]
  have ok: "topups_ok (ld_topups db)" "rows_traced U db" "refunds_covered (ld_topups db) (ld_refunds db)" "prepaid_books db"
    using inv by (simp_all add: prepaid_inv_def)
  have tr1: "rows_traced U db1" using ok(2) by (simp add: rows_traced_def same)
  obtain r where r: "db2 = add_row r db1" "lr_kind r = KindPrepaidRefund" "lr_ref r = Some ?key" "\<And>k. counts_for k r \<longleftrightarrow> k = ?k" "lr_amount r = sint (- m)"
    by (rule refund_row_new [OF 1(4) settle tr1 _ uuid]) (use fresh same in auto)
  obtain rest where plan: "plan_slices ?key (Currency_Code settle) (refundable_rows by_credit b (Currency_Code settle) db) cents = Inr (slices, rest)" "\<not> 0 <s rest"
    using 1(2) unfolding planPrepaidRefundSlicesTx_def by (auto split: if_splits)
  have "0 \<le>s cents" using pos by (simp add: sle64 sless64)
  note spec = plan_slices_spec [OF plan(1) refundable_rows_distinct [OF ok(1) perm] this]
  have "sint rest = 0" using spec plan(2) by (simp add: sle64 sless64)
  then have total: "sum_list (map (\<lambda>s. sint (rs_Cents s)) slices) = sint cents" using spec by simp
  have "prepaid_books (add_row r db1)" by (rule moves_row_books [OF mv ok(4) r(4)]) (simp add: r(5) sint_neg_positive [OF m])
  then have "prepaid_books db'" using prepaid_books_cong [of db' "add_row r db1"] 1(5) r(1) by simp
  moreover have "refunds_covered (ld_topups db') (ld_refunds db')"
    using refunds_covered_add [OF ok(1,3) perm, of "Currency_Code settle" b slices] spec 1(5) r(1) same by simp
  moreover have "rows_traced U db'"
    by (rule rows_traced_add [OF tr1 r(2,3) ref]) (simp_all add: 1(5) r(1))
  moreover have "topups_ok (ld_topups db')" using ok(1) 1(5) r(1) same by simp
  ultimately show ?thesis using total 1(6,7) by (simp add: prepaid_inv_def)
qed

lemma BeginPrepaidRefund_inv:
  assumes run: "BeginPrepaidRefund U by_credit by_key g res ex req act b ref0 db = Inr (plan, db')" and inv: "prepaid_inv U db"
    and uuid: "\<And>u v. length (U u) = length (U v)" and perm: "\<And>xs :: topup_op list. mset (by_credit xs) = mset xs"
  shows "prepaid_inv U db'"
proof (cases "map_of (ld_admin db) (TrimSpace ref0)")
  case (Some p)
  then have "db' = db" using run unfolding BeginPrepaidRefund_def Let_def by (auto split: if_splits prod.splits)
  then show ?thesis using inv by simp
next
  case None
  then have "refund_new U by_credit g res ex req act b (TrimSpace ref0) db = Inr (plan, db')"
    using run by (simp add: BeginPrepaidRefund_def)
  then obtain settle cents where c: "0 <s cents" "refund_commit U by_credit g settle cents (req, act) b (TrimSpace ref0)
      (ensure_balance (b, Currency_Code settle) db) = Inr (plan, db')" by (rule refund_new_runs)
  have "TrimSpace (TrimSpace ref0) \<notin> fst ` set (ld_admin (ensure_balance (b, Currency_Code settle) db))"
    using None by (simp add: map_of_eq_None_iff)
  from refund_commit_inv [OF c(2) books_step_inv [OF ensure_step inv] c(1) this TrimSpace_idem uuid perm] show ?thesis by simp
qed

text \<open>The updates of refund slices keep their money fields and never count a slice again that was not counted.\<close>

definition counted :: "refund_op \<Rightarrow> bool" where
  "counted r \<longleftrightarrow> ro_status r = ''pending'' \<or> ro_status r = ''succeeded''"

definition slice_update :: "(refund_op \<Rightarrow> refund_op) \<Rightarrow> bool" where
  "slice_update f \<longleftrightarrow> (\<forall>r. ro_intent (f r) = ro_intent r \<and> ro_currency (f r) = ro_currency r \<and> ro_cents (f r) = ro_cents r \<and>
     ro_buyer (f r) = ro_buyer r \<and> (counted (f r) \<longrightarrow> counted r))"

lemma slice_updateD:
  assumes "slice_update f"
  shows "ro_intent (f r) = ro_intent r" "ro_currency (f r) = ro_currency r" "ro_cents (f r) = ro_cents r" "ro_buyer (f r) = ro_buyer r"
    "counted (f r) \<Longrightarrow> counted r"
  using assms unfolding slice_update_def by blast+

lemma slice_update_refunded:
  assumes f: "slice_update f" and "\<And>r. r \<in> set rs \<Longrightarrow> 0 < sint (ro_cents r)"
  shows "refunded_cents (map f rs) i c \<le> refunded_cents rs i c"
  using assms(2)
proof (induction rs)
  case (Cons r rs)
  then have "refunded_cents (map f rs) i c \<le> refunded_cents rs i c" "0 < sint (ro_cents r)" by auto
  then show ?case using slice_updateD [OF f, of r] unfolding refunded_cents_def counted_def [symmetric] by auto
qed simp

lemma slice_update_covered:
  assumes f: "slice_update f" and cov: "refunds_covered ops rs"
  shows "refunds_covered ops (map f rs)"
proof -
  have "0 < sint (ro_cents (f r)) \<and> (\<exists>op \<in> set ops. funded_by (f r) op)" if "r \<in> set rs" for r
    using cov that unfolding refunds_covered_def funded_by_def slice_updateD [OF f] by blast
  moreover have "refunded_cents (map f rs) i (tu_currency op) \<le> sint (tu_cents op)" if "op \<in> set ops" "tu_intent op = Some i" for op i
  proof -
    have "refunded_cents (map f rs) i (tu_currency op) \<le> refunded_cents rs i (tu_currency op)"
      using cov unfolding refunds_covered_def by (intro slice_update_refunded [OF f]) blast
    also have "\<dots> \<le> sint (tu_cents op)" using cov that unfolding refunds_covered_def by blast
    finally show ?thesis .
  qed
  ultimately show ?thesis unfolding refunds_covered_def by (simp add: ball_simps)
qed

lemma set_refund_inv:
  assumes "prepaid_inv U db" "set_refund cond upd db = (n, db')" "slice_update (\<lambda>r. if cond r then upd r else r)"
  shows "prepaid_inv U db'"
proof -
  have db': "db' = db\<lparr>ld_refunds := map (\<lambda>r. if cond r then upd r else r) (ld_refunds db)\<rparr>" using assms(2) by (simp add: set_refund_def)
  have "prepaid_books db'" using assms(1) prepaid_books_cong [of db' db] db' by (simp add: prepaid_inv_def)
  moreover have "rows_traced U db'" using assms(1) db' by (simp add: prepaid_inv_def rows_traced_def)
  moreover have "refunds_covered (ld_topups db') (ld_refunds db')" using assms(1) slice_update_covered [OF assms(3)] db' by (simp add: prepaid_inv_def)
  ultimately show ?thesis using assms(1) db' by (simp add: prepaid_inv_def)
qed

lemma RecordPrepaidRefundProviderID_inv:
  assumes "RecordPrepaidRefundProviderID key intent rid db = Inr db'" "prepaid_inv U db"
  shows "prepaid_inv U db'"
proof -
  let ?cond = "\<lambda>r. bind_refund_id (TrimSpace key) (TrimSpace rid) r \<and> ro_intent r = TrimSpace intent"
  let ?upd = "\<lambda>r :: refund_op. r\<lparr>ro_stripe := Some (TrimSpace rid)\<rparr>"
  obtain n d where s: "set_refund ?cond ?upd db = (n, d)" by (rule prod.exhaust)
  have "slice_update (\<lambda>r. if ?cond r then ?upd r else r)" by (simp add: slice_update_def counted_def)
  then have "prepaid_inv U d" by (rule set_refund_inv [OF assms(2) s])
  moreover have "db' = d \<or> db' = db" using assms(1) s by (auto simp: RecordPrepaidRefundProviderID_def Let_def split: if_splits option.splits)
  ultimately show ?thesis using assms(2) by blast
qed

lemma CompletePrepaidRefund_inv:
  "CompletePrepaidRefund slices db = (res, db') \<Longrightarrow> prepaid_inv U db \<Longrightarrow> prepaid_inv U db'"
proof (induction slices arbitrary: db)
  case (Cons sl slices)
  let ?cond = "bind_refund_id (rs_OperationKey sl) (rs_RefundID sl)"
  let ?upd = "\<lambda>r :: refund_op. r\<lparr>ro_status := ''succeeded'', ro_stripe := Some (rs_RefundID sl)\<rparr>"
  obtain n d where s: "set_refund ?cond ?upd db = (n, d)" by (rule prod.exhaust)
  have "slice_update (\<lambda>r. if ?cond r then ?upd r else r)" by (simp add: slice_update_def counted_def bind_refund_id_def)
  then have d: "prepaid_inv U d" by (rule set_refund_inv [OF Cons.prems(2) s])
  have "db' = db \<or> CompletePrepaidRefund slices d = (res, db') \<or> CompletePrepaidRefund slices db = (res, db')"
    using Cons.prems(1) s by (auto split: if_splits option.splits)
  then show ?case using Cons.IH d Cons.prems(2) by blast
qed simp

lemma FailPrepaidRefund_inv:
  assumes run: "FailPrepaidRefund g sl db = Inr db'" and inv: "prepaid_inv U db"
  shows "prepaid_inv U db'"
proof -
  let ?key = "TrimSpace (rs_OperationKey sl)" and ?id = "TrimSpace (rs_RefundID sl)"
  let ?cond = "\<lambda>r. ro_key r = ?key \<and> ro_status r = ''pending'' \<and> ro_stripe r = Some ?id" and ?upd = "\<lambda>r :: refund_op. r\<lparr>ro_status := ''failed''\<rparr>"
  consider "db' = db" | buyer currency settle m db1 where "ParseCurrency currency = Inr settle"
      "receipt_and_credit (insertLedgerEntryIfAbsentByRefTx g (prepaid_entry KindPrepaidBalanceReturn buyer m currency
         (prepaidRefundFailureRef ?key)) db) buyer m currency = Inr db1" "snd (set_refund ?cond ?upd db1) = db'"
    using run unfolding FailPrepaidRefund_def Let_def by (auto simp: split_beta split: if_splits option.splits)
  then show ?thesis
  proof cases
    case 1
    then show ?thesis using inv by simp
  next
    case (2 buyer currency settle m db1)
    have "books_step db db1" by (rule restore_ref_step [OF 2(2) disjI2 [OF refl] 2(1)])
    then have "prepaid_inv U db1" using inv by (rule books_step_inv)
    moreover have "set_refund ?cond ?upd db1 = (fst (set_refund ?cond ?upd db1), db')" unfolding 2(3) [symmetric] by (rule prod.collapse [symmetric])
    moreover have "slice_update (\<lambda>r. if ?cond r then ?upd r else r)" by (simp add: slice_update_def counted_def)
    ultimately show ?thesis by (rule set_refund_inv)
  qed
qed

section \<open>Histories\<close>

text \<open>
  The operations on prepaid balances in any order, with the settlement currency in force at each,
  the other ledger writes and changes of the tables they read. A transaction whose body or whose
  deferred triggers fail leaves the tables as they were; the completion loop is not one transaction.
\<close>

datatype prepaid_op =
    OpBeginTopup string uuid int64
  | OpCreditTopup "unit result" string uuid ChargeResult
  | OpDebitTask uuid uuid int64
  | OpDebitContract uuid uuid int64
  | OpDebitLease uuid uuid int64
  | OpDebitSLA uuid uuid int64
  | OpRestoreContract uuid uuid string
  | OpRestoreSLA uuid uuid string int64
  | OpRestoreTask uuid uuid string
  | OpRestoreDispute uuid uuid string
  | OpBeginRefund int64 int64 string string uuid string
  | OpRecordRefund string string string
  | OpFailRefund prepaidRefundSlice
  | OpCompleteRefund "prepaidRefundSlice list"
  | OpInsert ledgerInsert
  | OpTables "job_row list" "(uuid \<times> uuid) list" "(uuid \<times> (uuid \<times> string)) list" "(uuid \<times> (uuid \<times> string)) list"

fun prepaid_body ::
    "(uuid \<Rightarrow> string) \<Rightarrow> (topup_op list \<Rightarrow> topup_op list) \<Rightarrow> (refund_op list \<Rightarrow> refund_op list) \<Rightarrow> settlement \<Rightarrow> prepaid_op \<Rightarrow>
     ledger_db \<Rightarrow> ledger_db result" where
  "prepaid_body U by_credit by_key g (OpBeginTopup key b cents) db = bind_result (BeginPrepaidTopup g key b cents db) (\<lambda>p. Inr (snd p))"
| "prepaid_body U by_credit by_key g (OpCreditTopup bound key b charge) db = CreditPrepaidTopup (\<lambda>_ _. bound) g key b charge db"
| "prepaid_body U by_credit by_key g (OpDebitTask b t a) db = debitPrepaidForTaskTx g b t a db"
| "prepaid_body U by_credit by_key g (OpDebitContract b c a) db = debitPrepaidForExecutionContractTx U g b c a db"
| "prepaid_body U by_credit by_key g (OpDebitLease b l a) db = debitPrepaidForServiceLeaseTx U g b l a db"
| "prepaid_body U by_credit by_key g (OpDebitSLA b j a) db = debitPrepaidForSLAPremiumTx U g b j a db"
| "prepaid_body U by_credit by_key g (OpRestoreContract b c currency) db = restorePrepaidForExecutionContractRefundTx U g b c currency db"
| "prepaid_body U by_credit by_key g (OpRestoreSLA b j currency a) db = restorePrepaidForSLAPremiumRefundTx U g b j currency a db"
| "prepaid_body U by_credit by_key g (OpRestoreTask b t currency) db = restorePrepaidForTaskDebitTx U g b t currency db"
| "prepaid_body U by_credit by_key g (OpRestoreDispute b j currency) db = restorePrepaidForDisputeJobTasksTx U g b j currency db"
| "prepaid_body U by_credit by_key g (OpBeginRefund res hold req act b ref) db =
     bind_result (BeginPrepaidRefund U by_credit by_key g res hold req act b ref db) (\<lambda>p. Inr (snd p))"
| "prepaid_body U by_credit by_key g (OpRecordRefund key intent refundID) db = RecordPrepaidRefundProviderID key intent refundID db"
| "prepaid_body U by_credit by_key g (OpFailRefund sl) db = FailPrepaidRefund g sl db"
| "prepaid_body U by_credit by_key g (OpCompleteRefund slices) db = Inr (snd (CompletePrepaidRefund slices db))"
| "prepaid_body U by_credit by_key g (OpInsert e) db =
     (if li_Kind e \<in> set prepaid_kinds then Inl (Msg ''prepaid rows are written here only'')
      else bind_result (insertLedgerEntryTx g e db) (\<lambda>p. Inr (snd p)))"
| "prepaid_body U by_credit by_key g (OpTables js ts cs ls) db =
     Inr (db\<lparr>ld_jobs := js, ld_tasks := ts, ld_contracts := cs, ld_leases := ls\<rparr>)"

definition prepaid_step ::
    "(uuid \<Rightarrow> string) \<Rightarrow> (topup_op list \<Rightarrow> topup_op list) \<Rightarrow> (refund_op list \<Rightarrow> refund_op list) \<Rightarrow> settlement \<times> prepaid_op \<Rightarrow>
     ledger_db \<Rightarrow> ledger_db" where
  "prepaid_step U by_credit by_key p db =
     (case bind_result (prepaid_body U by_credit by_key (fst p) (snd p) db) ledger_commit of Inl _ \<Rightarrow> db | Inr db' \<Rightarrow> db')"

definition no_prepaid :: "ledger_db \<Rightarrow> bool" where
  "no_prepaid db \<longleftrightarrow> ld_entries db = [] \<and> ld_balances db = [] \<and> ld_topups db = [] \<and> ld_refunds db = []"

lemma no_prepaid_inv: "no_prepaid db \<Longrightarrow> prepaid_inv U db"
  by (simp add: no_prepaid_def prepaid_inv_def prepaid_books_def held_balance_def balance_of_def prepaid_sum_def topups_ok_def
    rows_traced_def refunds_covered_def)

lemma other_insert_step:
  assumes "insertLedgerEntryTx g e db = Inr (n, db')" "li_Kind e \<notin> set prepaid_kinds"
  shows "books_step db db'"
proof -
  obtain e' where e': "resolveLedgerInsert g e = Inr e'" "insert_row (row_of e') db = Inr (n, db')"
    using assms(1) by (auto simp: insertLedgerEntryTx_def)
  have kind: "lr_kind (row_of e') \<notin> set prepaid_kinds" using resolve_keeps(1) [OF e'(1)] assms(2) by (simp add: row_of_def)
  have db': "db' = add_row (row_of e') db" using e'(2) by (auto simp: insert_row_def split: if_splits)
  have "prepaid_books (add_row (row_of e') db) = prepaid_books db"
    unfolding prepaid_books_def prepaid_sum_add_row held_add_row counts_for_def using kind by simp
  then show ?thesis using kind by (simp add: books_step_def db' prepaid_kinds_def)
qed

lemma tables_step: "books_step db (db\<lparr>ld_jobs := js, ld_tasks := ts, ld_contracts := cs, ld_leases := ls\<rparr>)"
  using prepaid_books_cong [of "db\<lparr>ld_jobs := js, ld_tasks := ts, ld_contracts := cs, ld_leases := ls\<rparr>" db] by (simp add: books_step_def)

lemmas debit_restore_steps = debitPrepaidForTaskTx_step debitPrepaidForExecutionContractTx_step debitPrepaidForServiceLeaseTx_step
  debitPrepaidForSLAPremiumTx_step restorePrepaidForExecutionContractRefundTx_step restorePrepaidForSLAPremiumRefundTx_step
  restorePrepaidForTaskDebitTx_step restorePrepaidForDisputeJobTasksTx_step

lemma prepaid_body_inv:
  assumes run: "prepaid_body U by_credit by_key g op db = Inr db'" and inv: "prepaid_inv U db"
    and uuid: "\<And>u v. length (U u) = length (U v)" and perm: "\<And>xs :: topup_op list. mset (by_credit xs) = mset xs"
  shows "prepaid_inv U db'"
proof (cases op)
  case (OpBeginTopup key b cents)
  then show ?thesis using run inv BeginPrepaidTopup_inv by auto
next
  case (OpBeginRefund res hold req act b ref)
  then show ?thesis using run inv BeginPrepaidRefund_inv [OF _ inv uuid perm] by auto
next
  case (OpCompleteRefund slices)
  then show ?thesis using run inv CompletePrepaidRefund_inv [of slices db] by (cases "CompletePrepaidRefund slices db") auto
next
  case (OpInsert e)
  then show ?thesis using run books_step_inv [OF other_insert_step inv] by (auto split: if_splits)
next
  case (OpTables js ts cs ls)
  then show ?thesis using run books_step_inv [OF tables_step inv] by auto
qed (use run inv in \<open>auto dest!: debit_restore_steps intro: books_step_inv CreditPrepaidTopup_inv RecordPrepaidRefundProviderID_inv FailPrepaidRefund_inv\<close>)

lemma prepaid_machine:
  assumes "\<And>u v. length (U u) = length (U v)" "\<And>xs :: topup_op list. mset (by_credit xs) = mset xs"
  shows "invariant_machine (prepaid_step U by_credit by_key) (prepaid_inv U)"
proof
  fix p db assume inv: "prepaid_inv U db"
  show "prepaid_inv U (prepaid_step U by_credit by_key p db)"
  proof (cases "bind_result (prepaid_body U by_credit by_key (fst p) (snd p) db) ledger_commit")
    case (Inr db')
    then have "prepaid_body U by_credit by_key (fst p) (snd p) db = Inr db'" by (auto simp: ledger_commit_def split: if_splits)
    then have "prepaid_inv U db'" using inv assms by (rule prepaid_body_inv)
    then show ?thesis unfolding prepaid_step_def Inr by simp
  qed (simp add: prepaid_step_def inv)
qed

lemma prepaid_history:
  assumes "no_prepaid db" "\<And>u v. length (U u) = length (U v)" "\<And>xs :: topup_op list. mset (by_credit xs) = mset xs"
  shows "prepaid_inv U (fold (prepaid_step U by_credit by_key) ops db)"
  by (rule invariant_machine.run_inv [OF prepaid_machine [OF assms(2,3)] no_prepaid_inv [OF assms(1)]])

text \<open>A replayed debit of a task finds its row, and gives back what it took.\<close>

lemma take_balance_iff:
  assumes "0 <s a"
  shows "take_balance k a db = (if held_balance db k < sint a then Inl errInsufficientPrepaid
    else Inr (set_balance k (word_of_int (held_balance db k - sint a)) (ensure_balance k db)))"
proof -
  obtain bal where bal: "balance_of (ensure_balance k db) k = Some bal" by (cases "balance_of db k") (auto simp: balance_of_ensure)
  then have held: "held_balance db k = sint bal" using held_ensure [of k db] by (metis held_balance_def option.simps(5))
  show ?thesis
  proof (cases "sint bal < sint a")
    case True
    then show ?thesis by (simp add: take_balance_def Let_def bal held sless64)
  next
    case False
    then have "in64 (sint bal - sint a)" using sint64_bounds [of bal] assms by (auto simp: in64_def sless64)
    then have v: "sint (bal - a) = sint bal - sint a" by (rule sint64_diff_in64)
    then have sub: "sql_sub bal a = Inr (bal - a)" by simp
    show ?thesis using False v
      by (simp add: take_balance_def Let_def bal held sless64 debit_balance_def sub del: bind_result_eq_Inr)
  qed
qed

lemma on_task_replay:
  assumes "insertLedgerEntryOnTaskConflictDoNothingTx g e db = Inr (n, db')" "li_TaskID e = Some t"
    "ld_entries db'' = ld_entries db'"
  shows "insertLedgerEntryOnTaskConflictDoNothingTx g e db'' = Inr (0, db'')"
proof -
  obtain e' where e': "resolveLedgerInsert g e = Inr e'" "insert_row_or_nothing ((row_of e')\<lparr>lr_contract := None\<rparr>) db = Inr (n, db')"
    using assms(1) by (auto simp: insertLedgerEntryOnTaskConflictDoNothingTx_def)
  let ?r = "(row_of e')\<lparr>lr_contract := None\<rparr>"
  have "lr_task ?r = Some t" using resolve_keeps(5) [OF e'(1)] assms(2) by (simp add: row_of_def)
  then have "list_ex (task_conflict ?r) (ld_entries db')" "row_checks ?r"
    using e'(2) unfolding insert_row_or_nothing_def by (auto simp: task_conflict_def same_key_def split: if_splits)
  then show ?thesis using e'(1) assms(3) by (simp add: insertLedgerEntryOnTaskConflictDoNothingTx_def insert_row_or_nothing_def)
qed

lemma debit_task_unfold:
  assumes "0 <s a" "task_job db t b = Some job" "ParseCurrency (jb_currency job) = Inr cur"
  shows "debitPrepaidForTaskTx g b t a db = bind_result (take_balance (b, Currency_Code cur) a db) (\<lambda>db1.
    bind_result (insertLedgerEntryOnTaskConflictDoNothingTx g
      ((prepaid_entry KindPrepaidDebit b (- a) (Currency_Code cur) [])\<lparr>li_TaskID := Some t\<rparr>) db1) (\<lambda>(n, db2).
    if n = 0 then add_balance (b, Currency_Code cur) a db2 else Inr db2))"
  using assms [unfolded not_sle_zero [symmetric]] by (simp add: debitPrepaidForTaskTx_def Let_def)

lemma add_balance_back:
  assumes "0 <s a" "0 \<le> sint v" "sint w = sint v + sint a"
  shows "add_balance k a (set_balance k v db) = Inr (set_balance k w (set_balance k v db))"
proof -
  have "sql_add v a = Inr w" using assms(3) by simp
  then show ?thesis using assms by (simp add: add_balance_def sless64 del: bind_result_eq_Inr sql_add_Inr)
qed

lemma held_in64: "in64 (held_balance db k)"
  using sint64_bounds by (simp add: held_balance_def in64_def split: option.split)

lemma task_debit_again:
  assumes first: "debitPrepaidForTaskTx g b t a db = Inr db1" and job: "task_job db t b = Some job"
    and cur: "ParseCurrency (jb_currency job) = Inr cur" and k: "k = (b, Currency_Code cur)"
  shows "if sint a \<le> held_balance db1 k
    then \<exists>db2. debitPrepaidForTaskTx g b t a db1 = Inr db2 \<and> ld_entries db2 = ld_entries db1 \<and> held_balance db2 = held_balance db1
    else debitPrepaidForTaskTx g b t a db1 = Inl errInsufficientPrepaid"
proof -
  let ?e = "(prepaid_entry KindPrepaidDebit b (- a) (Currency_Code cur) [])\<lparr>li_TaskID := Some t\<rparr>"
  have pos: "0 <s a" using first unfolding not_sle_zero [symmetric] by (auto simp: debitPrepaidForTaskTx_def)
  obtain d0 n d1 where d: "take_balance k a db = Inr d0" "insertLedgerEntryOnTaskConflictDoNothingTx g ?e d0 = Inr (n, d1)"
    "(if n = 0 then add_balance k a d1 else Inr d1) = Inr db1"
    using first unfolding debit_task_unfold [OF pos job cur] k by auto
  note m = take_balance_moves [OF d(1)]
  have d1: "ld_tasks d1 = ld_tasks d0" "ld_jobs d1 = ld_jobs d0" "balance_of d1 k \<noteq> None"
    using insert_effects [OF disjI2 [OF d(2)], of cur] moves_tables(5) [OF m] ParseCurrency_code [OF cur]
    by (auto simp: add_row_def prepaid_entry_def ledger_literal_def balance_of_def)
  have "\<exists>bs. db1 = d1\<lparr>ld_balances := bs\<rparr>"
  proof (cases "n = 0")
    case True
    then show ?thesis using d(3) d1(3) add_balance_moves [of k a d1 db1] by (simp add: moves_def)
  next
    case False
    then have "db1 = d1\<lparr>ld_balances := ld_balances d1\<rparr>" using d(3) by simp
    then show ?thesis by (rule exI)
  qed
  then have tasks: "ld_tasks db1 = ld_tasks db" "ld_jobs db1 = ld_jobs db" "ld_entries db1 = ld_entries d1"
    using d1 m by (auto simp: moves_def)
  have jobs1: "job_of db1 = job_of db" using tasks(2) by (simp add: fun_eq_iff job_of_def)
  have job1: "task_job db1 t b = Some job" using job unfolding task_job_def jobs1 tasks(1) .
  note again = debit_task_unfold [OF pos job1 cur, of g, folded k]
  show ?thesis
  proof (cases "sint a \<le> held_balance db1 k")
    case False
    then show ?thesis using again by (simp add: take_balance_iff [OF pos])
  next
    case True
    let ?v = "word_of_int (held_balance db1 k - sint a) :: int64" and ?w = "word_of_int (held_balance db1 k) :: int64"
    have "in64 (held_balance db1 k - sint a)" using held_in64 [of db1 k] True pos by (auto simp: in64_def sless64)
    then have v: "sint ?v = held_balance db1 k - sint a" "sint ?w = held_balance db1 k" by (simp_all only: sint64_of_int_in64 held_in64)
    let ?d = "set_balance k ?v (ensure_balance k db1)"
    have "insertLedgerEntryOnTaskConflictDoNothingTx g ?e ?d = Inr (0, ?d)"
      by (rule on_task_replay [OF d(2)]) (simp_all add: tasks(3) set_balance_def)
    then have run: "debitPrepaidForTaskTx g b t a db1 = Inr (set_balance k ?w ?d)"
      using again True add_balance_back [OF pos _, of ?v ?w] v by (simp add: take_balance_iff [OF pos])
    have "held_balance (set_balance k ?w ?d) = held_balance db1" by (auto simp: fun_eq_iff held_set v)
    then show ?thesis using True run by (simp add: set_balance_def)
  qed
qed

section \<open>A concrete history\<close>

text \<open>A buyer tops up five dollars, a task costs one of them, and the rest is refunded to the card.\<close>

definition demo_text :: "uuid \<Rightarrow> string" where
  "demo_text u = map (\<lambda>i. if bit u i then CHR ''1'' else CHR ''0'') [0..<128]"

definition demo_job :: job_row where
  "demo_job = \<lparr>jb_id = 5, jb_buyer = 7, jb_currency = ''usd'', jb_status = ''running'', jb_sha = [], jb_plan = None, jb_card_collected = False\<rparr>"

definition demo_ledger :: ledger_db where
  "demo_ledger = \<lparr>ld_entries = [], ld_jobs = [demo_job], ld_tasks = [(8, 5)], ld_contracts = [], ld_leases = [], ld_balances = [],
     ld_topups = [], ld_collections = [], ld_refunds = [], ld_admin = []\<rparr>"

definition demo_charge :: ChargeResult where
  "demo_charge = \<lparr>cr_PaymentIntentID = ''pi_1'', cr_ChargeID = ''ch_1'', cr_Requested = 500, cr_Received = 500, cr_ChargeCurrency = ''usd''\<rparr>"

definition demo_spending :: "(settlement \<times> prepaid_op) list" where
  "demo_spending = map (Pair demo_settlement) [OpBeginTopup ''k'' 7 500, OpCreditTopup (Inr ()) ''k'' 7 demo_charge, OpDebitTask 7 8 1000000]"

definition demo_spent :: ledger_db where
  "demo_spent = fold (prepaid_step demo_text (\<lambda>xs. xs) (\<lambda>xs. xs)) demo_spending demo_ledger"

definition demo_refund :: "settlement \<times> prepaid_op" where
  "demo_refund = (demo_settlement, OpBeginRefund 0 0 ''digest'' ''operator'' 7 ''INC-1'')"

lemma demo_hyps: "no_prepaid demo_ledger" "length (demo_text u) = length (demo_text v)"
  by (simp_all add: no_prepaid_def demo_ledger_def demo_text_def)

lemma demo_balance: "buyerPrepaidBalanceMicrosInCurrency 7 ''usd'' demo_spent = Inr 4000000"
  by code_simp

section \<open>Properties\<close>

text \<open>
  C4. After any history of top-ups, debits, restores, refunds and other ledger writes the balance
  a buyer reads in a currency is the sum of the prepaid rows of the ledger: the materialised
  balance never drifts from the books. The history starts without prepaid rows, the text of a
  UUID has a fixed length, and the query that orders the funded intents only permutes them.
\<close>

theorem prepaid_balance_backed:
  assumes "no_prepaid db0" "\<And>u v. length (U u) = length (U v)" "\<And>xs :: topup_op list. mset (by_credit xs) = mset xs"
    and db: "db = fold (prepaid_step U by_credit by_key) ops db0" and cur: "ParseCurrency currency = Inr cur"
  shows "\<exists>v. buyerPrepaidBalanceMicrosInCurrency b currency db = Inr v \<and> sint v = prepaid_sum db (b, Currency_Code cur)"
proof -
  have "prepaid_inv U db" unfolding db by (rule prepaid_history [OF assms(1-3)])
  then have "held_balance db (b, Currency_Code cur) = prepaid_sum db (b, Currency_Code cur)"
    unfolding prepaid_inv_def prepaid_books_def by blast
  then show ?thesis using cur by (auto simp: buyerPrepaidBalanceMicrosInCurrency_def held_balance_def split: option.splits)
qed

theorem prepaid_balance_backed_witness:
  "buyerPrepaidBalanceMicrosInCurrency 7 ''usd'' demo_spent = Inr 4000000 \<and> prepaid_sum demo_spent (7, ''usd'') = 4000000"
proof -
  have "ParseCurrency ''usd'' = Inr \<lparr>cur_code = ''usd'', cur_exponent = 2\<rparr>" by code_simp
  from prepaid_balance_backed [where U = demo_text, OF demo_hyps refl demo_spent_def this, of 7] show ?thesis
    using demo_balance by (auto simp: Currency_Code_def)
qed

text \<open>
  C6. Refunds are covered: after any history every refund slice is paid from a succeeded top-up of
  the same buyer and currency, and what the pending and succeeded slices of that payment intent
  return is at most what the top-up collected. Failed slices give their share back.
\<close>

theorem prepaid_refunds_covered:
  assumes "no_prepaid db0" "\<And>u v. length (U u) = length (U v)" "\<And>xs :: topup_op list. mset (by_credit xs) = mset xs"
    and db: "db = fold (prepaid_step U by_credit by_key) ops db0" and r: "r \<in> set (ld_refunds db)"
  shows "\<exists>op \<in> set (ld_topups db). funded_by r op \<and> tu_status op = ''succeeded'' \<and>
    refunded_cents (ld_refunds db) (ro_intent r) (ro_currency r) \<le> sint (tu_cents op)"
proof -
  have inv: "topups_ok (ld_topups db)" "refunds_covered (ld_topups db) (ld_refunds db)"
    using prepaid_history [where U = U and by_credit = by_credit and by_key = by_key and ops = ops, OF assms(1-3)] unfolding db prepaid_inv_def by blast+
  then obtain op where op: "op \<in> set (ld_topups db)" "funded_by r op" using r unfolding refunds_covered_def by blast
  then have i: "tu_intent op = Some (ro_intent r)" "tu_currency op = ro_currency r" by (simp_all add: funded_by_def)
  have "tu_status op = ''succeeded''" using inv(1) op(1) i(1) by (auto simp: topups_ok_def)
  moreover have "refunded_cents (ld_refunds db) (ro_intent r) (tu_currency op) \<le> sint (tu_cents op)"
    using inv(2) op(1) i(1) unfolding refunds_covered_def by blast
  ultimately show ?thesis using op i(2) by auto
qed

lemma demo_refunded: "map ro_intent (ld_refunds (prepaid_step demo_text (\<lambda>xs. xs) (\<lambda>xs. xs) demo_refund demo_spent)) = [''pi_1'']"
  "refunded_cents (ld_refunds (prepaid_step demo_text (\<lambda>xs. xs) (\<lambda>xs. xs) demo_refund demo_spent)) ''pi_1'' ''usd'' = 400"
  "map tu_cents (ld_topups (prepaid_step demo_text (\<lambda>xs. xs) (\<lambda>xs. xs) demo_refund demo_spent)) = [500]"
  by code_simp+

theorem prepaid_refunds_covered_witness:
  "let db = prepaid_step demo_text (\<lambda>xs. xs) (\<lambda>xs. xs) demo_refund demo_spent in
     map ro_intent (ld_refunds db) = [''pi_1''] \<and> (\<exists>op. op \<in> set (ld_topups db) \<and> funded_by (hd (ld_refunds db)) op \<and>
       refunded_cents (ld_refunds db) (ro_intent (hd (ld_refunds db))) (ro_currency (hd (ld_refunds db))) \<le> sint (tu_cents op))"
proof -
  let ?db = "prepaid_step demo_text (\<lambda>xs. xs) (\<lambda>xs. xs) demo_refund demo_spent"
  have db: "?db = fold (prepaid_step demo_text (\<lambda>xs. xs) (\<lambda>xs. xs)) (demo_spending @ [demo_refund]) demo_ledger" by (simp add: demo_spent_def)
  have "hd (ld_refunds ?db) \<in> set (ld_refunds ?db)" using demo_refunded(1) by (cases "ld_refunds ?db") auto
  from prepaid_refunds_covered [where U = demo_text, OF demo_hyps refl db this] show ?thesis using demo_refunded(1) unfolding Let_def by blast
qed


text \<open>
  C20. A new refund is exact: the slices it hands to the card rails add up to the cents it reports,
  and the buyer's balance in the settlement currency falls by just those cents in micros, whatever
  open exposure the query reported.
\<close>

theorem refund_plan_exact:
  assumes run: "BeginPrepaidRefund U by_credit by_key g res hold req act b ref db = Inr (plan, db')" and inv: "prepaid_inv U db"
    and fresh: "map_of (ld_admin db) (TrimSpace ref) = None" and settle: "SettlementCurrency g = Inr settle"
    and uuid: "\<And>u v. length (U u) = length (U v)" and perm: "\<And>xs :: topup_op list. mset (by_credit xs) = mset xs"
  shows "sum_list (map (\<lambda>s. sint (rs_Cents s)) (rp_Slices plan)) = sint (rp_Cents plan) \<and> 0 < sint (rp_Cents plan) \<and>
    held_balance db' (b, Currency_Code settle) = held_balance db (b, Currency_Code settle) - sint (rp_Cents plan) * 10 ^ nat (6 - cur_exponent settle)"
proof -
  let ?k = "(b, Currency_Code settle)"
  have "refund_new U by_credit g res hold req act b (TrimSpace ref) db = Inr (plan, db')" using run fresh by (simp add: BeginPrepaidRefund_def)
  then obtain cents where c: "0 <s cents" "refund_commit U by_credit g settle cents (req, act) b (TrimSpace ref) (ensure_balance ?k db) = Inr (plan, db')"
    using settle by (auto elim: refund_new_runs)
  have "TrimSpace (TrimSpace ref) \<notin> fst ` set (ld_admin (ensure_balance ?k db))" using fresh by (simp add: map_of_eq_None_iff)
  note plan = refund_commit_inv [OF c(2) books_step_inv [OF ensure_step inv] c(1) this TrimSpace_idem uuid perm]
  obtain m slices db1 n db2 where 1: "MinorToMicros settle cents = Inr m" "debit_balance ?k m (ensure_balance ?k db) = Inr (1, db1)"
    "insertLedgerEntryIfAbsentByRefTx g (prepaid_entry KindPrepaidRefund b (- m) (Currency_Code settle) (prepaidRefundOperationKey U b (TrimSpace ref))) db1 = Inr (n, db2)"
    "db' = db2\<lparr>ld_refunds := ld_refunds db2 @ map (slice_row (prepaidRefundOperationKey U b (TrimSpace ref)) b) slices,
       ld_admin := ld_admin db2 @ [(TrimSpace ref, (req, act))]\<rparr>"
    by (rule refund_commit_runs [OF c(2)])
  have m: "sint m = sint cents * 10 ^ nat (6 - cur_exponent settle)" "Currency_Valid settle" using 1(1) by (simp_all add: MinorToMicros_exact)
  have "held_balance db' = held_balance db2" by (rule held_cong) (simp add: 1(4))
  moreover have "held_balance db2 = held_balance db1"
    using insert_effects [OF disjI1 [OF 1(3)], of settle] valid_code [OF m(2)] by (auto simp: prepaid_entry_def ledger_literal_def)
  ultimately have "held_balance db' ?k = held_balance db ?k - sint m"
    using moves_held [OF debit_balance_moves [OF 1(2) refl], of ?k] by simp
  then show ?thesis using plan c(1) m(1) by (simp add: sless64)
qed

definition demo_plan :: "prepaidRefundPlan \<times> ledger_db" where
  "demo_plan = projr (BeginPrepaidRefund demo_text (\<lambda>xs. xs) (\<lambda>xs. xs) demo_settlement 0 0 ''digest'' ''operator'' 7 ''INC-1'' demo_spent)"

theorem refund_plan_exact_witness:
  "rp_Cents (fst demo_plan) = 400 \<and> held_balance (snd demo_plan) (7, ''usd'') = held_balance demo_spent (7, ''usd'') - 4000000"
proof -
  let ?run = "BeginPrepaidRefund demo_text (\<lambda>xs. xs) (\<lambda>xs. xs) demo_settlement 0 0 ''digest'' ''operator'' 7 ''INC-1'' demo_spent"
  have cents: "rp_Cents (fst demo_plan) = 400" by code_simp
  have "isOK ?run" by code_simp
  then have run: "?run = Inr (fst demo_plan, snd demo_plan)" by (simp add: demo_plan_def isOK_def split: sum.splits)
  have "prepaid_inv demo_text demo_spent" unfolding demo_spent_def by (rule prepaid_history [OF demo_hyps refl])
  moreover have "map_of (ld_admin demo_spent) (TrimSpace ''INC-1'') = None" by code_simp
  moreover have "SettlementCurrency demo_settlement = Inr \<lparr>cur_code = ''usd'', cur_exponent = 2\<rparr>" by code_simp
  ultimately show ?thesis using refund_plan_exact [OF run _ _ _ demo_hyps(2) refl] cents by (simp add: Currency_Code_def)
qed

text \<open>
  C21. A replay of the prepaid debit of a task takes nothing a second time: when the remaining balance
  still covers the amount it succeeds, adds no row and leaves every balance as it was. When the
  remaining balance is smaller the replay fails with \<^verbatim>\<open>errInsufficientPrepaid\<close>, although the debit is
  on the books, because the balance is checked before the row is looked up.
\<close>

theorem task_debit_replay:
  assumes "debitPrepaidForTaskTx g b t a db = Inr db1" "task_job db t b = Some job"
    and "ParseCurrency (jb_currency job) = Inr cur"
  shows "if sint a \<le> held_balance db1 (b, Currency_Code cur)
    then \<exists>db2. debitPrepaidForTaskTx g b t a db1 = Inr db2 \<and> ld_entries db2 = ld_entries db1 \<and> held_balance db2 = held_balance db1
    else debitPrepaidForTaskTx g b t a db1 = Inl errInsufficientPrepaid"
  by (rule task_debit_again [OF assms refl])

definition demo_topped :: ledger_db where
  "demo_topped = fold (prepaid_step demo_text (\<lambda>xs. xs) (\<lambda>xs. xs)) (take 2 demo_spending) demo_ledger"

theorem task_debit_replay_witness:
  "isOK (debitPrepaidForTaskTx demo_settlement 7 8 3000000 demo_topped) \<and>
   debitPrepaidForTaskTx demo_settlement 7 8 3000000 (projr (debitPrepaidForTaskTx demo_settlement 7 8 3000000 demo_topped)) = Inl errInsufficientPrepaid"
proof -
  let ?run = "debitPrepaidForTaskTx demo_settlement 7 8 3000000 demo_topped"
  have ok: "isOK ?run" by code_simp
  then have run: "?run = Inr (projr ?run)" by (simp add: isOK_def split: sum.splits)
  have "task_job demo_topped 8 7 = Some demo_job" "ParseCurrency (jb_currency demo_job) = Inr \<lparr>cur_code = ''usd'', cur_exponent = 2\<rparr>" by code_simp+
  moreover have "held_balance (projr ?run) (7, ''usd'') = 2000000" by code_simp
  ultimately show ?thesis using task_debit_replay [OF run] ok by (simp add: Currency_Code_def)
qed

end
