(* ===== verification/Service_Lease.thy ===== *)
theory Service_Lease
  imports Execution_Envelope
begin

text \<open>
  Reserved warm capacity: the pricing authority of \<^verbatim>\<open>service_lease_pricing.go\<close>, and from
  \<^verbatim>\<open>service_leases.go\<close> the meter, the worker heartbeat and the loss of a worker, over the lease row
  and its append-only metering tables.

  Times are nanoseconds. A \<^verbatim>\<open>timestamptz\<close> column keeps microseconds, so a time that is written
  comes back as \<^verbatim>\<open>pgTime t\<close>, an argument. A function that returns an error rolls its transaction
  back. The \<^verbatim>\<open>CHECK\<close> constraints of the tables follow from the guards modelled here.
\<close>

section \<open>Pricing\<close>

definition pricingExecutionServiceLease :: string where "pricingExecutionServiceLease = ''service_lease''"
definition serviceLeasePricingAuthorityLegacyVersion :: int where "serviceLeasePricingAuthorityLegacyVersion = 1"
definition serviceLeasePricingAuthorityVersion :: int where "serviceLeasePricingAuthorityVersion = 2"
definition currentServiceLeasePricingCurrency :: string where "currentServiceLeasePricingCurrency = ''usd''"
definition serviceLeasePricingRoundingPolicy :: string where "serviceLeasePricingRoundingPolicy = ''service-lease-replica-nanos-v1''"
definition serviceLeaseMaximumTermSeconds :: int64 where "serviceLeaseMaximumTermSeconds = 7 * 24 * 60 * 60"

lemmas lease_versions = serviceLeasePricingAuthorityLegacyVersion_def serviceLeasePricingAuthorityVersion_def

definition validateCurrentServiceLeaseCurrency :: "settlement \<Rightarrow> string \<Rightarrow> Currency result" where
  "validateCurrentServiceLeaseCurrency g raw =
     (case ParseCurrency raw of
        Inl _ \<Rightarrow> Inl (Msg ''service lease currency must be a supported canonical ISO code'')
      | Inr currency \<Rightarrow>
          if Currency_Code currency \<noteq> raw
          then Inl (Msg ''service lease currency must be a supported canonical ISO code'')
          else if Currency_Code currency \<noteq> currentServiceLeasePricingCurrency
          then Inl (Msg ''service lease pricing supports new usd authority only'')
          else case RequireSettlementCurrency g (Currency_Code currency) of
              Inl e \<Rightarrow> Inl (Wrap ''service lease currency is not this deployment's settlement currency'' e)
            | Inr _ \<Rightarrow> Inr currency)"

record ServiceLeasePricingAuthority =
  sp_Version :: int
  sp_Currency :: string
  sp_RuntimeProfileID :: string
  sp_RuntimeProfileSHA256 :: string
  sp_Region :: string
  sp_MinimumReplicas :: int64
  sp_MaximumReplicas :: int64
  sp_TermSeconds :: int64
  sp_MaximumP95LatencyMilliseconds :: int64
  sp_MaximumP99LatencyMilliseconds :: int64
  sp_SupplierNanosPerReplicaHour :: int64
  sp_ResidencyNanosPerReplicaHour :: int64
  sp_ControlPlaneNanosPerReplicaHour :: int64
  sp_RiskReserveNanosPerReplicaHour :: int64
  sp_ContributionNanosPerReplicaHour :: int64
  sp_RoundingPolicy :: string

record ServiceLeaseMoney =
  sm_BuyerCharge :: MoneyNanos
  sm_SupplierPayable :: MoneyNanos
  sm_ResidencyCost :: MoneyNanos
  sm_ControlPlaneCost :: MoneyNanos
  sm_RiskReserve :: MoneyNanos
  sm_MercContribution :: MoneyNanos

definition validateServiceLeasePricingAuthority :: "ServiceLeasePricingAuthority \<Rightarrow> string \<Rightarrow> unit result" where
  "validateServiceLeasePricingAuthority a currency =
     (if (sp_Version a \<noteq> serviceLeasePricingAuthorityLegacyVersion \<and> sp_Version a \<noteq> serviceLeasePricingAuthorityVersion) \<or>
        sp_Currency a \<noteq> currency \<or> sp_RoundingPolicy a \<noteq> serviceLeasePricingRoundingPolicy
      then Inl (Msg ''unsupported version, currency, or rounding policy'')
      else if sp_RuntimeProfileID a = [] \<or> \<not> validSHA256 (sp_RuntimeProfileSHA256 a) \<or> sp_Region a = [] \<or>
        sp_MinimumReplicas a <s 1 \<or> sp_MaximumReplicas a <s sp_MinimumReplicas a \<or>
        sp_TermSeconds a <s 60 \<or> serviceLeaseMaximumTermSeconds <s sp_TermSeconds a \<or>
        sp_MaximumP95LatencyMilliseconds a <s 1 \<or> sp_MaximumP99LatencyMilliseconds a <s 0
      then Inl (Msg ''invalid workload or capacity bounds'')
      else if list_ex (\<lambda>rate. rate \<le>s 0) [sp_SupplierNanosPerReplicaHour a, sp_ResidencyNanosPerReplicaHour a,
        sp_ControlPlaneNanosPerReplicaHour a, sp_ContributionNanosPerReplicaHour a]
      then Inl (Msg ''must be a positive exact hourly rate'')
      else if sp_Version a = serviceLeasePricingAuthorityLegacyVersion then
        (if sp_RiskReserveNanosPerReplicaHour a \<le>s 0
         then Inl (Msg ''historical service lease risk reserve must retain its positive accepted rate'') else Inr ())
      else if sp_RiskReserveNanosPerReplicaHour a \<noteq> 0
      then Inl (Msg ''current service lease pricing may not charge an unimplemented risk reserve'')
      else Inr ())"

definition serviceLeaseComponent :: "Currency \<Rightarrow> int64 \<Rightarrow> int64 \<Rightarrow> MoneyNanos result" where
  "serviceLeaseComponent c rate replicaDurationNanos =
     (if rate \<le>s 0 \<or> replicaDurationNanos \<le>s 0
      then Inl (Msg ''service lease rate and aggregate replica duration must be positive'')
      else bind_result (mulDiv rate replicaDurationNanos nanosecondsPerHour True) (NewMoneyNanos c))"

text \<open>The errors of the additions end in the same message as a charge without a contribution.\<close>

definition lease_sums ::
    "ServiceLeasePricingAuthority \<Rightarrow> MoneyNanos \<Rightarrow> MoneyNanos \<Rightarrow> MoneyNanos \<Rightarrow> MoneyNanos \<Rightarrow> MoneyNanos \<Rightarrow> (MoneyNanos \<times> MoneyNanos) result" where
  "lease_sums a supplier residency control risk contribution =
     (let legacy = (sp_Version a = serviceLeasePricingAuthorityLegacyVersion) in
      bind_result (if sp_Version a = serviceLeasePricingAuthorityVersion then MoneyNanos_Add supplier residency else Inr supplier) (\<lambda>supplierPayable.
      bind_result (if legacy then MoneyNanos_Add supplierPayable residency else Inr supplierPayable) (\<lambda>buyer.
      bind_result (MoneyNanos_Add buyer control) (\<lambda>buyer.
      bind_result (if legacy then MoneyNanos_Add buyer risk else Inr buyer) (\<lambda>buyer.
      bind_result (MoneyNanos_Add buyer contribution) (\<lambda>buyer. Inr (supplierPayable, buyer)))))))"

definition ServiceLeaseMoneyForReplicaDuration ::
    "Currency \<Rightarrow> ServiceLeasePricingAuthority \<Rightarrow> int64 \<Rightarrow> ServiceLeaseMoney result" where
  "ServiceLeaseMoneyForReplicaDuration c authority replicaDurationNanos =
     bind_result (validateServiceLeasePricingAuthority authority (Currency_Code c)) (\<lambda>_.
     bind_result (serviceLeaseComponent c (sp_SupplierNanosPerReplicaHour authority) replicaDurationNanos) (\<lambda>supplier.
     bind_result (serviceLeaseComponent c (sp_ResidencyNanosPerReplicaHour authority) replicaDurationNanos) (\<lambda>residency.
     bind_result (serviceLeaseComponent c (sp_ControlPlaneNanosPerReplicaHour authority) replicaDurationNanos) (\<lambda>control.
     bind_result (NewMoneyNanos c 0) (\<lambda>noRisk.
     bind_result (if sp_Version authority = serviceLeasePricingAuthorityLegacyVersion
       then serviceLeaseComponent c (sp_RiskReserveNanosPerReplicaHour authority) replicaDurationNanos else Inr noRisk) (\<lambda>risk.
     bind_result (serviceLeaseComponent c (sp_ContributionNanosPerReplicaHour authority) replicaDurationNanos) (\<lambda>contribution.
     case lease_sums authority supplier residency control risk contribution of
       Inl _ \<Rightarrow> Inl (Msg ''service lease buyer charge lacks positive conserved Merc contribution'')
     | Inr (supplierPayable, buyer) \<Rightarrow>
         if mn_nanos buyer \<le>s mn_nanos supplierPayable
         then Inl (Msg ''service lease buyer charge lacks positive conserved Merc contribution'')
         else Inr \<lparr>sm_BuyerCharge = buyer, sm_SupplierPayable = supplierPayable, sm_ResidencyCost = residency,
           sm_ControlPlaneCost = control, sm_RiskReserve = risk, sm_MercContribution = contribution\<rparr>)))))))"

definition serviceLeaseMaximumReplicaDuration :: "ServiceLeasePricingAuthority \<Rightarrow> int64 result" where
  "serviceLeaseMaximumReplicaDuration a = mulDiv (sp_MaximumReplicas a) (sp_TermSeconds a) 1 False"

section \<open>The lease row\<close>

text \<open>Of a \<^verbatim>\<open>PricingDecision\<close>, the fields the lease operations read; the ceiling is absent with \<^verbatim>\<open>FixedPoint\<close>.\<close>

record PricingDecision =
  pd_ExecutionMode :: string
  pd_Currency :: string
  pd_ServiceLease :: "ServiceLeasePricingAuthority option"
  pd_AcceptedCeilingNanos :: "int64 option"

record ServiceLease =
  sl_ID :: uuid
  sl_BuyerID :: uuid
  sl_WorkerID :: uuid
  sl_SupplierID :: uuid
  sl_RuntimeProfileID :: string
  sl_RuntimeProfileSHA256 :: string
  sl_Region :: string
  sl_MinimumReplicas :: int64
  sl_MaximumReplicas :: int64
  sl_MaximumP95LatencyMillis :: int64
  sl_MaximumP99LatencyMillis :: int64
  sl_TermSeconds :: int64
  sl_State :: string
  sl_ActiveReplicas :: int64
  sl_UpgradeGeneration :: string
  sl_ReservedBuyerMicros :: int64
  sl_PricingAcceptanceID :: "uuid option"
  sl_Pricing :: PricingDecision
  sl_PricingDecisionSHA256 :: string
  sl_ExpiresAt :: int
  sl_LastMeteredAt :: int
  sl_LastWorkerHeartbeatAt :: int
  sl_CumulativeReplicaNanos :: int64
  sl_BuyerChargeNanos :: int64
  sl_SupplierPayableNanos :: int64
  sl_KnownVariableCostNanos :: int64
  sl_KnownContributionNanos :: int64

definition validateServiceLeaseAcceptedPricingBinding :: "ServiceLease \<Rightarrow> unit result" where
  "validateServiceLeaseAcceptedPricingBinding lease =
     (case (pd_ServiceLease (sl_Pricing lease), pd_AcceptedCeilingNanos (sl_Pricing lease)) of
        (Some authority, Some ceiling') \<Rightarrow>
          if sp_RuntimeProfileID authority \<noteq> sl_RuntimeProfileID lease \<or>
            sp_RuntimeProfileSHA256 authority \<noteq> sl_RuntimeProfileSHA256 lease \<or> sp_Region authority \<noteq> sl_Region lease \<or>
            sp_MinimumReplicas authority \<noteq> sl_MinimumReplicas lease \<or> sp_MaximumReplicas authority \<noteq> sl_MaximumReplicas lease \<or>
            sp_TermSeconds authority \<noteq> sl_TermSeconds lease \<or>
            sp_MaximumP95LatencyMilliseconds authority \<noteq> sl_MaximumP95LatencyMillis lease \<or>
            sp_MaximumP99LatencyMilliseconds authority \<noteq> sl_MaximumP99LatencyMillis lease
          then Inl (Msg ''service lease row differs from its accepted pricing authority'')
          else if sl_PricingAcceptanceID lease \<noteq> None \<and> sl_PricingAcceptanceID lease \<noteq> Some (sl_ID lease)
          then Inl (Msg ''service lease pricing acceptance reference differs from lease identity'')
          else if sl_PricingAcceptanceID lease \<noteq> None \<and> sl_ReservedBuyerMicros lease \<le>s 0
          then Inl (Msg ''accepted service lease must retain a positive prepaid reservation'')
          else if 0 <s sl_ReservedBuyerMicros lease then
            bind_result (ParseCurrency (pd_Currency (sl_Pricing lease))) (\<lambda>currency.
              case LedgerMicrosFromNanos \<lparr>mn_currency = currency, mn_nanos = ceiling'\<rparr> of
                Inl _ \<Rightarrow> Inl (Msg ''service lease prepaid reservation differs from accepted pricing ceiling'')
              | Inr reserved \<Rightarrow>
                  if reserved \<noteq> sl_ReservedBuyerMicros lease
                  then Inl (Msg ''service lease prepaid reservation differs from accepted pricing ceiling'') else Inr ())
          else Inr ()
      | _ \<Rightarrow> Inl (Msg ''service lease lacks accepted pricing authority''))"

text \<open>The digest of the canonical JSON and the cost-shape check of a pricing decision are arguments.\<close>

record lease_deps =
  pricingDecisionDigest :: "PricingDecision \<Rightarrow> string result"
  validatePricingCostShape :: "PricingDecision \<Rightarrow> unit result"

definition decodeServiceLeasePricing :: "lease_deps \<Rightarrow> PricingDecision \<Rightarrow> string \<Rightarrow> PricingDecision result" where
  "decodeServiceLeasePricing D pricing digest =
     (if pricingDecisionDigest D pricing \<noteq> Inr digest \<or> pd_ExecutionMode pricing \<noteq> pricingExecutionServiceLease \<or>
        pd_ServiceLease pricing = None
      then Inl (Msg ''service lease pricing authority digest is invalid'')
      else bind_result (validatePricingCostShape D pricing) (\<lambda>_. Inr pricing))"

definition scanServiceLease :: "lease_deps \<Rightarrow> ServiceLease \<Rightarrow> ServiceLease result" where
  "scanServiceLease D row =
     bind_result (decodeServiceLeasePricing D (sl_Pricing row) (sl_PricingDecisionSHA256 row)) (\<lambda>_.
     bind_result (validateServiceLeaseAcceptedPricingBinding row) (\<lambda>_. Inr row))"

section \<open>Metering\<close>

record metering =
  mt_LeaseID :: uuid
  mt_Sequence :: int
  mt_MeteredAt :: int
  mt_CumulativeReplicaNanos :: int64
  mt_BuyerChargeNanos :: int64
  mt_SupplierPayableNanos :: int64
  mt_KnownVariableCostNanos :: int64
  mt_KnownContributionNanos :: int64

record supplier_metering =
  su_LeaseID :: uuid
  su_Sequence :: int
  su_SupplierID :: uuid
  su_SupplierPayableDeltaNanos :: int64

record lease_db =
  lb_meterings :: "metering list"
  lb_supplier :: "supplier_metering list"
  lb_events :: "(uuid \<times> string) list"

text \<open>\<^verbatim>\<open>time.Time.Sub\<close> saturates at the range of a \<^verbatim>\<open>Duration\<close>.\<close>

definition time_Sub :: "int \<Rightarrow> int \<Rightarrow> int64" where
  "time_Sub t u = word_of_int (max minInt64 (min maxInt64 (t - u)))"

definition serviceLeaseKnownVariableNanos :: "ServiceLeasePricingAuthority \<Rightarrow> ServiceLeaseMoney \<Rightarrow> int64 result" where
  "serviceLeaseKnownVariableNanos authority money =
     (if sp_Version authority = serviceLeasePricingAuthorityVersion then Inr (mn_nanos (sm_ControlPlaneCost money))
      else let variable = mn_nanos (sm_ResidencyCost money) + mn_nanos (sm_ControlPlaneCost money) + mn_nanos (sm_RiskReserve money) in
        if variable <s mn_nanos (sm_ResidencyCost money) \<or> variable <s mn_nanos (sm_ControlPlaneCost money)
        then Inl (Msg ''historical service lease variable cost overflow'') else Inr variable)"

definition next_sequence :: "uuid \<Rightarrow> lease_db \<Rightarrow> int" where
  "next_sequence leaseID db =
     fold max (map mt_Sequence (filter (\<lambda>m. mt_LeaseID m = leaseID) (lb_meterings db))) 0 + 1"

definition lease_price :: "ServiceLease \<Rightarrow> (ServiceLeaseMoney \<times> int64) result" where
  "lease_price lease =
     (case (MustParseCurrency (pd_Currency (sl_Pricing lease)), pd_ServiceLease (sl_Pricing lease),
        pd_AcceptedCeilingNanos (sl_Pricing lease)) of
        (Some c, Some authority, Some ceiling') \<Rightarrow>
          bind_result (ServiceLeaseMoneyForReplicaDuration c authority (sl_CumulativeReplicaNanos lease)) (\<lambda>money.
          case serviceLeaseKnownVariableNanos authority money of
            Inl _ \<Rightarrow> Inl (Msg ''service lease meter violates reserved ceiling or exact cost bounds'')
          | Inr variable \<Rightarrow>
              if ceiling' <s mn_nanos (sm_BuyerCharge money)
              then Inl (Msg ''service lease meter violates reserved ceiling or exact cost bounds'')
              else Inr (money, variable))
      | _ \<Rightarrow> Inl (Sentinel ''panic''))"

definition record_meter ::
    "int \<Rightarrow> ServiceLease \<Rightarrow> ServiceLeaseMoney \<Rightarrow> int64 \<Rightarrow> lease_db \<Rightarrow> (ServiceLease \<times> lease_db) result" where
  "record_meter meteredAt lease money variable db =
     (let sequence = next_sequence (sl_ID lease) db;
          db1 = db\<lparr>lb_meterings := lb_meterings db @ [\<lparr>mt_LeaseID = sl_ID lease, mt_Sequence = sequence, mt_MeteredAt = meteredAt,
            mt_CumulativeReplicaNanos = sl_CumulativeReplicaNanos lease, mt_BuyerChargeNanos = mn_nanos (sm_BuyerCharge money),
            mt_SupplierPayableNanos = mn_nanos (sm_SupplierPayable money), mt_KnownVariableCostNanos = variable,
            mt_KnownContributionNanos = mn_nanos (sm_MercContribution money)\<rparr>]\<rparr>;
          supplierDelta = mn_nanos (sm_SupplierPayable money) - sl_SupplierPayableNanos lease
      in if supplierDelta <s 0 then Inl (Msg ''service lease supplier payable moved backward'')
         else Inr (lease\<lparr>sl_LastMeteredAt := meteredAt, sl_BuyerChargeNanos := mn_nanos (sm_BuyerCharge money),
             sl_SupplierPayableNanos := mn_nanos (sm_SupplierPayable money), sl_KnownVariableCostNanos := variable,
             sl_KnownContributionNanos := mn_nanos (sm_MercContribution money)\<rparr>,
           db1\<lparr>lb_supplier := lb_supplier db @ [\<lparr>su_LeaseID = sl_ID lease, su_Sequence = sequence,
               su_SupplierID = sl_SupplierID lease, su_SupplierPayableDeltaNanos = supplierDelta\<rparr>],
             lb_events := lb_events db @ [(sl_ID lease, ''METERED'')]\<rparr>))"

definition meter_add :: "int \<Rightarrow> ServiceLease \<Rightarrow> int64 \<Rightarrow> lease_db \<Rightarrow> (ServiceLease \<times> lease_db) result" where
  "meter_add meteredAt lease add db =
     (if add <s 0 \<or> word_of_int maxInt64 - add <s sl_CumulativeReplicaNanos lease
      then Inl (Msg ''service lease replica-time overflow'')
      else let lease1 = lease\<lparr>sl_CumulativeReplicaNanos := sl_CumulativeReplicaNanos lease + add\<rparr> in
        if sl_CumulativeReplicaNanos lease1 \<le>s 0 then Inr (lease1\<lparr>sl_LastMeteredAt := meteredAt\<rparr>, db)
        else bind_result (lease_price lease1) (\<lambda>(money, variable). record_meter meteredAt lease1 money variable db))"

definition meterServiceLeaseTx :: "int \<Rightarrow> ServiceLease \<Rightarrow> lease_db \<Rightarrow> (ServiceLease \<times> lease_db) result" where
  "meterServiceLeaseTx at0 lease db =
     (if at0 < sl_LastMeteredAt lease then Inl (Msg ''service lease meter time moved backward'')
      else let meteredAt = (if sl_ExpiresAt lease < at0 then sl_ExpiresAt lease else at0) in
      if \<not> sl_LastMeteredAt lease < meteredAt then Inr (lease, db)
      else case mulDiv (sl_ActiveReplicas lease) (time_Sub meteredAt (sl_LastMeteredAt lease)) 1 False of
          Inl _ \<Rightarrow> Inl (Msg ''service lease replica-time overflow'')
        | Inr add \<Rightarrow> meter_add meteredAt lease add db)"

section \<open>Heartbeats and lost workers\<close>

record WorkerAuth =
  wa_WorkerID :: uuid
  wa_SupplierID :: uuid

record ServiceLeaseHeartbeat =
  hb_WarmReplicas :: int64
  hb_P95LatencyMillis :: int64
  hb_P99LatencyMillis :: int64
  hb_LatencyMeasurementCount :: int64
  hb_LatencyWindowSeconds :: int64
  hb_LatencyMeasurementKind :: string
  hb_DataPlaneProbeReceiptSHA256 :: string
  hb_Status :: string
  hb_UpgradeGeneration :: string

definition MinimumReplicasIsOneOrMore :: "ServiceLeasePricingAuthority \<Rightarrow> bool" where
  "MinimumReplicasIsOneOrMore a \<longleftrightarrow> 1 \<le>s sp_MinimumReplicas a"

definition heartbeat_valid :: "uuid \<Rightarrow> ServiceLeaseHeartbeat \<Rightarrow> unit result" where
  "heartbeat_valid leaseID hb =
     (if leaseID = uuid_Nil \<or> hb_WarmReplicas hb <s 0 \<or> hb_P95LatencyMillis hb <s 0 \<or> hb_P99LatencyMillis hb <s 0 \<or>
        hb_LatencyMeasurementCount hb <s 0 \<or> hb_LatencyWindowSeconds hb <s 0
      then Inl (Msg ''invalid service lease heartbeat'')
      else if hb_Status hb \<notin> set [''READY'', ''DRAINING'', ''FAILED'']
      then Inl (Msg ''invalid service lease heartbeat status'') else Inr ())"

definition heartbeat_slo :: "ServiceLease \<Rightarrow> ServiceLeaseHeartbeat \<Rightarrow> unit result" where
  "heartbeat_slo lease hb =
     (let ready = (hb_Status hb = ''READY'') in
      if ready \<and> (hb_WarmReplicas hb <s sl_MinimumReplicas lease \<or> sl_MaximumReplicas lease <s hb_WarmReplicas hb \<or>
        sl_MaximumP95LatencyMillis lease <s hb_P95LatencyMillis hb)
      then Inl (Msg ''service lease heartbeat violates reserved replica or latency SLO'')
      else if ready \<and> 0 <s sl_MaximumP99LatencyMillis lease \<and>
        (hb_P99LatencyMillis hb \<le>s 0 \<or> sl_MaximumP99LatencyMillis lease <s hb_P99LatencyMillis hb)
      then Inl (Msg ''service lease heartbeat violates reserved p99 latency SLO'')
      else if ready \<and> (hb_LatencyMeasurementKind hb \<noteq> ''DATA_PLANE_COMPLETIONS_V1'' \<or> hb_LatencyMeasurementCount hb <s 5 \<or>
        hb_LatencyWindowSeconds hb <s 1 \<or> 300 <s hb_LatencyWindowSeconds hb)
      then Inl (Msg ''ready service lease heartbeat requires a recent five-sample data-plane latency measurement'')
      else if ready \<and> \<not> validSHA256 (hb_DataPlaneProbeReceiptSHA256 hb)
      then Inl (Msg ''ready service lease heartbeat requires the bounded data-plane probe receipt digest'')
      else if \<not> ready \<and> hb_DataPlaneProbeReceiptSHA256 hb \<noteq> []
      then Inl (Msg ''only a ready service lease heartbeat may carry a data-plane probe receipt digest'')
      else Inr ())"

text \<open>The next state and replica count, with the events that go with them.\<close>

definition heartbeat_next :: "ServiceLease \<Rightarrow> ServiceLeaseHeartbeat \<Rightarrow> (string \<times> int64 \<times> string list) result" where
  "heartbeat_next lease hb =
     (if hb_Status hb = ''READY'' then
        (if sl_State lease = ''UPGRADING'' then
           (if hb_UpgradeGeneration hb = [] \<or> hb_UpgradeGeneration hb = sl_UpgradeGeneration lease
            then Inl (Msg ''rolling upgrade completion requires a new generation'')
            else Inr (''ACTIVE'', hb_WarmReplicas hb, [''SLO_MEASURED'', ''ROLLING_UPDATE_COMPLETED'']))
         else Inr (sl_State lease, hb_WarmReplicas hb, [''SLO_MEASURED'']))
      else if hb_Status hb = ''DRAINING'' then
        (case pd_ServiceLease (sl_Pricing lease) of
           None \<Rightarrow> Inl (Sentinel ''panic'')
         | Some authority \<Rightarrow>
             if \<not> MinimumReplicasIsOneOrMore authority \<or> hb_UpgradeGeneration hb = []
             then Inl (Msg ''rolling update requires a non-empty generation'')
             else Inr (''UPGRADING'', sl_MinimumReplicas lease, [''ROLLING_UPDATE_STARTED'']))
      else Inr (''FAILOVER_REQUIRED'', 0, [''WORKER_LOSS'']))"

definition log_events :: "uuid \<Rightarrow> string list \<Rightarrow> lease_db \<Rightarrow> lease_db" where
  "log_events leaseID kinds db = db\<lparr>lb_events := lb_events db @ map (\<lambda>k. (leaseID, k)) kinds\<rparr>"

text \<open>The row found for the lease id, if any, and its metering tables, before and after.\<close>

definition HeartbeatServiceLease ::
    "lease_deps \<Rightarrow> (int \<Rightarrow> int) \<Rightarrow> WorkerAuth \<Rightarrow> uuid \<Rightarrow> ServiceLeaseHeartbeat \<Rightarrow> int \<Rightarrow>
     ServiceLease option \<Rightarrow> lease_db \<Rightarrow> (ServiceLease \<times> lease_db) result" where
  "HeartbeatServiceLease D pgTime auth leaseID hb now row db =
     bind_result (heartbeat_valid leaseID hb) (\<lambda>_.
     case row of None \<Rightarrow> Inl (Sentinel ''errNotFound'') | Some r \<Rightarrow>
     bind_result (scanServiceLease D r) (\<lambda>lease.
     if sl_WorkerID lease \<noteq> wa_WorkerID auth \<or> sl_SupplierID lease \<noteq> wa_SupplierID auth \<or>
       sl_State lease = ''COMPLETED'' \<or> sl_State lease = ''CANCELLED''
     then Inl (Msg ''worker is not authorized to meter this active service lease'')
     else bind_result (meterServiceLeaseTx now lease db) (\<lambda>(lease1, db1).
     bind_result (heartbeat_slo lease1 hb) (\<lambda>_.
     bind_result (heartbeat_next lease1 hb) (\<lambda>(nextState, nextReplicas, kinds).
       Inr (lease1\<lparr>sl_State := nextState, sl_ActiveReplicas := nextReplicas, sl_UpgradeGeneration := hb_UpgradeGeneration hb,
              sl_LastWorkerHeartbeatAt := pgTime now, sl_LastMeteredAt := pgTime (sl_LastMeteredAt lease1)\<rparr>,
            log_events (sl_ID lease1) kinds db1))))))"

definition markServiceLeaseWorkerLost ::
    "lease_deps \<Rightarrow> (int \<Rightarrow> int) \<Rightarrow> ServiceLease option \<Rightarrow> lease_db \<Rightarrow> (bool \<times> ServiceLease \<times> lease_db) result" where
  "markServiceLeaseWorkerLost D pgTime row db =
     (case row of None \<Rightarrow> Inl (Sentinel ''errNotFound'') | Some r \<Rightarrow>
      bind_result (scanServiceLease D r) (\<lambda>lease.
      if sl_State lease \<noteq> ''ACTIVE'' \<and> sl_State lease \<noteq> ''UPGRADING'' then Inr (False, r, db)
      else bind_result (meterServiceLeaseTx (sl_LastWorkerHeartbeatAt lease) lease db) (\<lambda>(lease1, db1).
        Inr (True, lease1\<lparr>sl_State := ''FAILOVER_REQUIRED'', sl_ActiveReplicas := 0,
               sl_LastMeteredAt := pgTime (sl_LastMeteredAt lease1)\<rparr>,
             log_events (sl_ID lease1) [''WORKER_LOSS''] db1))))"

text \<open>The operations of a history; one that fails rolls back.\<close>

datatype lease_op = Heartbeat_op WorkerAuth ServiceLeaseHeartbeat int | Worker_lost_op

fun lease_step :: "lease_deps \<Rightarrow> (int \<Rightarrow> int) \<Rightarrow> lease_op \<Rightarrow> ServiceLease \<times> lease_db \<Rightarrow> ServiceLease \<times> lease_db" where
  "lease_step D pgTime (Heartbeat_op auth hb now) (row, db) =
     (case HeartbeatServiceLease D pgTime auth (sl_ID row) hb now (Some row) db of Inl _ \<Rightarrow> (row, db) | Inr s \<Rightarrow> s)"
| "lease_step D pgTime Worker_lost_op (row, db) =
     (case markServiceLeaseWorkerLost D pgTime (Some row) db of Inl _ \<Rightarrow> (row, db) | Inr (_, s) \<Rightarrow> s)"

section \<open>What a lease costs\<close>

text \<open>One rate over the whole replica time, rounded up once.\<close>

definition lease_component :: "int64 \<Rightarrow> int \<Rightarrow> int" where
  "lease_component rate n = round_div True (sint rate * n) 3600000000000"

definition payable_nanos :: "ServiceLeasePricingAuthority \<Rightarrow> int \<Rightarrow> int" where
  "payable_nanos a n =
     lease_component (sp_SupplierNanosPerReplicaHour a) n +
     (if sp_Version a = 2 then lease_component (sp_ResidencyNanosPerReplicaHour a) n else 0)"

definition variable_nanos :: "ServiceLeasePricingAuthority \<Rightarrow> int \<Rightarrow> int" where
  "variable_nanos a n =
     lease_component (sp_ControlPlaneNanosPerReplicaHour a) n +
     (if sp_Version a = 2 then 0
      else lease_component (sp_ResidencyNanosPerReplicaHour a) n + lease_component (sp_RiskReserveNanosPerReplicaHour a) n)"

definition contribution_nanos :: "ServiceLeasePricingAuthority \<Rightarrow> int \<Rightarrow> int" where
  "contribution_nanos a n = lease_component (sp_ContributionNanosPerReplicaHour a) n"

lemma serviceLeaseComponent_Inr:
  assumes "serviceLeaseComponent c rate d = Inr m"
  shows "sint (mn_nanos m) = lease_component rate (sint d)" "mn_currency m = c" "0 < sint rate" "0 < sint d"
proof -
  show pos: "0 < sint rate" "0 < sint d" using assms by (auto simp: serviceLeaseComponent_def sle64 split: if_splits)
  then have "bind_result (mulDiv rate d nanosecondsPerHour True) (NewMoneyNanos c) = Inr m"
    using assms by (simp add: serviceLeaseComponent_def sle64)
  then obtain q where "mulDiv rate d nanosecondsPerHour True = Inr q" "NewMoneyNanos c q = Inr m" by auto
  then show "sint (mn_nanos m) = lease_component rate (sint d)" "mn_currency m = c"
    using pos mulDiv_nonneg_Inr [of rate d nanosecondsPerHour True q]
    by (simp_all add: NewMoneyNanos_Inr lease_component_def)
qed

lemma lease_component_nonneg: "0 \<le> sint rate \<Longrightarrow> 0 \<le> n \<Longrightarrow> 0 \<le> lease_component rate n"
  by (simp add: lease_component_def round_div_nonneg)

lemma Add_exact: "MoneyNanos_Add m n = Inr s \<Longrightarrow> sint (mn_nanos s) = sint (mn_nanos m) + sint (mn_nanos n)"
  by (auto simp: MoneyNanos_Add_Inr sint64_add_in64)

lemma authority_version:
  "validateServiceLeasePricingAuthority a cur = Inr () \<Longrightarrow> sp_Version a = 1 \<or> sp_Version a = 2"
  by (auto simp: validateServiceLeasePricingAuthority_def lease_versions split: if_splits)

lemma lease_money_parts:
  assumes "ServiceLeaseMoneyForReplicaDuration c a d = Inr money"
  shows "validateServiceLeasePricingAuthority a (Currency_Code c) = Inr ()" "0 < sint d"
    and "\<exists>supplier. sint (mn_nanos supplier) = lease_component (sp_SupplierNanosPerReplicaHour a) (sint d) \<and>
       lease_sums a supplier (sm_ResidencyCost money) (sm_ControlPlaneCost money) (sm_RiskReserve money) (sm_MercContribution money) =
         Inr (sm_SupplierPayable money, sm_BuyerCharge money)"
    and "sint (mn_nanos (sm_ResidencyCost money)) = lease_component (sp_ResidencyNanosPerReplicaHour a) (sint d)"
    and "sint (mn_nanos (sm_ControlPlaneCost money)) = lease_component (sp_ControlPlaneNanosPerReplicaHour a) (sint d)"
    and "sint (mn_nanos (sm_MercContribution money)) = lease_component (sp_ContributionNanosPerReplicaHour a) (sint d)"
    and "sp_Version a = 1 \<Longrightarrow> sint (mn_nanos (sm_RiskReserve money)) = lease_component (sp_RiskReserveNanosPerReplicaHour a) (sint d)"
    and "0 \<le> sint (mn_nanos (sm_RiskReserve money))"
    and "0 < sint (sp_SupplierNanosPerReplicaHour a)" "0 < sint (sp_ResidencyNanosPerReplicaHour a)"
      "0 < sint (sp_ControlPlaneNanosPerReplicaHour a)" "0 < sint (sp_ContributionNanosPerReplicaHour a)"
proof -
  obtain supplier residency control noRisk risk contribution where
    v: "validateServiceLeasePricingAuthority a (Currency_Code c) = Inr ()"
    and s: "serviceLeaseComponent c (sp_SupplierNanosPerReplicaHour a) d = Inr supplier"
    and r: "serviceLeaseComponent c (sp_ResidencyNanosPerReplicaHour a) d = Inr residency"
    and t: "serviceLeaseComponent c (sp_ControlPlaneNanosPerReplicaHour a) d = Inr control"
    and z: "NewMoneyNanos c 0 = Inr noRisk"
    and k: "(if sp_Version a = serviceLeasePricingAuthorityLegacyVersion
       then serviceLeaseComponent c (sp_RiskReserveNanosPerReplicaHour a) d else Inr noRisk) = Inr risk"
    and m: "serviceLeaseComponent c (sp_ContributionNanosPerReplicaHour a) d = Inr contribution"
    and last: "(case lease_sums a supplier residency control risk contribution of
       Inl _ \<Rightarrow> Inl (Msg ''service lease buyer charge lacks positive conserved Merc contribution'')
     | Inr (supplierPayable, buyer) \<Rightarrow>
         if mn_nanos buyer \<le>s mn_nanos supplierPayable
         then Inl (Msg ''service lease buyer charge lacks positive conserved Merc contribution'')
         else Inr \<lparr>sm_BuyerCharge = buyer, sm_SupplierPayable = supplierPayable, sm_ResidencyCost = residency,
           sm_ControlPlaneCost = control, sm_RiskReserve = risk, sm_MercContribution = contribution\<rparr>) = Inr money"
    using assms unfolding ServiceLeaseMoneyForReplicaDuration_def bind_result_eq_Inr by (elim exE conjE) simp
  obtain pb where sums: "lease_sums a supplier residency control risk contribution = Inr pb"
    and money: "money = \<lparr>sm_BuyerCharge = snd pb, sm_SupplierPayable = fst pb, sm_ResidencyCost = residency,
           sm_ControlPlaneCost = control, sm_RiskReserve = risk, sm_MercContribution = contribution\<rparr>"
    using last by (cases "lease_sums a supplier residency control risk contribution") (auto split: if_splits prod.splits)
  have risk: "sp_Version a = 1 \<Longrightarrow> sint (mn_nanos risk) = lease_component (sp_RiskReserveNanosPerReplicaHour a) (sint d)"
    "0 \<le> sint (mn_nanos risk)"
    using k z serviceLeaseComponent_Inr [of c "sp_RiskReserveNanosPerReplicaHour a" d risk]
      lease_component_nonneg [of "sp_RiskReserveNanosPerReplicaHour a" "sint d"]
    by (auto simp: lease_versions NewMoneyNanos_Inr split: if_splits)
  show "validateServiceLeasePricingAuthority a (Currency_Code c) = Inr ()" by (rule v)
  show "0 < sint d" using serviceLeaseComponent_Inr(4) [OF s] .
  show "\<exists>supplier. sint (mn_nanos supplier) = lease_component (sp_SupplierNanosPerReplicaHour a) (sint d) \<and>
       lease_sums a supplier (sm_ResidencyCost money) (sm_ControlPlaneCost money) (sm_RiskReserve money) (sm_MercContribution money) =
         Inr (sm_SupplierPayable money, sm_BuyerCharge money)"
    using serviceLeaseComponent_Inr(1) [OF s] sums by (intro exI [of _ supplier]) (simp add: money)
  show "sint (mn_nanos (sm_ResidencyCost money)) = lease_component (sp_ResidencyNanosPerReplicaHour a) (sint d)"
    "sint (mn_nanos (sm_ControlPlaneCost money)) = lease_component (sp_ControlPlaneNanosPerReplicaHour a) (sint d)"
    "sint (mn_nanos (sm_MercContribution money)) = lease_component (sp_ContributionNanosPerReplicaHour a) (sint d)"
    using serviceLeaseComponent_Inr(1) [OF r] serviceLeaseComponent_Inr(1) [OF t] serviceLeaseComponent_Inr(1) [OF m]
    by (simp_all add: money)
  show "sp_Version a = 1 \<Longrightarrow> sint (mn_nanos (sm_RiskReserve money)) = lease_component (sp_RiskReserveNanosPerReplicaHour a) (sint d)"
    "0 \<le> sint (mn_nanos (sm_RiskReserve money))" using risk by (simp_all add: money)
  show "0 < sint (sp_SupplierNanosPerReplicaHour a)" "0 < sint (sp_ResidencyNanosPerReplicaHour a)"
    "0 < sint (sp_ControlPlaneNanosPerReplicaHour a)" "0 < sint (sp_ContributionNanosPerReplicaHour a)"
    using serviceLeaseComponent_Inr(3) [OF s] serviceLeaseComponent_Inr(3) [OF r] serviceLeaseComponent_Inr(3) [OF t]
      serviceLeaseComponent_Inr(3) [OF m] by simp_all
qed

lemma lease_sums_exact:
  assumes "lease_sums a supplier residency control risk contribution = Inr (payable, buyer)" "sp_Version a = 1 \<or> sp_Version a = 2"
  shows "sint (mn_nanos payable) = sint (mn_nanos supplier) + (if sp_Version a = 2 then sint (mn_nanos residency) else 0)"
    and "sint (mn_nanos buyer) = sint (mn_nanos payable) + sint (mn_nanos control) + sint (mn_nanos contribution) +
      (if sp_Version a = 2 then 0 else sint (mn_nanos residency) + sint (mn_nanos risk))"
  using assms by (auto simp: lease_sums_def lease_versions dest!: Add_exact)

lemma lease_money_exact:
  assumes "ServiceLeaseMoneyForReplicaDuration c a d = Inr money"
  shows "sint (mn_nanos (sm_SupplierPayable money)) = payable_nanos a (sint d)"
    and "sint (mn_nanos (sm_BuyerCharge money)) =
      payable_nanos a (sint d) + variable_nanos a (sint d) + contribution_nanos a (sint d)"
    and "sint (mn_nanos (sm_MercContribution money)) = contribution_nanos a (sint d)"
    and "0 < sint d" "0 \<le> payable_nanos a (sint d)" "0 \<le> contribution_nanos a (sint d)"
    and "serviceLeaseKnownVariableNanos a money = Inr variable \<Longrightarrow> sint variable = variable_nanos a (sint d)"
proof -
  note parts = lease_money_parts [OF assms]
  have ver: "sp_Version a = 1 \<or> sp_Version a = 2" using authority_version [OF parts(1)] .
  obtain supplier where sup: "sint (mn_nanos supplier) = lease_component (sp_SupplierNanosPerReplicaHour a) (sint d)"
    and sums: "lease_sums a supplier (sm_ResidencyCost money) (sm_ControlPlaneCost money) (sm_RiskReserve money) (sm_MercContribution money) =
         Inr (sm_SupplierPayable money, sm_BuyerCharge money)" using parts(3) by blast
  show pay: "sint (mn_nanos (sm_SupplierPayable money)) = payable_nanos a (sint d)"
    using lease_sums_exact(1) [OF sums ver] sup parts(4) by (simp add: payable_nanos_def)
  show buyer: "sint (mn_nanos (sm_BuyerCharge money)) =
      payable_nanos a (sint d) + variable_nanos a (sint d) + contribution_nanos a (sint d)"
    using lease_sums_exact(2) [OF sums ver] pay parts(4-7) ver
    by (auto simp: variable_nanos_def contribution_nanos_def)
  show "sint (mn_nanos (sm_MercContribution money)) = contribution_nanos a (sint d)" using parts(6) by (simp add: contribution_nanos_def)
  show "0 < sint d" by (rule parts(2))
  have comps: "0 \<le> lease_component (sp_SupplierNanosPerReplicaHour a) (sint d)" "0 \<le> lease_component (sp_ResidencyNanosPerReplicaHour a) (sint d)"
    "0 \<le> lease_component (sp_ControlPlaneNanosPerReplicaHour a) (sint d)" "0 \<le> lease_component (sp_ContributionNanosPerReplicaHour a) (sint d)"
    using parts(2,9-12) by (simp_all add: lease_component_nonneg)
  then show pay0: "0 \<le> payable_nanos a (sint d)" and con0: "0 \<le> contribution_nanos a (sint d)"
    by (simp_all add: payable_nanos_def contribution_nanos_def)
  show "sint variable = variable_nanos a (sint d)" if var: "serviceLeaseKnownVariableNanos a money = Inr variable"
  proof (cases "sp_Version a = 2")
    case True
    then show ?thesis using var parts(5) by (simp add: serviceLeaseKnownVariableNanos_def variable_nanos_def lease_versions)
  next
    case False
    then have v1: "sp_Version a = 1" using ver by simp
    let ?R = "mn_nanos (sm_ResidencyCost money)" and ?C = "mn_nanos (sm_ControlPlaneCost money)" and ?K = "mn_nanos (sm_RiskReserve money)"
    have v: "variable_nanos a (sint d) = sint ?R + sint ?C + sint ?K"
      using v1 parts(4,5,7) by (simp add: variable_nanos_def)
    have "variable_nanos a (sint d) \<le> maxInt64"
      using buyer pay0 con0 sint64_bounds(2) [of "mn_nanos (sm_BuyerCharge money)"] by linarith
    then have r1: "in64 (sint ?R + sint ?C)" "in64 (sint ?R + sint ?C + sint ?K)"
      using v comps parts(4,5,8) by (simp_all add: in64_def)
    then have "sint (?R + ?C + ?K) = sint ?R + sint ?C + sint ?K"
      using sint64_add_in64 [of ?R ?C] sint64_add_in64 [of "?R + ?C" ?K] by simp
    moreover have "variable = ?R + ?C + ?K"
      using var False by (auto simp: serviceLeaseKnownVariableNanos_def lease_versions Let_def split: if_splits)
    ultimately show ?thesis using v by simp
  qed
qed

lemma lease_price_exact:
  assumes "lease_price lease = Inr (money, variable)"
  shows "\<exists>a ceiling'. pd_ServiceLease (sl_Pricing lease) = Some a \<and> pd_AcceptedCeilingNanos (sl_Pricing lease) = Some ceiling' \<and>
     sint (mn_nanos (sm_SupplierPayable money)) = payable_nanos a (sint (sl_CumulativeReplicaNanos lease)) \<and>
     sint variable = variable_nanos a (sint (sl_CumulativeReplicaNanos lease)) \<and>
     sint (mn_nanos (sm_MercContribution money)) = contribution_nanos a (sint (sl_CumulativeReplicaNanos lease)) \<and>
     sint (mn_nanos (sm_BuyerCharge money)) =
       sint (mn_nanos (sm_SupplierPayable money)) + sint variable + sint (mn_nanos (sm_MercContribution money)) \<and>
     0 \<le> sint (mn_nanos (sm_SupplierPayable money)) \<and> sint (mn_nanos (sm_BuyerCharge money)) \<le> sint ceiling'"
proof -
  obtain c a ceiling' where p: "MustParseCurrency (pd_Currency (sl_Pricing lease)) = Some c"
    "pd_ServiceLease (sl_Pricing lease) = Some a" "pd_AcceptedCeilingNanos (sl_Pricing lease) = Some ceiling'"
    using assms by (auto simp: lease_price_def split: option.splits)
  then obtain m where m: "ServiceLeaseMoneyForReplicaDuration c a (sl_CumulativeReplicaNanos lease) = Inr m"
    and rest: "(case serviceLeaseKnownVariableNanos a m of
            Inl _ \<Rightarrow> Inl (Msg ''service lease meter violates reserved ceiling or exact cost bounds'')
          | Inr variable \<Rightarrow>
              if ceiling' <s mn_nanos (sm_BuyerCharge m)
              then Inl (Msg ''service lease meter violates reserved ceiling or exact cost bounds'')
              else Inr (m, variable)) = Inr (money, variable)"
    using assms unfolding lease_price_def by (auto simp only: prod.case option.case bind_result_eq_Inr)
  then have "m = money" "serviceLeaseKnownVariableNanos a money = Inr variable" "\<not> ceiling' <s mn_nanos (sm_BuyerCharge money)"
    by (auto split: sum.splits if_splits)
  moreover from this have E: "ServiceLeaseMoneyForReplicaDuration c a (sl_CumulativeReplicaNanos lease) = Inr money" using m by simp
  ultimately show ?thesis
    using p lease_money_exact(1-6) [OF E] lease_money_exact(7) [OF E, of variable] by (simp add: sless64)
qed

section \<open>The books of a lease\<close>

definition supplier_deltas :: "uuid \<Rightarrow> lease_db \<Rightarrow> int list" where
  "supplier_deltas leaseID db = map (\<lambda>r. sint (su_SupplierPayableDeltaNanos r)) (filter (\<lambda>r. su_LeaseID r = leaseID) (lb_supplier db))"

text \<open>
  The row holds the price of its cumulative replica time, within the accepted ceiling, and the
  supplier deltas add up to what the row says is payable.
\<close>

definition lease_books :: "ServiceLease \<times> lease_db \<Rightarrow> bool" where
  "lease_books s \<longleftrightarrow> (case s of (lease, db) \<Rightarrow>
     let n = sint (sl_CumulativeReplicaNanos lease) in
     0 \<le> n \<and> 0 \<le> sint (sl_SupplierPayableNanos lease) \<and>
     sint (sl_BuyerChargeNanos lease) =
       sint (sl_SupplierPayableNanos lease) + sint (sl_KnownVariableCostNanos lease) + sint (sl_KnownContributionNanos lease) \<and>
     (n = 0 \<longrightarrow> sl_SupplierPayableNanos lease = 0 \<and> sl_KnownVariableCostNanos lease = 0 \<and> sl_KnownContributionNanos lease = 0) \<and>
     (0 < n \<longrightarrow> (\<exists>a ceiling'. pd_ServiceLease (sl_Pricing lease) = Some a \<and> pd_AcceptedCeilingNanos (sl_Pricing lease) = Some ceiling' \<and>
        sint (sl_SupplierPayableNanos lease) = payable_nanos a n \<and> sint (sl_KnownVariableCostNanos lease) = variable_nanos a n \<and>
        sint (sl_KnownContributionNanos lease) = contribution_nanos a n \<and> sint (sl_BuyerChargeNanos lease) \<le> sint ceiling')) \<and>
     sum_list (supplier_deltas (sl_ID lease) db) = sint (sl_SupplierPayableNanos lease) \<and>
     list_all (\<lambda>x. 0 \<le> x) (supplier_deltas (sl_ID lease) db))"

lemma record_meter_books:
  assumes "lease_price lease = Inr (money, variable)" "0 < sint (sl_CumulativeReplicaNanos lease)"
    and "sum_list (supplier_deltas (sl_ID lease) db) = sint (sl_SupplierPayableNanos lease)" "0 \<le> sint (sl_SupplierPayableNanos lease)"
    and "list_all (\<lambda>x. 0 \<le> x) (supplier_deltas (sl_ID lease) db)"
    and "record_meter t lease money variable db = Inr s"
  shows "lease_books s" "sl_ID (fst s) = sl_ID lease"
proof -
  let ?P = "mn_nanos (sm_SupplierPayable money)"
  obtain a ceiling' where price: "pd_ServiceLease (sl_Pricing lease) = Some a" "pd_AcceptedCeilingNanos (sl_Pricing lease) = Some ceiling'"
     "sint ?P = payable_nanos a (sint (sl_CumulativeReplicaNanos lease))"
     "sint variable = variable_nanos a (sint (sl_CumulativeReplicaNanos lease))"
     "sint (mn_nanos (sm_MercContribution money)) = contribution_nanos a (sint (sl_CumulativeReplicaNanos lease))"
     "sint (mn_nanos (sm_BuyerCharge money)) = sint ?P + sint variable + sint (mn_nanos (sm_MercContribution money))"
     "0 \<le> sint ?P" "sint (mn_nanos (sm_BuyerCharge money)) \<le> sint ceiling'"
    using lease_price_exact [OF assms(1)] by blast
  have "in64 (sint ?P - sint (sl_SupplierPayableNanos lease))"
    using price(7) assms(4) sint64_bounds [of ?P] sint64_bounds [of "sl_SupplierPayableNanos lease"] by (simp add: in64_def)
  then have delta: "sint (?P - sl_SupplierPayableNanos lease) = sint ?P - sint (sl_SupplierPayableNanos lease)"
    by (rule sint64_diff_in64)
  have ok: "\<not> ?P - sl_SupplierPayableNanos lease <s 0" using assms(6) by (auto simp: record_meter_def Let_def split: if_splits)
  then have s: "fst s = lease\<lparr>sl_LastMeteredAt := t, sl_BuyerChargeNanos := mn_nanos (sm_BuyerCharge money),
             sl_SupplierPayableNanos := ?P, sl_KnownVariableCostNanos := variable,
             sl_KnownContributionNanos := mn_nanos (sm_MercContribution money)\<rparr>"
    and rows: "supplier_deltas (sl_ID lease) (snd s) =
      supplier_deltas (sl_ID lease) db @ [sint (?P - sl_SupplierPayableNanos lease)]"
    using assms(6) by (auto simp: record_meter_def Let_def supplier_deltas_def)
  show "sl_ID (fst s) = sl_ID lease" by (simp add: s)
  have "0 \<le> sint (?P - sl_SupplierPayableNanos lease)" using ok by (simp add: sless64)
  then show "lease_books s"
    using assms(2,3,5) price rows delta s unfolding lease_books_def Let_def
    by (cases s) (simp only: prod.case fst_conv snd_conv, simp)
qed

lemma books_cong:
  assumes "sl_ID l' = sl_ID l" "sl_Pricing l' = sl_Pricing l" "sl_CumulativeReplicaNanos l' = sl_CumulativeReplicaNanos l"
    "sl_BuyerChargeNanos l' = sl_BuyerChargeNanos l" "sl_SupplierPayableNanos l' = sl_SupplierPayableNanos l"
    "sl_KnownVariableCostNanos l' = sl_KnownVariableCostNanos l" "sl_KnownContributionNanos l' = sl_KnownContributionNanos l"
    "lb_supplier db' = lb_supplier db"
  shows "lease_books (l', db') = lease_books (l, db)"
  unfolding lease_books_def supplier_deltas_def prod.case Let_def assms ..

lemma meter_add_books:
  assumes "lease_books (lease, db)" "meter_add t lease add db = Inr s"
  shows "lease_books s"
proof -
  let ?n = "sl_CumulativeReplicaNanos lease" and ?l = "lease\<lparr>sl_CumulativeReplicaNanos := sl_CumulativeReplicaNanos lease + add\<rparr>"
  have old: "0 \<le> sint ?n" "0 \<le> sint (sl_SupplierPayableNanos lease)" "list_all (\<lambda>x. 0 \<le> x) (supplier_deltas (sl_ID lease) db)"
    "sum_list (supplier_deltas (sl_ID lease) db) = sint (sl_SupplierPayableNanos lease)"
    using assms(1) by (simp_all add: lease_books_def Let_def)
  have add: "\<not> add <s 0" "\<not> word_of_int maxInt64 - add <s ?n" using assms(2) by (auto simp: meter_add_def split: if_splits)
  have "sint (word_of_int maxInt64 - add) = maxInt64 - sint add"
    using add(1) sint64_bounds [of add] by (subst sint64_diff_in64) (simp_all add: sless64 in64_def sint_word_of_int64 wrap64_id)
  then have room: "0 \<le> sint add" "sint ?n + sint add \<le> maxInt64" using add by (simp_all add: sless64)
  then have sum: "sint (?n + add) = sint ?n + sint add" using old(1) by (intro sint64_add_in64) (simp add: in64_def)
  show ?thesis
  proof (cases "?n + add \<le>s 0")
    case True
    then have "sint add = 0" using sum old(1) room(1) by (simp add: sle64)
    then have "?n + add = ?n" by (simp add: signed_eq_0_iff)
    then have "s = (lease\<lparr>sl_LastMeteredAt := t\<rparr>, db)" using assms(2) add True by (simp add: meter_add_def Let_def)
    then show ?thesis using assms(1) books_cong [of "lease\<lparr>sl_LastMeteredAt := t\<rparr>" lease db db] by simp
  next
    case False
    then obtain money variable where "lease_price ?l = Inr (money, variable)" "record_meter t ?l money variable db = Inr s"
      using assms(2) add by (auto simp: meter_add_def Let_def bind_result_eq_Inr)
    moreover have "0 < sint (?n + add)" using False by (simp add: sle64)
    ultimately show ?thesis using record_meter_books(1) [of ?l money variable db t s] old by simp
  qed
qed

lemma meter_cases:
  assumes "meterServiceLeaseTx t lease db = Inr s"
  shows "s = (lease, db) \<or> (\<exists>t' add. meter_add t' lease add db = Inr s)"
  using assms by (auto simp: meterServiceLeaseTx_def Let_def split: if_splits sum.splits)

lemma meter_books: "lease_books (lease, db) \<Longrightarrow> meterServiceLeaseTx t lease db = Inr s \<Longrightarrow> lease_books s"
  using meter_cases meter_add_books by blast

text \<open>Status changes and events leave the books alone.\<close>

lemma books_frame:
  assumes "lease_books (lease, db)"
  shows "lease_books (lease\<lparr>sl_State := st, sl_ActiveReplicas := n, sl_UpgradeGeneration := g, sl_LastWorkerHeartbeatAt := t,
      sl_LastMeteredAt := t'\<rparr>, log_events i kinds db)"
    and "lease_books (lease\<lparr>sl_State := st, sl_ActiveReplicas := n, sl_LastMeteredAt := t'\<rparr>, log_events i kinds db)"
  by (rule books_cong [THEN iffD2, OF _ _ _ _ _ _ _ _ assms]; simp add: log_events_def)+

lemma heartbeat_books:
  assumes "lease_books (row, db)" "HeartbeatServiceLease D pgTime auth i hb now (Some row) db = Inr s"
  shows "lease_books s"
proof -
  obtain l db1 st n kinds where m: "meterServiceLeaseTx now row db = Inr (l, db1)"
    and s: "s = (l\<lparr>sl_State := st, sl_ActiveReplicas := n, sl_UpgradeGeneration := hb_UpgradeGeneration hb,
              sl_LastWorkerHeartbeatAt := pgTime now, sl_LastMeteredAt := pgTime (sl_LastMeteredAt l)\<rparr>, log_events (sl_ID l) kinds db1)"
    using assms(2) unfolding HeartbeatServiceLease_def scanServiceLease_def bind_result_eq_Inr option.case
    by (auto split: if_splits)
  show ?thesis unfolding s by (rule books_frame(1)) (rule meter_books [OF assms(1) m])
qed

lemma worker_lost_books:
  assumes "lease_books (row, db)" "markServiceLeaseWorkerLost D pgTime (Some row) db = Inr (lost, s)"
  shows "lease_books s"
proof (cases lost)
  case False
  then have "s = (row, db)" using assms(2)
    by (auto simp: markServiceLeaseWorkerLost_def bind_result_eq_Inr split: if_splits)
  then show ?thesis using assms(1) by simp
next
  case True
  then obtain l db1 where m: "meterServiceLeaseTx (sl_LastWorkerHeartbeatAt row) row db = Inr (l, db1)"
    and s: "s = (l\<lparr>sl_State := ''FAILOVER_REQUIRED'', sl_ActiveReplicas := 0, sl_LastMeteredAt := pgTime (sl_LastMeteredAt l)\<rparr>,
      log_events (sl_ID l) [''WORKER_LOSS''] db1)"
    using assms(2) unfolding markServiceLeaseWorkerLost_def scanServiceLease_def bind_result_eq_Inr option.case
    by (auto split: if_splits)
  show ?thesis unfolding s by (rule books_frame(2)) (rule meter_books [OF assms(1) m])
qed

interpretation lease: invariant_machine "lease_step D pgTime" lease_books for D pgTime
proof
  fix s e assume b: "lease_books s"
  obtain row db where s: "s = (row, db)" by (cases s)
  show "lease_books (lease_step D pgTime e s)"
  proof (cases e)
    case (Heartbeat_op auth hb now)
    then show ?thesis
      using b s heartbeat_books by (cases "HeartbeatServiceLease D pgTime auth (sl_ID row) hb now (Some row) db") auto
  next
    case Worker_lost_op
    then show ?thesis
      using b s worker_lost_books by (cases "markServiceLeaseWorkerLost D pgTime (Some row) db") auto
  qed
qed

text \<open>
  Every history of heartbeats and lost workers keeps the books of a lease. The buyer's
  charge is the supplier's payable plus the known variable cost plus the contribution, each
  the accepted hourly rates times the whole replica time, rounded up once; it never exceeds
  the accepted ceiling; and the deltas attributed to suppliers are non-negative and add up to
  the payable, however often the lease was metered.
\<close>

theorem lease_books_balance:
  assumes "sl_CumulativeReplicaNanos row = 0" "sl_BuyerChargeNanos row = 0" "sl_SupplierPayableNanos row = 0"
    "sl_KnownVariableCostNanos row = 0" "sl_KnownContributionNanos row = 0" "supplier_deltas (sl_ID row) db = []"
    and "fold (lease_step D pgTime) ops (row, db) = (lease, db')"
  shows "sint (sl_BuyerChargeNanos lease) =
       sint (sl_SupplierPayableNanos lease) + sint (sl_KnownVariableCostNanos lease) + sint (sl_KnownContributionNanos lease) \<and>
     sum_list (supplier_deltas (sl_ID lease) db') = sint (sl_SupplierPayableNanos lease) \<and>
     list_all (\<lambda>x. 0 \<le> x) (supplier_deltas (sl_ID lease) db') \<and>
     (let n = sint (sl_CumulativeReplicaNanos lease) in
      0 \<le> n \<and> (0 < n \<longrightarrow> (\<exists>a ceiling'. pd_ServiceLease (sl_Pricing lease) = Some a \<and>
        pd_AcceptedCeilingNanos (sl_Pricing lease) = Some ceiling' \<and>
        sint (sl_SupplierPayableNanos lease) = payable_nanos a n \<and> sint (sl_KnownVariableCostNanos lease) = variable_nanos a n \<and>
        sint (sl_KnownContributionNanos lease) = contribution_nanos a n \<and> sint (sl_BuyerChargeNanos lease) \<le> sint ceiling')))"
proof -
  have "lease_books (row, db)" using assms(1-6) by (simp add: lease_books_def Let_def)
  then have "lease_books (lease, db')" using lease.run_inv [of "(row, db)" D pgTime ops] assms(7) by simp
  then show ?thesis unfolding lease_books_def prod.case Let_def by blast
qed

section \<open>What a heartbeat accrues\<close>

lemma time_Sub_exact: "u \<le> t \<Longrightarrow> t - u \<le> maxInt64 \<Longrightarrow> sint (time_Sub t u) = t - u"
proof -
  assume "u \<le> t" "t - u \<le> maxInt64"
  then have "max minInt64 (min maxInt64 (t - u)) = t - u" "in64 (t - u)" by (simp_all add: in64_def)
  then show ?thesis unfolding time_Sub_def by (simp only: sint_word_of_int64 wrap64_id)
qed

lemma meter_add_cum:
  assumes "meter_add t lease add db = Inr (lease', db')" "0 \<le> sint (sl_CumulativeReplicaNanos lease)"
  shows "sint (sl_CumulativeReplicaNanos lease') = sint (sl_CumulativeReplicaNanos lease) + sint add"
    and "sl_LastMeteredAt lease' = t" "sl_MinimumReplicas lease' = sl_MinimumReplicas lease"
    and "sl_State lease' = sl_State lease" "sl_ExpiresAt lease' = sl_ExpiresAt lease"
proof -
  let ?n = "sl_CumulativeReplicaNanos lease"
  have add: "\<not> add <s 0" "\<not> word_of_int maxInt64 - add <s ?n" using assms(1) by (auto simp: meter_add_def split: if_splits)
  have "sint (word_of_int maxInt64 - add) = maxInt64 - sint add"
    using add(1) sint64_bounds [of add] by (subst sint64_diff_in64) (simp_all add: sless64 in64_def sint_word_of_int64 wrap64_id)
  then have "in64 (sint ?n + sint add)" using add assms(2) by (simp add: sless64 in64_def)
  moreover have "sl_CumulativeReplicaNanos lease' = ?n + add" "sl_LastMeteredAt lease' = t"
    "sl_MinimumReplicas lease' = sl_MinimumReplicas lease" "sl_State lease' = sl_State lease" "sl_ExpiresAt lease' = sl_ExpiresAt lease"
    using assms(1) add by (auto simp: meter_add_def Let_def bind_result_eq_Inr record_meter_def split: if_splits)
  ultimately show "sint (sl_CumulativeReplicaNanos lease') = sint ?n + sint add"
    "sl_LastMeteredAt lease' = t" "sl_MinimumReplicas lease' = sl_MinimumReplicas lease"
    "sl_State lease' = sl_State lease" "sl_ExpiresAt lease' = sl_ExpiresAt lease" by (simp_all add: sint64_add_in64)
qed

text \<open>A meter inside the term adds the active replicas times the time since the watermark.\<close>

lemma meter_accrues:
  assumes "meterServiceLeaseTx t lease db = Inr (lease', db')" "0 \<le> sint (sl_CumulativeReplicaNanos lease)"
    and "sl_LastMeteredAt lease < t" "t \<le> sl_ExpiresAt lease" "t - sl_LastMeteredAt lease \<le> maxInt64" "0 \<le> sint (sl_ActiveReplicas lease)"
  shows "sint (sl_CumulativeReplicaNanos lease') =
      sint (sl_CumulativeReplicaNanos lease) + sint (sl_ActiveReplicas lease) * (t - sl_LastMeteredAt lease)"
    and "sl_LastMeteredAt lease' = t" "sl_MinimumReplicas lease' = sl_MinimumReplicas lease"
    and "sl_State lease' = sl_State lease" "sl_ExpiresAt lease' = sl_ExpiresAt lease"
proof -
  let ?d = "time_Sub t (sl_LastMeteredAt lease)"
  have d: "sint ?d = t - sl_LastMeteredAt lease" using assms(3,5) by (intro time_Sub_exact) simp_all
  obtain add where add: "mulDiv (sl_ActiveReplicas lease) ?d 1 False = Inr add" "meter_add t lease add db = Inr (lease', db')"
    using assms(1,3,4) by (auto simp: meterServiceLeaseTx_def Let_def split: sum.splits)
  have "sint add = sint (sl_ActiveReplicas lease) * (t - sl_LastMeteredAt lease)"
    using mulDiv_nonneg_Inr [of "sl_ActiveReplicas lease" ?d 1 False add] add(1) d assms(3,6) by (simp add: round_div_def)
  then show "sint (sl_CumulativeReplicaNanos lease') =
      sint (sl_CumulativeReplicaNanos lease) + sint (sl_ActiveReplicas lease) * (t - sl_LastMeteredAt lease)"
    "sl_LastMeteredAt lease' = t" "sl_MinimumReplicas lease' = sl_MinimumReplicas lease"
    "sl_State lease' = sl_State lease" "sl_ExpiresAt lease' = sl_ExpiresAt lease"
    using meter_add_cum [OF add(2) assms(2)] by simp_all
qed

lemma ready_heartbeat:
  assumes "HeartbeatServiceLease D pgTime auth i hb now (Some row) db = Inr (row', db')" "hb_Status hb = ''READY''"
  obtains lease1 db1 where "meterServiceLeaseTx now row db = Inr (lease1, db1)"
    and "sl_CumulativeReplicaNanos row' = sl_CumulativeReplicaNanos lease1" "sl_LastMeteredAt row' = pgTime (sl_LastMeteredAt lease1)"
    and "sl_ActiveReplicas row' = hb_WarmReplicas hb" "sl_ExpiresAt row' = sl_ExpiresAt lease1"
    and "sl_State lease1 \<noteq> ''UPGRADING'' \<Longrightarrow> sl_State row' = sl_State lease1"
    and "sint (sl_MinimumReplicas lease1) \<le> sint (hb_WarmReplicas hb)"
proof -
  obtain lease1 db1 st n kinds where m: "meterServiceLeaseTx now row db = Inr (lease1, db1)"
    and slo: "heartbeat_slo lease1 hb = Inr ()" and nx: "heartbeat_next lease1 hb = Inr (st, n, kinds)"
    and row': "row' = lease1\<lparr>sl_State := st, sl_ActiveReplicas := n, sl_UpgradeGeneration := hb_UpgradeGeneration hb,
              sl_LastWorkerHeartbeatAt := pgTime now, sl_LastMeteredAt := pgTime (sl_LastMeteredAt lease1)\<rparr>"
    using assms(1) unfolding HeartbeatServiceLease_def scanServiceLease_def bind_result_eq_Inr option.case
    by (auto split: if_splits)
  have "sint (sl_MinimumReplicas lease1) \<le> sint (hb_WarmReplicas hb)"
    using slo assms(2) by (auto simp: heartbeat_slo_def Let_def sless64 split: if_splits)
  moreover have "n = hb_WarmReplicas hb" "sl_State lease1 \<noteq> ''UPGRADING'' \<Longrightarrow> st = sl_State lease1"
    using nx assms(2) by (auto simp: heartbeat_next_def split: if_splits)
  ultimately show ?thesis using that [OF m] row' by simp
qed

text \<open>
  C24. A lease that waits for a replacement is billed again by a heartbeat of the worker it
  lost. A ready heartbeat accepted in state \<^verbatim>\<open>FAILOVER_REQUIRED\<close> leaves the state as it is and
  sets the reported replicas, at least the reserved minimum, so that the next meter inside
  the term adds those replicas times the time since the heartbeat, which is positive.
\<close>

theorem failed_lease_billed_again:
  assumes "HeartbeatServiceLease D pgTime auth i hb now (Some row) db = Inr (row', db')"
    and "hb_Status hb = ''READY''" "sl_State row = ''FAILOVER_REQUIRED''" "sl_ActiveReplicas row = 0"
    and "0 < sint (sl_MinimumReplicas row)" "0 \<le> sint (sl_CumulativeReplicaNanos row)"
    and "sl_LastMeteredAt row < now" "now \<le> sl_ExpiresAt row" "now - sl_LastMeteredAt row \<le> maxInt64"
    and "meterServiceLeaseTx t row' db' = Inr (row'', db'')" "sl_LastMeteredAt row' < t" "t \<le> sl_ExpiresAt row'" "t - sl_LastMeteredAt row' \<le> maxInt64"
  shows "sl_State row' = ''FAILOVER_REQUIRED'' \<and> sl_ActiveReplicas row' = hb_WarmReplicas hb \<and>
     sint (sl_MinimumReplicas row) \<le> sint (sl_ActiveReplicas row') \<and>
     sl_CumulativeReplicaNanos row' = sl_CumulativeReplicaNanos row \<and>
     sint (sl_CumulativeReplicaNanos row'') =
       sint (sl_CumulativeReplicaNanos row) + sint (sl_ActiveReplicas row') * (t - sl_LastMeteredAt row') \<and>
     sint (sl_CumulativeReplicaNanos row) < sint (sl_CumulativeReplicaNanos row'')"
proof -
  obtain lease1 db1 where m: "meterServiceLeaseTx now row db = Inr (lease1, db1)"
    and row': "sl_CumulativeReplicaNanos row' = sl_CumulativeReplicaNanos lease1" "sl_ActiveReplicas row' = hb_WarmReplicas hb"
      "sl_State lease1 \<noteq> ''UPGRADING'' \<Longrightarrow> sl_State row' = sl_State lease1" "sint (sl_MinimumReplicas lease1) \<le> sint (hb_WarmReplicas hb)"
    using ready_heartbeat [OF assms(1,2)] by metis
  note acc = meter_accrues [OF m assms(6,7,8,9)]
  have "sint (sl_CumulativeReplicaNanos lease1) = sint (sl_CumulativeReplicaNanos row)" using acc(1) assms(4) by simp
  then have cum: "sl_CumulativeReplicaNanos row' = sl_CumulativeReplicaNanos row" using row'(1) by (simp add: sint64_inject)
  have least: "sint (sl_MinimumReplicas row) \<le> sint (sl_ActiveReplicas row')" using row'(2,4) acc(3) assms(4) by simp
  then have active: "0 < sint (sl_ActiveReplicas row')" using assms(5) by simp
  then have "sint (sl_CumulativeReplicaNanos row'') =
      sint (sl_CumulativeReplicaNanos row') + sint (sl_ActiveReplicas row') * (t - sl_LastMeteredAt row')"
    using meter_accrues(1) [OF assms(10) _ assms(11-13)] cum assms(6) by simp
  moreover have "sl_State row' = ''FAILOVER_REQUIRED''" using row'(3) acc(4) assms(3,4) by simp
  ultimately show ?thesis using active least row'(2) cum assms(11) by simp
qed

text \<open>
  C25. The heartbeat cadence changes what is charged. The watermark is stored with the
  resolution of the column, so a heartbeat at \<^term>\<open>t1\<close> before one at \<^term>\<open>t2\<close>, with the same
  replicas, accrues the replicas times \<^term>\<open>t1 - pgTime t1\<close> more than the one at \<^term>\<open>t2\<close> alone.
\<close>

theorem heartbeat_cadence_drift:
  assumes "HeartbeatServiceLease D pgTime auth i hb t1 (Some row) db = Inr (row1, db1)"
    and "HeartbeatServiceLease D pgTime auth i hb t2 (Some row1) db1 = Inr (row2, db2)"
    and "HeartbeatServiceLease D pgTime auth i hb t2 (Some row) db = Inr (row3, db3)"
    and "hb_Status hb = ''READY''" "hb_WarmReplicas hb = sl_ActiveReplicas row" "0 \<le> sint (sl_ActiveReplicas row)"
    and "0 \<le> sint (sl_CumulativeReplicaNanos row)" "sl_LastMeteredAt row < t1" "t1 < t2" "t2 \<le> sl_ExpiresAt row"
    and "t2 - sl_LastMeteredAt row \<le> maxInt64" "pgTime t1 \<le> t1" "t2 - pgTime t1 \<le> maxInt64"
  shows "sint (sl_CumulativeReplicaNanos row2) =
     sint (sl_CumulativeReplicaNanos row3) + sint (sl_ActiveReplicas row) * (t1 - pgTime t1)"
proof -
  obtain l1 e1 where m1: "meterServiceLeaseTx t1 row db = Inr (l1, e1)" and r1: "sl_CumulativeReplicaNanos row1 = sl_CumulativeReplicaNanos l1"
    "sl_LastMeteredAt row1 = pgTime (sl_LastMeteredAt l1)" "sl_ActiveReplicas row1 = hb_WarmReplicas hb" "sl_ExpiresAt row1 = sl_ExpiresAt l1"
    using ready_heartbeat [OF assms(1,4)] by metis
  obtain l2 e2 where m2: "meterServiceLeaseTx t2 row1 db1 = Inr (l2, e2)" and r2: "sl_CumulativeReplicaNanos row2 = sl_CumulativeReplicaNanos l2"
    using ready_heartbeat [OF assms(2,4)] by metis
  obtain l3 e3 where m3: "meterServiceLeaseTx t2 row db = Inr (l3, e3)" and r3: "sl_CumulativeReplicaNanos row3 = sl_CumulativeReplicaNanos l3"
    using ready_heartbeat [OF assms(3,4)] by metis
  let ?n = "sint (sl_ActiveReplicas row)" and ?t0 = "sl_LastMeteredAt row" and ?c = "sint (sl_CumulativeReplicaNanos row)"
  have a1: "sint (sl_CumulativeReplicaNanos l1) = ?c + ?n * (t1 - ?t0)" "sl_LastMeteredAt l1 = t1" "sl_ExpiresAt l1 = sl_ExpiresAt row"
    using meter_accrues [OF m1 assms(7,8)] assms(6,9-11) by simp_all
  then have "0 \<le> sint (sl_CumulativeReplicaNanos row1)" using r1(1) assms(6-8) by simp
  then have "sint (sl_CumulativeReplicaNanos l2) = sint (sl_CumulativeReplicaNanos row1) + ?n * (t2 - pgTime t1)"
    using meter_accrues(1) [OF m2] r1 a1(2,3) assms(5,6,9,10,12,13) by simp
  moreover have "sint (sl_CumulativeReplicaNanos l3) = ?c + ?n * (t2 - ?t0)"
    using meter_accrues(1) [OF m3 assms(7)] assms(6,8-11) by simp
  ultimately show ?thesis using r1(1) r2 r3 a1(1) by (simp add: algebra_simps)
qed

section \<open>Examples\<close>

definition demo_lease_authority :: ServiceLeasePricingAuthority where
  "demo_lease_authority = \<lparr>sp_Version = 2, sp_Currency = ''usd'', sp_RuntimeProfileID = ''p'', sp_RuntimeProfileSHA256 = replicate 64 (CHR ''a''),
     sp_Region = ''us'', sp_MinimumReplicas = 2, sp_MaximumReplicas = 2, sp_TermSeconds = 60, sp_MaximumP95LatencyMilliseconds = 9,
     sp_MaximumP99LatencyMilliseconds = 0, sp_SupplierNanosPerReplicaHour = 5, sp_ResidencyNanosPerReplicaHour = 3,
     sp_ControlPlaneNanosPerReplicaHour = 2, sp_RiskReserveNanosPerReplicaHour = 0, sp_ContributionNanosPerReplicaHour = 1,
     sp_RoundingPolicy = serviceLeasePricingRoundingPolicy\<rparr>"

definition demo_lease_row :: "string \<Rightarrow> int64 \<Rightarrow> ServiceLease" where
  "demo_lease_row state replicas = \<lparr>sl_ID = 1, sl_BuyerID = 2, sl_WorkerID = 3, sl_SupplierID = 4, sl_RuntimeProfileID = ''p'',
     sl_RuntimeProfileSHA256 = replicate 64 (CHR ''a''), sl_Region = ''us'', sl_MinimumReplicas = 2, sl_MaximumReplicas = 2,
     sl_MaximumP95LatencyMillis = 9, sl_MaximumP99LatencyMillis = 0, sl_TermSeconds = 60, sl_State = state, sl_ActiveReplicas = replicas,
     sl_UpgradeGeneration = [], sl_ReservedBuyerMicros = 0, sl_PricingAcceptanceID = None,
     sl_Pricing = \<lparr>pd_ExecutionMode = pricingExecutionServiceLease, pd_Currency = ''usd'',
       pd_ServiceLease = Some demo_lease_authority, pd_AcceptedCeilingNanos = Some 20\<rparr>,
     sl_PricingDecisionSHA256 = replicate 64 (CHR ''c''), sl_ExpiresAt = 9000, sl_LastMeteredAt = 0, sl_LastWorkerHeartbeatAt = 0,
     sl_CumulativeReplicaNanos = 0, sl_BuyerChargeNanos = 0, sl_SupplierPayableNanos = 0, sl_KnownVariableCostNanos = 0,
     sl_KnownContributionNanos = 0\<rparr>"

lemma demo_lease_row_simps:
  "sl_State (demo_lease_row st n) = st" "sl_ActiveReplicas (demo_lease_row st n) = n" "sl_MinimumReplicas (demo_lease_row st n) = 2"
  "sl_CumulativeReplicaNanos (demo_lease_row st n) = 0" "sl_LastMeteredAt (demo_lease_row st n) = 0" "sl_ExpiresAt (demo_lease_row st n) = 9000"
  by (simp_all add: demo_lease_row_def)

definition demo_lease_deps :: lease_deps where
  "demo_lease_deps = \<lparr>pricingDecisionDigest = (\<lambda>_. Inr (replicate 64 (CHR ''c''))), validatePricingCostShape = (\<lambda>_. Inr ())\<rparr>"

definition demo_lease_db :: lease_db where "demo_lease_db = \<lparr>lb_meterings = [], lb_supplier = [], lb_events = []\<rparr>"

definition demo_ready :: ServiceLeaseHeartbeat where
  "demo_ready = \<lparr>hb_WarmReplicas = 2, hb_P95LatencyMillis = 1, hb_P99LatencyMillis = 0, hb_LatencyMeasurementCount = 5,
     hb_LatencyWindowSeconds = 1, hb_LatencyMeasurementKind = ''DATA_PLANE_COMPLETIONS_V1'',
     hb_DataPlaneProbeReceiptSHA256 = replicate 64 (CHR ''b''), hb_Status = ''READY'', hb_UpgradeGeneration = []\<rparr>"

definition micros :: "int \<Rightarrow> int" where "micros t = t div 1000 * 1000"

definition demo_worker :: WorkerAuth where "demo_worker = \<lparr>wa_WorkerID = 3, wa_SupplierID = 4\<rparr>"

definition demo_heartbeat :: "int \<Rightarrow> ServiceLease \<times> lease_db \<Rightarrow> (ServiceLease \<times> lease_db) result" where
  "demo_heartbeat now s = HeartbeatServiceLease demo_lease_deps micros demo_worker 1 demo_ready now (Some (fst s)) (snd s)"

definition demo_lease_ops :: "lease_op list" where
  "demo_lease_ops = [Heartbeat_op demo_worker demo_ready 1999, Heartbeat_op demo_worker demo_ready 2999, Worker_lost_op]"

definition demo_books :: "ServiceLease \<times> lease_db" where
  "demo_books = fold (lease_step demo_lease_deps micros) demo_lease_ops (demo_lease_row ''ACTIVE'' 2, demo_lease_db)"

definition demo_after :: "int \<Rightarrow> ServiceLease \<times> lease_db \<Rightarrow> ServiceLease \<times> lease_db" where
  "demo_after now s = (case demo_heartbeat now s of Inl _ \<Rightarrow> s | Inr s' \<Rightarrow> s')"

lemma demo_heartbeat_after:
  "isOK (demo_heartbeat now s) \<Longrightarrow>
   HeartbeatServiceLease demo_lease_deps micros demo_worker 1 demo_ready now (Some (fst s)) (snd s) =
     Inr (fst (demo_after now s), snd (demo_after now s))"
  by (auto simp: demo_after_def demo_heartbeat_def isOK_iff)

theorem lease_books_balance_witness:
  "sint (sl_CumulativeReplicaNanos (fst demo_books)) = 7996 \<and>
   sint (sl_BuyerChargeNanos (fst demo_books)) = sint (sl_SupplierPayableNanos (fst demo_books)) +
     sint (sl_KnownVariableCostNanos (fst demo_books)) + sint (sl_KnownContributionNanos (fst demo_books)) \<and>
   sum_list (supplier_deltas (sl_ID (fst demo_books)) (snd demo_books)) = sint (sl_SupplierPayableNanos (fst demo_books))"
proof -
  let ?row = "demo_lease_row ''ACTIVE'' 2"
  have z: "sl_CumulativeReplicaNanos ?row = 0" "sl_BuyerChargeNanos ?row = 0" "sl_SupplierPayableNanos ?row = 0"
    "sl_KnownVariableCostNanos ?row = 0" "sl_KnownContributionNanos ?row = 0" "supplier_deltas (sl_ID ?row) demo_lease_db = []"
    by (simp_all add: demo_lease_row_def supplier_deltas_def demo_lease_db_def)
  have "sint (sl_CumulativeReplicaNanos (fst demo_books)) = 7996" by code_simp
  moreover have "fold (lease_step demo_lease_deps micros) demo_lease_ops (?row, demo_lease_db) = (fst demo_books, snd demo_books)"
    by (simp only: prod.collapse demo_books_def)
  note lease_books_balance [OF z this]
  ultimately show ?thesis by blast
qed

theorem failed_lease_billed_again_witness:
  "let s = demo_after 2000 (demo_lease_row ''FAILOVER_REQUIRED'' 0, demo_lease_db)
   in sl_State (fst s) = ''FAILOVER_REQUIRED'' \<and> isOK (meterServiceLeaseTx 4000 (fst s) (snd s)) \<and>
     sint (sl_MinimumReplicas (demo_lease_row ''FAILOVER_REQUIRED'' 0)) \<le> sint (sl_ActiveReplicas (fst s))"
proof -
  let ?init = "(demo_lease_row ''FAILOVER_REQUIRED'' 0, demo_lease_db)"
  let ?s = "demo_after 2000 ?init"
  have ok: "isOK (demo_heartbeat 2000 ?init)" by code_simp
  have m: "isOK (meterServiceLeaseTx 4000 (fst ?s) (snd ?s))" by code_simp
  then obtain r d where r: "meterServiceLeaseTx 4000 (fst ?s) (snd ?s) = Inr (r, d)" by (auto simp: isOK_iff)
  have t: "sl_LastMeteredAt (fst ?s) = 2000" by code_simp
  have e: "sl_ExpiresAt (fst ?s) = 9000" by code_simp
  have "sl_State (fst ?s) = ''FAILOVER_REQUIRED'' \<and>
      sint (sl_MinimumReplicas (demo_lease_row ''FAILOVER_REQUIRED'' 0)) \<le> sint (sl_ActiveReplicas (fst ?s))"
    using failed_lease_billed_again [OF demo_heartbeat_after [OF ok] _ _ _ _ _ _ _ _ r]
    by (simp add: t e demo_lease_row_simps demo_ready_def)
  then show ?thesis using m by simp
qed

theorem heartbeat_cadence_drift_witness:
  "let s = (demo_lease_row ''ACTIVE'' 2, demo_lease_db)
   in sint (sl_CumulativeReplicaNanos (fst (demo_after 2999 (demo_after 1999 s)))) =
      sint (sl_CumulativeReplicaNanos (fst (demo_after 2999 s))) + 1998"
proof -
  let ?s = "(demo_lease_row ''ACTIVE'' 2, demo_lease_db)"
  have 1: "isOK (demo_heartbeat 1999 ?s)" by code_simp
  have 2: "isOK (demo_heartbeat 2999 (demo_after 1999 ?s))" by code_simp
  have 3: "isOK (demo_heartbeat 2999 ?s)" by code_simp
  show ?thesis
    using heartbeat_cadence_drift [OF demo_heartbeat_after [OF 1] demo_heartbeat_after [OF 2] demo_heartbeat_after [OF 3]]
    by (simp add: demo_lease_row_simps demo_ready_def micros_def)
qed

end
