(* ===== verification/Lease_Settlement.thy ===== *)
theory Lease_Settlement
  imports Prepaid Service_Lease
begin

text \<open>
  The end of a service lease (\<^verbatim>\<open>service_leases.go\<close>): the terminal settlement in the ledger, failover to
  another worker, cancellation, termination without a replacement and the sweep over expired
  leases. The system holds the lease rows, the metering tables, the worker offers and the ledger.

  Each operation is one transaction under the lock of the lease row; an error rolls it back.
  The columns counting warm replicas are integers.
\<close>

section \<open>References and payables\<close>

definition serviceLeaseLedgerRef :: "(uuid \<Rightarrow> string) \<Rightarrow> uuid \<Rightarrow> string \<Rightarrow> string" where
  "serviceLeaseLedgerRef U leaseID kind = ''service-lease-ledger-'' @ U leaseID @ '':'' @ kind"

definition serviceLeaseSupplierCreditLedgerRef :: "(uuid \<Rightarrow> string) \<Rightarrow> uuid \<Rightarrow> uuid \<Rightarrow> string" where
  "serviceLeaseSupplierCreditLedgerRef U leaseID supplier = serviceLeaseLedgerRef U leaseID KindSupplierCredit @ '':'' @ U supplier"

definition insertServiceLeaseLedgerEntryTx ::
    "settlement \<Rightarrow> uuid \<Rightarrow> string \<Rightarrow> ledgerInsert \<Rightarrow> ledger_db \<Rightarrow> ledger_db result" where
  "insertServiceLeaseLedgerEntryTx g leaseID reference entry0 db =
     (if leaseID = uuid_Nil then Inl (Msg ''service ledger entry requires a lease'')
      else if reference = [] then Inl (Msg ''service ledger entry requires an immutable reference'')
      else let entry = entry0\<lparr>li_PayoutRef := reference\<rparr> in
      bind_result (insertLedgerEntryIfAbsentByRefTx g entry db) (\<lambda>(n, db1).
      if n = 1 then Inr db1
      else bind_result (resolveLedgerInsert g entry) (\<lambda>resolved.
      case find (has_ref (li_Kind resolved) (li_PayoutRef resolved)) (ld_entries db1) of
        None \<Rightarrow> Inl errNoRows
      | Some r \<Rightarrow>
          if lr_amount r \<noteq> sint (li_AmountMicros resolved) \<or> \<not> sameOptionalUUID (lr_buyer r) (li_BuyerID resolved) \<or>
            \<not> sameOptionalUUID (lr_supplier r) (li_SupplierID resolved) \<or> lr_currency r \<noteq> li_Currency resolved
          then Inl (Msg ''conflicting terminal service ledger entry'') else Inr db1)))"

text \<open>\<^verbatim>\<open>SELECT supplier_id, sum(...)::bigint ... GROUP BY supplier_id ORDER BY supplier_id\<close>, read row by row.\<close>

definition supplier_total :: "uuid \<Rightarrow> uuid \<Rightarrow> lease_db \<Rightarrow> int" where
  "supplier_total leaseID supplier db = sum_list (map (\<lambda>r. sint (su_SupplierPayableDeltaNanos r))
     (filter (\<lambda>r. su_LeaseID r = leaseID \<and> su_SupplierID r = supplier) (lb_supplier db)))"

fun scan_payables :: "(uuid \<times> int) list \<Rightarrow> (uuid \<times> int64) list result" where
  "scan_payables [] = Inr []"
| "scan_payables ((supplier, t) # rows) =
     bind_result (sql_bigint t) (\<lambda>payable.
     if supplier = uuid_Nil \<or> payable <s 0 then Inl (Msg ''service supplier meter contains invalid payable attribution'')
     else bind_result (scan_payables rows) (\<lambda>ps. Inr ((supplier, payable) # ps)))"

definition serviceLeaseSupplierPayables :: "uuid \<Rightarrow> lease_db \<Rightarrow> (uuid \<times> int64) list result" where
  "serviceLeaseSupplierPayables leaseID db =
     scan_payables (map (\<lambda>s. (s, supplier_total leaseID s db))
       (sort (remdups (map su_SupplierID (filter (\<lambda>r. su_LeaseID r = leaseID) (lb_supplier db))))))"

section \<open>The terminal settlement\<close>

definition minimumPayoutHold :: int where
  "minimumPayoutHold = 24 * 60 * 60 * 1000000000"

definition payoutReleaseAt :: "int \<Rightarrow> int \<Rightarrow> int" where
  "payoutReleaseAt now requestedSecs =
     (let hold = requestedSecs * 1000000000 in now + (if hold < minimumPayoutHold then minimumPayoutHold else hold))"

fun credit_suppliers ::
    "(uuid \<Rightarrow> string) \<Rightarrow> settlement \<Rightarrow> liabilityAuthority \<Rightarrow> Currency \<Rightarrow> uuid \<Rightarrow> int \<Rightarrow> (uuid \<times> int64) list \<Rightarrow> int64 \<Rightarrow> int64 \<Rightarrow>
     ledger_db \<Rightarrow> (int64 \<times> int64 \<times> ledger_db) result" where
  "credit_suppliers U g auth currency leaseID now [] payableNanos supplierMicros db = Inr (payableNanos, supplierMicros, db)"
| "credit_suppliers U g auth currency leaseID now ((supplier, payable) # payables) payableNanos supplierMicros db =
     (if word_of_int maxInt64 - payableNanos <s payable then Inl (Msg ''service supplier payable attribution overflow'')
      else if payable = 0 then credit_suppliers U g auth currency leaseID now payables (payableNanos + payable) supplierMicros db
      else bind_result (LedgerMicrosFromNanos \<lparr>mn_currency = currency, mn_nanos = payable\<rparr>) (\<lambda>creditMicros.
      if creditMicros \<le>s 0 \<or> word_of_int maxInt64 - supplierMicros <s creditMicros
      then Inl (Msg ''service supplier ledger projection is invalid'')
      else bind_result (applyLiabilityAuthority ((ledger_literal KindSupplierCredit creditMicros (Currency_Code currency) PayoutHeld)
          \<lparr>li_SupplierID := Some supplier, li_ReleaseAt := Some (payoutReleaseAt now 0)\<rparr>) auth) (\<lambda>credit.
      bind_result (insertServiceLeaseLedgerEntryTx g leaseID (serviceLeaseSupplierCreditLedgerRef U leaseID supplier) credit db) (\<lambda>db1.
      credit_suppliers U g auth currency leaseID now payables (payableNanos + payable) (supplierMicros + creditMicros) db1))))"

text \<open>The charge, the prepaid debit and the platform's share.\<close>

definition settle_rows ::
    "(uuid \<Rightarrow> string) \<Rightarrow> settlement \<Rightarrow> liabilityAuthority \<Rightarrow> Currency \<Rightarrow> ServiceLease \<Rightarrow> int64 \<Rightarrow> int64 \<Rightarrow> ledger_db \<Rightarrow> ledger_db result" where
  "settle_rows U g auth currency lease buyerMicros platformMicros db =
     bind_result (applyLiabilityAuthority ((ledger_literal KindBuyerCharge (- buyerMicros) (Currency_Code currency) PayoutReleased)
       \<lparr>li_BuyerID := Some (sl_BuyerID lease)\<rparr>) auth) (\<lambda>buyerCharge.
     bind_result (insertServiceLeaseLedgerEntryTx g (sl_ID lease) (serviceLeaseLedgerRef U (sl_ID lease) KindBuyerCharge) buyerCharge db) (\<lambda>db1.
     bind_result (debitPrepaidForServiceLeaseTx U g (sl_BuyerID lease) (sl_ID lease) buyerMicros db1) (\<lambda>db2.
     bind_result (applyLiabilityAuthority (ledger_literal KindPlatformTake platformMicros (Currency_Code currency) PayoutReleased) auth) (\<lambda>platformTake.
     insertServiceLeaseLedgerEntryTx g (sl_ID lease) (serviceLeaseLedgerRef U (sl_ID lease) KindPlatformTake) platformTake db2))))"

definition settle_money ::
    "(uuid \<Rightarrow> string) \<Rightarrow> settlement \<Rightarrow> int \<Rightarrow> ServiceLease \<Rightarrow> liabilityAuthority \<Rightarrow> Currency \<Rightarrow> int64 \<Rightarrow> (uuid \<times> int64) list \<Rightarrow> ledger_db \<Rightarrow>
     ledger_db result" where
  "settle_money U g now lease auth currency buyerMicros payables db =
     bind_result (credit_suppliers U g auth currency (sl_ID lease) now payables 0 0 db) (\<lambda>(payableNanos, supplierMicros, db1).
     if payableNanos \<noteq> sl_SupplierPayableNanos lease \<or> buyerMicros \<le>s 0 \<or> supplierMicros \<le>s 0 \<or>
       buyerMicros <s supplierMicros \<or> sl_ReservedBuyerMicros lease <s buyerMicros
     then Inl (Msg ''service terminal ledger projection violates frozen prepaid or supplier bounds'')
     else let platformMicros = buyerMicros - supplierMicros in
     if platformMicros <s 0 then Inl (Msg ''service terminal ledger projection has negative platform gross'')
     else settle_rows U g auth currency lease buyerMicros platformMicros db1)"

definition settleFinalServiceLeaseTx ::
    "(uuid \<Rightarrow> string) \<Rightarrow> lease_deps \<Rightarrow> settlement \<Rightarrow> int \<Rightarrow> ServiceLease \<Rightarrow> lease_db \<Rightarrow> ledger_db \<Rightarrow> ledger_db result" where
  "settleFinalServiceLeaseTx U D g now lease meter db =
     (if sl_ID lease = uuid_Nil then Inl (Msg ''service terminal settlement requires an accepted lease'')
      else if sl_ReservedBuyerMicros lease \<le>s 0 then
        (if sl_PricingAcceptanceID lease \<noteq> None
         then Inl (Msg ''accepted service lease has no positive frozen prepaid reservation'') else Inr db)
      else bind_result (validateServiceLeaseAcceptedPricingBinding lease) (\<lambda>_.
      bind_result (wrap_result ''service lease terminal pricing digest'' (pricingDecisionDigest D (sl_Pricing lease))) (\<lambda>gotSHA.
      if sl_PricingDecisionSHA256 lease = [] \<or> gotSHA \<noteq> sl_PricingDecisionSHA256 lease
      then Inl (Msg ''service lease terminal pricing digest mismatch'')
      else let auth = \<lparr>la_PricingDecisionSHA256 = sl_PricingDecisionSHA256 lease, la_LaneSettlementID = U (sl_ID lease),
          la_LifecycleRevision = []\<rparr> in
      bind_result (liabilityAuthority_validate auth) (\<lambda>_.
      bind_result (wrap_result ''service settlement currency'' (ParseCurrency (pd_Currency (sl_Pricing lease)))) (\<lambda>currency.
      bind_result (LedgerMicrosFromNanos \<lparr>mn_currency = currency, mn_nanos = sl_BuyerChargeNanos lease\<rparr>) (\<lambda>buyerMicros.
      bind_result (serviceLeaseSupplierPayables (sl_ID lease) meter) (\<lambda>payables.
      settle_money U g now lease auth currency buyerMicros payables db)))))))"

section \<open>The system\<close>

record worker_offer =
  wo_worker :: uuid
  wo_supplier :: uuid
  wo_profile :: string
  wo_sha :: string
  wo_region :: string
  wo_maximum :: int
  wo_available :: int
  wo_supplier_rate :: int64
  wo_residency_rate :: int64
  wo_currency :: "string option"
  wo_p95 :: int64
  wo_p99 :: int64
  wo_count :: int
  wo_window :: int64
  wo_kind :: string
  wo_status :: string
  wo_last_seen :: int

text \<open>
  A sample is a copy of the offer; the hardware class it adds from \<^verbatim>\<open>workers\<close> is left out. The times
  of the \<^verbatim>\<open>finalized_at\<close> column are kept by lease.
\<close>

record lease_sys =
  ly_rows :: "ServiceLease list"
  ly_meter :: lease_db
  ly_offers :: "worker_offer list"
  ly_samples :: "worker_offer list"
  ly_finalized :: "(uuid \<times> int) list"
  ly_ledger :: ledger_db

definition lease_of :: "lease_sys \<Rightarrow> uuid \<Rightarrow> ServiceLease option" where
  "lease_of sys leaseID = find (\<lambda>r. sl_ID r = leaseID) (ly_rows sys)"

definition put_lease :: "ServiceLease \<Rightarrow> ServiceLease list \<Rightarrow> ServiceLease list" where
  "put_lease lease rows = map (\<lambda>r. if sl_ID r = sl_ID lease then lease else r) rows"

definition lease_ledger :: "lease_sys \<Rightarrow> ledger_db" where
  "lease_ledger sys = (ly_ledger sys)\<lparr>ld_leases := map (\<lambda>r. (sl_ID r, (sl_BuyerID r, pd_Currency (sl_Pricing r)))) (ly_rows sys)\<rparr>"

definition offers_for :: "uuid \<Rightarrow> string \<Rightarrow> string \<Rightarrow> worker_offer \<Rightarrow> bool" where
  "offers_for worker profile region w \<longleftrightarrow> wo_worker w = worker \<and> wo_profile w = profile \<and> wo_region w = region"

definition recordServiceLeaseOfferSampleTx :: "uuid \<Rightarrow> string \<Rightarrow> string \<Rightarrow> lease_sys \<Rightarrow> lease_sys result" where
  "recordServiceLeaseOfferSampleTx worker profile region sys =
     (case find (offers_for worker profile region) (ly_offers sys) of
        None \<Rightarrow> Inl errNoRows | Some w \<Rightarrow> Inr (sys\<lparr>ly_samples := ly_samples sys @ [w]\<rparr>))"

definition change_offer :: "uuid \<Rightarrow> string \<Rightarrow> string \<Rightarrow> (worker_offer \<Rightarrow> worker_offer) \<Rightarrow> lease_sys \<Rightarrow> lease_sys" where
  "change_offer worker profile region f sys =
     sys\<lparr>ly_offers := map (\<lambda>w. if offers_for worker profile region w then f w else w) (ly_offers sys)\<rparr>"

definition release_replicas :: "int64 \<Rightarrow> worker_offer \<Rightarrow> worker_offer" where
  "release_replicas n w = w\<lparr>wo_available := min (wo_maximum w) (wo_available w + sint n)\<rparr>"

text \<open>The statements that close a lease after its settlement, and the commit.\<close>

definition close_lease ::
    "string \<Rightarrow> int \<Rightarrow> ServiceLease \<Rightarrow> lease_db \<Rightarrow> ledger_db \<Rightarrow> lease_sys \<Rightarrow> lease_sys result" where
  "close_lease event finalizedAt lease meter ledger sys =
     bind_result (recordServiceLeaseOfferSampleTx (sl_WorkerID lease) (sl_RuntimeProfileID lease) (sl_Region lease)
       (change_offer (sl_WorkerID lease) (sl_RuntimeProfileID lease) (sl_Region lease) (release_replicas (sl_MaximumReplicas lease))
         (sys\<lparr>ly_rows := put_lease lease (ly_rows sys), ly_finalized := ly_finalized sys @ [(sl_ID lease, finalizedAt)]\<rparr>))) (\<lambda>sys1.
     bind_result (ledger_commit ledger) (\<lambda>ledger1.
       Inr (sys1\<lparr>ly_meter := log_events (sl_ID lease) [event] meter, ly_ledger := ledger1\<rparr>)))"

section \<open>Cancellation and termination\<close>

text \<open>The settlement of a lease that was used, and the bound on what it used.\<close>

definition settle_if_used ::
    "(uuid \<Rightarrow> string) \<Rightarrow> lease_deps \<Rightarrow> settlement \<Rightarrow> int \<Rightarrow> ServiceLease \<Rightarrow> lease_db \<Rightarrow> ledger_db \<Rightarrow> string \<Rightarrow> ledger_db result" where
  "settle_if_used U D g now lease meter ledger msg =
     bind_result (if 0 <s sl_BuyerChargeNanos lease then settleFinalServiceLeaseTx U D g now lease meter ledger else Inr ledger) (\<lambda>ledger1.
     bind_result (if 0 <s sl_BuyerChargeNanos lease
       then bind_result (ParseCurrency (pd_Currency (sl_Pricing lease))) (\<lambda>currency.
         LedgerMicrosFromNanos \<lparr>mn_currency = currency, mn_nanos = sl_BuyerChargeNanos lease\<rparr>)
       else Inr 0) (\<lambda>usedMicros.
     if usedMicros <s 0 \<or> sl_ReservedBuyerMicros lease <s usedMicros then Inl (Msg msg) else Inr ledger1))"

definition cancel_cutoff :: "int \<Rightarrow> ServiceLease \<Rightarrow> int" where
  "cancel_cutoff now lease =
     (if \<not> now < sl_ExpiresAt lease then sl_ExpiresAt lease
      else if sl_State lease = ''ACTIVE'' \<or> sl_State lease = ''UPGRADING''
      then max (sl_LastMeteredAt lease) (min now (sl_LastWorkerHeartbeatAt lease))
      else sl_LastMeteredAt lease)"

definition CancelServiceLease ::
    "(uuid \<Rightarrow> string) \<Rightarrow> lease_deps \<Rightarrow> (int \<Rightarrow> int) \<Rightarrow> settlement \<Rightarrow> uuid \<Rightarrow> uuid \<Rightarrow> int \<Rightarrow> lease_sys \<Rightarrow> (bool \<times> lease_sys) result" where
  "CancelServiceLease U D pgTime g buyerID leaseID now sys =
     (if buyerID = uuid_Nil \<or> leaseID = uuid_Nil then Inl (Msg ''service lease cancellation requires buyer and lease identity'')
      else case find (\<lambda>r. sl_ID r = leaseID \<and> sl_BuyerID r = buyerID) (ly_rows sys) of
        None \<Rightarrow> Inl (Sentinel ''errNotFound'')
      | Some row \<Rightarrow>
          bind_result (scanServiceLease D row) (\<lambda>lease.
          if sl_State lease = ''COMPLETED'' \<or> sl_State lease = ''CANCELLED'' then Inr (False, sys)
          else bind_result (meterServiceLeaseTx (cancel_cutoff now lease) lease (ly_meter sys)) (\<lambda>(lease1, meter1).
          bind_result (settle_if_used U D g now lease1 meter1 (lease_ledger sys) ''service lease cancellation violates frozen prepaid reservation'') (\<lambda>ledger1.
          bind_result (close_lease ''CANCELLED'' (pgTime now)
            (lease1\<lparr>sl_State := ''CANCELLED'', sl_ActiveReplicas := 0, sl_LastMeteredAt := pgTime (sl_LastMeteredAt lease1)\<rparr>)
            meter1 ledger1 sys) (\<lambda>sys1. Inr (True, sys1))))))"

definition TerminateServiceLeaseNoReplacement ::
    "(uuid \<Rightarrow> string) \<Rightarrow> lease_deps \<Rightarrow> (int \<Rightarrow> int) \<Rightarrow> settlement \<Rightarrow> int \<Rightarrow> uuid \<Rightarrow> lease_sys \<Rightarrow> (bool \<times> lease_sys) result" where
  "TerminateServiceLeaseNoReplacement U D pgTime g now leaseID sys =
     (if leaseID = uuid_Nil then Inl (Msg ''service lease termination requires lease identity'')
      else case lease_of sys leaseID of None \<Rightarrow> Inl (Sentinel ''errNotFound'') | Some row \<Rightarrow>
        bind_result (scanServiceLease D row) (\<lambda>lease.
        if sl_State lease \<noteq> ''FAILOVER_REQUIRED'' then Inr (False, sys)
        else if \<not> now < sl_ExpiresAt lease then Inr (False, sys)
        else bind_result (meterServiceLeaseTx (sl_LastMeteredAt lease) lease (ly_meter sys)) (\<lambda>(lease1, meter1).
        bind_result (settle_if_used U D g now lease1 meter1 (lease_ledger sys) ''service lease failover termination violates frozen prepaid reservation'') (\<lambda>ledger1.
        bind_result (close_lease ''FAILOVER_TERMINATED'' (pgTime now)
          (lease1\<lparr>sl_State := ''CANCELLED'', sl_ActiveReplicas := 0, sl_LastMeteredAt := pgTime (sl_LastMeteredAt lease1)\<rparr>)
          meter1 ledger1 sys) (\<lambda>sys1. Inr (True, sys1))))))"

section \<open>Expiry\<close>

definition finalizeExpiredServiceLease ::
    "(uuid \<Rightarrow> string) \<Rightarrow> lease_deps \<Rightarrow> (int \<Rightarrow> int) \<Rightarrow> settlement \<Rightarrow> int \<Rightarrow> uuid \<Rightarrow> lease_sys \<Rightarrow> (bool \<times> lease_sys) result" where
  "finalizeExpiredServiceLease U D pgTime g now leaseID sys =
     (case lease_of sys leaseID of None \<Rightarrow> Inl (Sentinel ''errNotFound'') | Some row \<Rightarrow>
        bind_result (scanServiceLease D row) (\<lambda>lease.
        if sl_State lease = ''COMPLETED'' \<or> sl_State lease = ''CANCELLED'' \<or> now < sl_ExpiresAt lease then Inr (False, sys)
        else bind_result (meterServiceLeaseTx (sl_ExpiresAt lease) lease (ly_meter sys)) (\<lambda>(lease1, meter1).
        bind_result (settleFinalServiceLeaseTx U D g now lease1 meter1 (lease_ledger sys)) (\<lambda>ledger1.
        bind_result (close_lease ''EXPIRED'' (pgTime now)
          (lease1\<lparr>sl_State := ''COMPLETED'', sl_LastMeteredAt := pgTime (sl_LastMeteredAt lease1)\<rparr>)
          meter1 ledger1 sys) (\<lambda>sys1. Inr (True, sys1))))))"

text \<open>The sweeps run one transaction per lease and stop at the first error.\<close>

fun sweep :: "(uuid \<Rightarrow> 's \<Rightarrow> (bool \<times> 's) result) \<Rightarrow> uuid list \<Rightarrow> nat \<Rightarrow> 's \<Rightarrow> (nat \<times> go_error option) \<times> 's" where
  "sweep f [] n sys = ((n, None), sys)"
| "sweep f (i # is) n sys =
     (case f i sys of Inl e \<Rightarrow> ((n, Some e), sys) | Inr (changed, sys') \<Rightarrow> sweep f is (if changed then n + 1 else n) sys')"

definition expired_leases :: "nat \<Rightarrow> int \<Rightarrow> lease_sys \<Rightarrow> uuid list" where
  "expired_leases limit0 now sys = take limit0 (map sl_ID (sort_key sl_ExpiresAt (filter (\<lambda>r.
     sl_State r \<in> set [''ACTIVE'', ''UPGRADING'', ''FAILOVER_REQUIRED''] \<and> sl_ExpiresAt r \<le> now) (ly_rows sys))))"

definition FinalizeExpiredServiceLeases ::
    "(uuid \<Rightarrow> string) \<Rightarrow> lease_deps \<Rightarrow> (int \<Rightarrow> int) \<Rightarrow> settlement \<Rightarrow> nat \<Rightarrow> int \<Rightarrow> lease_sys \<Rightarrow> (nat \<times> go_error option) \<times> lease_sys" where
  "FinalizeExpiredServiceLeases U D pgTime g limit0 now sys =
     (if limit0 < 1 then ((0, None), sys)
      else sweep (finalizeExpiredServiceLease U D pgTime g now) (expired_leases limit0 now sys) 0 sys)"

section \<open>Lost workers and failover\<close>

definition serviceLeaseHeartbeatTimeout :: int where
  "serviceLeaseHeartbeatTimeout = 45 * 1000000000"

definition lose_worker :: "lease_deps \<Rightarrow> (int \<Rightarrow> int) \<Rightarrow> uuid \<Rightarrow> lease_sys \<Rightarrow> (bool \<times> lease_sys) result" where
  "lose_worker D pgTime leaseID sys =
     bind_result (markServiceLeaseWorkerLost D pgTime (lease_of sys leaseID) (ly_meter sys)) (\<lambda>(changed, row, meter).
       Inr (changed, if changed then sys\<lparr>ly_rows := put_lease row (ly_rows sys), ly_meter := meter\<rparr> else sys))"

definition silent_leases :: "nat \<Rightarrow> int \<Rightarrow> lease_sys \<Rightarrow> uuid list" where
  "silent_leases limit0 now sys = take limit0 (map sl_ID (sort_key sl_LastWorkerHeartbeatAt (filter (\<lambda>r.
     sl_State r \<in> set [''ACTIVE'', ''UPGRADING''] \<and> sl_LastWorkerHeartbeatAt r < now - serviceLeaseHeartbeatTimeout) (ly_rows sys))))"

definition RecoverServiceLeases ::
    "lease_deps \<Rightarrow> (int \<Rightarrow> int) \<Rightarrow> nat \<Rightarrow> int \<Rightarrow> lease_sys \<Rightarrow> (nat \<times> go_error option) \<times> lease_sys" where
  "RecoverServiceLeases D pgTime limit0 now sys =
     (if limit0 < 1 then ((0, None), sys) else sweep (lose_worker D pgTime) (silent_leases limit0 now sys) 0 sys)"

definition replacement :: "int \<Rightarrow> ServiceLease \<Rightarrow> ServiceLeasePricingAuthority \<Rightarrow> worker_offer \<Rightarrow> bool" where
  "replacement now lease authority w \<longleftrightarrow>
     wo_profile w = sl_RuntimeProfileID lease \<and> wo_sha w = sl_RuntimeProfileSHA256 lease \<and> wo_region w = sl_Region lease \<and>
     wo_status w = ''READY'' \<and> 0 <s wo_p95 w \<and> 5 \<le> wo_count w \<and> 1 \<le>s wo_window w \<and> wo_window w \<le>s 300 \<and>
     wo_kind w = ''DATA_PLANE_COMPLETIONS_V1'' \<and> wo_p95 w \<le>s sl_MaximumP95LatencyMillis lease \<and>
     (sl_MaximumP99LatencyMillis lease = 0 \<or> 0 <s wo_p99 w \<and> wo_p99 w \<le>s sl_MaximumP99LatencyMillis lease) \<and>
     wo_worker w \<noteq> sl_WorkerID lease \<and> now - 45 * 1000000000 < wo_last_seen w \<and> sint (sl_MaximumReplicas lease) \<le> wo_available w \<and>
     wo_supplier_rate w \<le>s sp_SupplierNanosPerReplicaHour authority \<and>
     wo_residency_rate w \<le>s sp_ResidencyNanosPerReplicaHour authority \<and> wo_currency w = Some (pd_Currency (sl_Pricing lease))"

text \<open>The cheapest offer first, then the smallest worker id; \<^verbatim>\<open>locked\<close> marks the rows another transaction holds.\<close>

definition pick_replacement ::
    "(worker_offer \<Rightarrow> bool) \<Rightarrow> int \<Rightarrow> ServiceLease \<Rightarrow> ServiceLeasePricingAuthority \<Rightarrow> worker_offer list \<Rightarrow> worker_offer option" where
  "pick_replacement locked now lease authority offers =
     find (\<lambda>_. True) (sort_key (\<lambda>w. sint (wo_supplier_rate w) + sint (wo_residency_rate w)) (sort_key wo_worker
       (filter (\<lambda>w. replacement now lease authority w \<and> \<not> locked w) offers)))"

definition take_replicas :: "int64 \<Rightarrow> worker_offer \<Rightarrow> worker_offer" where
  "take_replicas n w = (if sint n \<le> wo_available w then w\<lparr>wo_available := wo_available w - sint n\<rparr> else w)"

definition move_lease :: "(int \<Rightarrow> int) \<Rightarrow> int \<Rightarrow> ServiceLease \<Rightarrow> worker_offer \<Rightarrow> lease_sys \<Rightarrow> lease_sys result" where
  "move_lease pgTime now lease w sys =
     bind_result (meterServiceLeaseTx now lease (ly_meter sys)) (\<lambda>(lease1, meter1).
     bind_result (recordServiceLeaseOfferSampleTx (wo_worker w) (sl_RuntimeProfileID lease1) (sl_Region lease1)
       (change_offer (wo_worker w) (sl_RuntimeProfileID lease1) (sl_Region lease1) (take_replicas (sl_MaximumReplicas lease1)) sys)) (\<lambda>sys1.
     Inr (sys1\<lparr>ly_rows := put_lease (lease1\<lparr>sl_WorkerID := wo_worker w, sl_SupplierID := wo_supplier w, sl_State := ''ACTIVE'',
         sl_ActiveReplicas := sl_MinimumReplicas lease1, sl_LastMeteredAt := pgTime (sl_LastMeteredAt lease1),
         sl_LastWorkerHeartbeatAt := pgTime (sl_LastMeteredAt lease1)\<rparr>) (ly_rows sys1),
       ly_meter := log_events (sl_ID lease1) [''FAILOVER_COMPLETED''] meter1\<rparr>)))"

definition FailoverServiceLease ::
    "lease_deps \<Rightarrow> (int \<Rightarrow> int) \<Rightarrow> (worker_offer \<Rightarrow> bool) \<Rightarrow> int \<Rightarrow> uuid \<Rightarrow> lease_sys \<Rightarrow> (bool \<times> lease_sys) result" where
  "FailoverServiceLease D pgTime locked now leaseID sys =
     (case lease_of sys leaseID of None \<Rightarrow> Inl (Sentinel ''errNotFound'') | Some row \<Rightarrow>
        bind_result (scanServiceLease D row) (\<lambda>lease.
        if sl_State lease \<noteq> ''FAILOVER_REQUIRED'' \<or> \<not> now < sl_ExpiresAt lease then Inr (False, sys)
        else case pd_ServiceLease (sl_Pricing lease) of None \<Rightarrow> Inl (Sentinel ''panic'') | Some authority \<Rightarrow>
        (case pick_replacement locked now lease authority (ly_offers sys) of None \<Rightarrow> Inr (False, sys)
         | Some w \<Rightarrow> bind_result (move_lease pgTime now lease w sys) (\<lambda>sys1. Inr (True, sys1)))))"

definition pending_failovers :: "nat \<Rightarrow> int \<Rightarrow> lease_sys \<Rightarrow> uuid list" where
  "pending_failovers limit0 now sys = take limit0 (map sl_ID (sort_key sl_LastWorkerHeartbeatAt (filter (\<lambda>r.
     sl_State r = ''FAILOVER_REQUIRED'' \<and> now < sl_ExpiresAt r) (ly_rows sys))))"

fun failover_each ::
    "(uuid \<Rightarrow> lease_sys \<Rightarrow> (bool \<times> lease_sys) result) \<Rightarrow> (uuid \<Rightarrow> lease_sys \<Rightarrow> (bool \<times> lease_sys) result) \<Rightarrow>
     uuid list \<Rightarrow> nat \<times> nat \<Rightarrow> lease_sys \<Rightarrow> ((nat \<times> nat) \<times> go_error option) \<times> lease_sys" where
  "failover_each failover terminate [] n sys = ((n, None), sys)"
| "failover_each failover terminate (i # is) (failedOver, terminated) sys =
     (case failover i sys of Inl e \<Rightarrow> (((failedOver, terminated), Some e), sys)
      | Inr (moved, sys1) \<Rightarrow>
          if moved then failover_each failover terminate is (failedOver + 1, terminated) sys1
          else (case terminate i sys1 of Inl e \<Rightarrow> (((failedOver, terminated), Some e), sys1)
            | Inr (ok, sys2) \<Rightarrow> failover_each failover terminate is (failedOver, if ok then terminated + 1 else terminated) sys2))"

definition FailoverPendingServiceLeases ::
    "(uuid \<Rightarrow> string) \<Rightarrow> lease_deps \<Rightarrow> (int \<Rightarrow> int) \<Rightarrow> settlement \<Rightarrow> (worker_offer \<Rightarrow> bool) \<Rightarrow> nat \<Rightarrow> int \<Rightarrow> lease_sys \<Rightarrow>
     ((nat \<times> nat) \<times> go_error option) \<times> lease_sys" where
  "FailoverPendingServiceLeases U D pgTime g locked limit0 now sys =
     (if limit0 < 1 then (((0, 0), None), sys)
      else failover_each (FailoverServiceLease D pgTime locked now) (TerminateServiceLeaseNoReplacement U D pgTime g now)
        (pending_failovers limit0 now sys) (0, 0) sys)"

section \<open>What the ledger holds after a settlement\<close>

definition entry_amount :: "ledger_db \<Rightarrow> string \<Rightarrow> string \<Rightarrow> int option" where
  "entry_amount db kind ref = map_option lr_amount (find (has_ref kind ref) (ld_entries db))"

definition extends :: "ledger_db \<Rightarrow> ledger_db \<Rightarrow> bool" where
  "extends db db' \<longleftrightarrow> (\<exists>rows. ld_entries db' = ld_entries db @ rows)"

lemma extends_refl: "extends db db"
  by (simp add: extends_def)

lemma extends_trans: "extends a b \<Longrightarrow> extends b c \<Longrightarrow> extends a c"
  by (auto simp: extends_def)

lemma find_append: "find P (xs @ ys) = (case find P xs of None \<Rightarrow> find P ys | Some x \<Rightarrow> Some x)"
  by (induction xs) auto

lemma entry_amount_extends: "extends db db' \<Longrightarrow> entry_amount db kind ref = Some a \<Longrightarrow> entry_amount db' kind ref = Some a"
  by (auto simp: extends_def entry_amount_def find_append)

lemma entry_amount_add:
  assumes "\<And>s. s \<in> set (ld_entries db) \<Longrightarrow> \<not> has_ref kind ref s" "has_ref kind ref r"
  shows "entry_amount (add_row r db) kind ref = Some (lr_amount r)"
proof -
  have "find (has_ref kind ref) (ld_entries db) = None" using assms(1) by (auto simp: find_None_iff)
  then show ?thesis using assms(2) by (simp add: entry_amount_def find_append)
qed

lemma insert_service_row:
  assumes run: "insertServiceLeaseLedgerEntryTx g i ref e db = Inr db'" and kind: "li_Kind e \<notin> set prepaid_kinds"
    and cur: "ParseCurrency (li_Currency e) = Inr cur"
  shows "extends db db' \<and> books_step db db' \<and> entry_amount db' (li_Kind e) ref = Some (sint (li_AmountMicros e))"
proof -
  let ?e = "e\<lparr>li_PayoutRef := ref\<rparr>"
  have cur': "ParseCurrency (li_Currency ?e) = Inr cur" using cur by simp
  obtain n db1 where 1: "insertLedgerEntryIfAbsentByRefTx g ?e db = Inr (n, db1)"
    and 2: "(if n = 1 then Inr db1 else bind_result (resolveLedgerInsert g ?e) (\<lambda>resolved.
      case find (has_ref (li_Kind resolved) (li_PayoutRef resolved)) (ld_entries db1) of None \<Rightarrow> Inl errNoRows
      | Some r \<Rightarrow> if lr_amount r \<noteq> sint (li_AmountMicros resolved) \<or> \<not> sameOptionalUUID (lr_buyer r) (li_BuyerID resolved) \<or>
            \<not> sameOptionalUUID (lr_supplier r) (li_SupplierID resolved) \<or> lr_currency r \<noteq> li_Currency resolved
          then Inl (Msg ''conflicting terminal service ledger entry'') else Inr db1)) = Inr db'"
    using run unfolding insertServiceLeaseLedgerEntryTx_def Let_def by (auto split: if_splits)
  show ?thesis using 1 cur'
  proof (cases rule: insert_ref_cases)
    case (old s)
    then obtain resolved r where r: "resolveLedgerInsert g ?e = Inr resolved"
      "find (has_ref (li_Kind resolved) (li_PayoutRef resolved)) (ld_entries db) = Some r" "lr_amount r = sint (li_AmountMicros resolved)" "db' = db"
      using 2 by (auto split: option.splits if_splits)
    then have "entry_amount db (li_Kind e) ref = Some (sint (li_AmountMicros e))" using resolve_keeps(1,2,7) [OF r(1)] by (simp add: entry_amount_def)
    then show ?thesis using r(4) extends_refl books_step_refl by simp
  next
    case (new r)
    have db': "db' = add_row r db" using 2 new(1,2) by simp
    have row: "has_ref (li_Kind e) ref r" "lr_amount r = sint (li_AmountMicros e)" using new(3,4) by (simp_all add: carries_def has_ref_def nullif_empty_def)
    have k: "lr_kind r \<notin> set prepaid_kinds" using new(3) kind by (simp add: carries_def)
    have "prepaid_books (add_row r db) = prepaid_books db"
      unfolding prepaid_books_def prepaid_sum_add_row held_add_row counts_for_def using k by simp
    then have "books_step db db'" using k by (simp add: books_step_def db' prepaid_kinds_def)
    moreover have "entry_amount db' (li_Kind e) ref = Some (sint (li_AmountMicros e))"
      unfolding db' using entry_amount_add [of db "li_Kind e" ref r] new(5) row by simp
    ultimately show ?thesis by (simp add: db' extends_def)
  qed
qed

lemma debit_by_ref_row:
  assumes "debitPrepaidByRefTx g b a currency ref m1 m2 db = Inr db'"
  shows "extends db db' \<and> entry_amount db' KindPrepaidDebit ref = Some (- sint a)"
proof -
  have pos: "0 <s a" and ok: "\<not> (b = uuid_Nil \<or> a \<le>s 0 \<or> ref = [])"
    using assms unfolding not_sle_zero [symmetric] by (auto simp: debitPrepaidByRefTx_def split: if_splits)
  obtain cur where cur: "ParseCurrency currency = Inr cur"
    using assms ok by (cases "ParseCurrency currency") (auto simp: debitPrepaidByRefTx_def split: if_splits)
  show ?thesis
  proof (cases "find (has_ref KindPrepaidDebit ref) (ld_entries db)")
    case (Some r)
    then have "db' = db" "lr_amount r = - sint a" using assms ok cur by (simp_all add: debitPrepaidByRefTx_def split: if_splits)
    then show ?thesis using Some extends_refl by (simp add: entry_amount_def)
  next
    case None
    let ?e = "prepaid_entry KindPrepaidDebit b (- a) (Currency_Code cur) ref"
    obtain db1 n db2 where c: "take_balance (b, Currency_Code cur) a db = Inr db1" "insertLedgerEntryIfAbsentByRefTx g ?e db1 = Inr (n, db2)"
      "(if n = 0 then add_balance (b, Currency_Code cur) a db2 else Inr db2) = Inr db'"
      using assms ok cur None by (auto simp: debitPrepaidByRefTx_def Let_def)
    note same = moves_tables(1) [OF take_balance_moves [OF c(1)]]
    have e: "ParseCurrency (li_Currency ?e) = Inr cur" "li_Kind ?e = KindPrepaidDebit" "li_PayoutRef ?e = ref" "li_AmountMicros ?e = - a"
      using ParseCurrency_code [OF cur] by (simp_all add: prepaid_entry_def ledger_literal_def)
    show ?thesis using c(2) e(1)
    proof (cases rule: insert_ref_cases)
      case (old r)
      then show ?thesis using None e same by (auto simp: find_None_iff)
    next
      case (new r)
      then have "db' = add_row r db1" using c(3) by simp
      moreover have "lr_amount r = - sint a" "has_ref KindPrepaidDebit ref r"
        using new(3,4) e sint_neg_positive [OF pos] by (simp_all add: carries_def has_ref_def nullif_empty_def)
      ultimately show ?thesis using entry_amount_add [of db1 KindPrepaidDebit ref r] new(5) e same by (simp add: extends_def)
    qed
  qed
qed

definition credited :: "(uuid \<Rightarrow> string) \<Rightarrow> Currency \<Rightarrow> uuid \<Rightarrow> ledger_db \<Rightarrow> uuid \<times> int64 \<Rightarrow> int \<Rightarrow> bool" where
  "credited U cur leaseID db payable m \<longleftrightarrow> 0 < m \<and>
     (\<exists>w. LedgerMicrosFromNanos \<lparr>mn_currency = cur, mn_nanos = snd payable\<rparr> = Inr w \<and> sint w = m) \<and>
     entry_amount db KindSupplierCredit (serviceLeaseSupplierCreditLedgerRef U leaseID (fst payable)) = Some m"

lemma credited_extends: "extends db db' \<Longrightarrow> credited U cur i db p m \<Longrightarrow> credited U cur i db' p m"
  using entry_amount_extends by (auto simp: credited_def)

lemma applyLiability_keeps:
  assumes "applyLiabilityAuthority e auth = Inr e'"
  shows "li_Kind e' = li_Kind e" "li_AmountMicros e' = li_AmountMicros e" "li_Currency e' = li_Currency e"
  using assms by (auto simp: applyLiabilityAuthority_def)

lemma service_kinds: "KindSupplierCredit \<notin> set prepaid_kinds" "KindBuyerCharge \<notin> set prepaid_kinds" "KindPlatformTake \<notin> set prepaid_kinds"
  by (simp_all add: prepaid_kinds_def kind_defs KindSupplierCredit_def KindBuyerCharge_def KindPlatformTake_def)

text \<open>A service row written under an authority.\<close>

lemma authorised_row:
  assumes "applyLiabilityAuthority e auth = Inr e'" "insertServiceLeaseLedgerEntryTx g i ref e' db = Inr db'"
    "li_Kind e \<notin> set prepaid_kinds" "li_Currency e = Currency_Code cur" "Currency_Valid cur"
  shows "extends db db' \<and> books_step db db' \<and> entry_amount db' (li_Kind e) ref = Some (sint (li_AmountMicros e))"
  using insert_service_row [OF assms(2), of cur] applyLiability_keeps [OF assms(1)] assms(3,4) valid_code [OF assms(5)] by simp

lemma credit_suppliers_Cons:
  assumes "credit_suppliers U g auth cur i now ((s, p) # ps) pn sm db = Inr res" "p \<noteq> 0"
  obtains w credit db1 where "LedgerMicrosFromNanos \<lparr>mn_currency = cur, mn_nanos = p\<rparr> = Inr w" "\<not> w \<le>s 0" "\<not> word_of_int maxInt64 - sm <s w"
    "applyLiabilityAuthority ((ledger_literal KindSupplierCredit w (Currency_Code cur) PayoutHeld)
       \<lparr>li_SupplierID := Some s, li_ReleaseAt := Some (payoutReleaseAt now 0)\<rparr>) auth = Inr credit"
    "insertServiceLeaseLedgerEntryTx g i (serviceLeaseSupplierCreditLedgerRef U i s) credit db = Inr db1"
    "credit_suppliers U g auth cur i now ps (pn + p) (sm + w) db1 = Inr res"
  using assms by (auto split: if_splits)

lemma credit_suppliers_rows:
  assumes "credit_suppliers U g auth cur i now ps pn sm db = Inr (pn', sm', db')" "Currency_Valid cur" "0 \<le> sint sm"
  shows "extends db db' \<and> books_step db db' \<and>
    (\<exists>ms. list_all2 (credited U cur i db') (filter (\<lambda>p. snd p \<noteq> 0) ps) ms \<and> sint sm' = sint sm + sum_list ms)"
  using assms(1,3)
proof (induction ps arbitrary: pn sm db)
  case Nil
  then show ?case using extends_refl books_step_refl by auto
next
  case (Cons sp ps)
  obtain s p where sp: "sp = (s, p)" by (rule prod.exhaust)
  show ?case
  proof (cases "p = 0")
    case True
    then have "credit_suppliers U g auth cur i now ps (pn + p) sm db = Inr (pn', sm', db')" using Cons.prems(1) sp by (auto split: if_splits)
    then show ?thesis using Cons.IH [OF _ Cons.prems(2)] sp True by simp
  next
    case False
    obtain w credit db1 where c: "LedgerMicrosFromNanos \<lparr>mn_currency = cur, mn_nanos = p\<rparr> = Inr w" "\<not> w \<le>s 0" "\<not> word_of_int maxInt64 - sm <s w"
      "applyLiabilityAuthority ((ledger_literal KindSupplierCredit w (Currency_Code cur) PayoutHeld)
         \<lparr>li_SupplierID := Some s, li_ReleaseAt := Some (payoutReleaseAt now 0)\<rparr>) auth = Inr credit"
      "insertServiceLeaseLedgerEntryTx g i (serviceLeaseSupplierCreditLedgerRef U i s) credit db = Inr db1"
      "credit_suppliers U g auth cur i now ps (pn + p) (sm + w) db1 = Inr (pn', sm', db')"
      by (rule credit_suppliers_Cons [OF Cons.prems(1) [unfolded sp] False])
    have "sint (word_of_int maxInt64 - sm) = maxInt64 - sint sm"
      using Cons.prems(2) sint64_bounds [of sm] by (subst sint64_diff_in64) (simp_all add: in64_def sint_word_of_int64 wrap64_id)
    then have "in64 (sint sm + sint w)" using c(2,3) Cons.prems(2) by (auto simp: in64_def sle64 sless64)
    then have sum: "sint (sm + w) = sint sm + sint w" "0 < sint w" using c(2) by (auto simp: sint64_add_in64 sle64)
    note row = authorised_row [where cur = cur, OF c(4,5)]
    have row1: "extends db db1 \<and> books_step db db1 \<and> entry_amount db1 KindSupplierCredit (serviceLeaseSupplierCreditLedgerRef U i s) = Some (sint w)"
      using row assms(2) service_kinds(1) by (simp add: ledger_literal_def)
    have "0 \<le> sint (sm + w)" using sum Cons.prems(2) by simp
    note IH = Cons.IH [OF c(6) this]
    then obtain ms where ms: "list_all2 (credited U cur i db') (filter (\<lambda>p. snd p \<noteq> 0) ps) ms" "sint sm' = sint (sm + w) + sum_list ms" by blast
    have "credited U cur i db1 (s, p) (sint w)" using row1 c(1) sum(2) by (auto simp: credited_def)
    then have "credited U cur i db' (s, p) (sint w)" using IH credited_extends by blast
    then have "list_all2 (credited U cur i db') (filter (\<lambda>p. snd p \<noteq> 0) (sp # ps)) (sint w # ms)" using ms(1) sp False by simp
    moreover have "sint sm' = sint sm + sum_list (sint w # ms)" using ms(2) sum(1) by simp
    ultimately show ?thesis using IH row1 extends_trans books_step_trans by blast
  qed
qed

definition settled :: "(uuid \<Rightarrow> string) \<Rightarrow> Currency \<Rightarrow> ServiceLease \<Rightarrow> (uuid \<times> int64) list \<Rightarrow> int64 \<Rightarrow> ledger_db \<Rightarrow> bool" where
  "settled U cur lease payables b db \<longleftrightarrow>
     entry_amount db KindBuyerCharge (serviceLeaseLedgerRef U (sl_ID lease) KindBuyerCharge) = Some (- sint b) \<and>
     entry_amount db KindPrepaidDebit (prepaidServiceLeaseDebitRef U (sl_ID lease)) = Some (- sint b) \<and>
     sint b \<le> sint (sl_ReservedBuyerMicros lease) \<and>
     (\<exists>ms. list_all2 (credited U cur (sl_ID lease) db) (filter (\<lambda>p. snd p \<noteq> 0) payables) ms \<and> 0 < sum_list ms \<and> sum_list ms \<le> sint b \<and>
        entry_amount db KindPlatformTake (serviceLeaseLedgerRef U (sl_ID lease) KindPlatformTake) = Some (sint b - sum_list ms))"

lemma settle_rows_amounts:
  assumes run: "settle_rows U g auth cur lease b m db = Inr db'" and cur: "Currency_Valid cur" and neg: "sint (- b) = - sint b"
  shows "extends db db' \<and> books_step db db' \<and>
    entry_amount db' KindBuyerCharge (serviceLeaseLedgerRef U (sl_ID lease) KindBuyerCharge) = Some (- sint b) \<and>
    entry_amount db' KindPrepaidDebit (prepaidServiceLeaseDebitRef U (sl_ID lease)) = Some (- sint b) \<and>
    entry_amount db' KindPlatformTake (serviceLeaseLedgerRef U (sl_ID lease) KindPlatformTake) = Some (sint m)"
proof -
  let ?charge = "(ledger_literal KindBuyerCharge (- b) (Currency_Code cur) PayoutReleased)\<lparr>li_BuyerID := Some (sl_BuyerID lease)\<rparr>"
  let ?take = "ledger_literal KindPlatformTake m (Currency_Code cur) PayoutReleased"
  obtain e1 db1 db2 e2 where r: "applyLiabilityAuthority ?charge auth = Inr e1"
    "insertServiceLeaseLedgerEntryTx g (sl_ID lease) (serviceLeaseLedgerRef U (sl_ID lease) KindBuyerCharge) e1 db = Inr db1"
    "debitPrepaidForServiceLeaseTx U g (sl_BuyerID lease) (sl_ID lease) b db1 = Inr db2" "applyLiabilityAuthority ?take auth = Inr e2"
    "insertServiceLeaseLedgerEntryTx g (sl_ID lease) (serviceLeaseLedgerRef U (sl_ID lease) KindPlatformTake) e2 db2 = Inr db'"
    using run unfolding settle_rows_def bind_result_eq_Inr by blast
  have 1: "extends db db1 \<and> books_step db db1 \<and> entry_amount db1 KindBuyerCharge (serviceLeaseLedgerRef U (sl_ID lease) KindBuyerCharge) = Some (- sint b)"
    using authorised_row [where cur = cur, OF r(1,2)] cur service_kinds(2) neg by (simp add: ledger_literal_def)
  have "extends db1 db2 \<and> entry_amount db2 KindPrepaidDebit (prepaidServiceLeaseDebitRef U (sl_ID lease)) = Some (- sint b)"
    using r(3) debit_by_ref_row unfolding debitPrepaidForServiceLeaseTx_def by (auto split: if_splits option.splits)
  moreover have "books_step db1 db2" by (rule debitPrepaidForServiceLeaseTx_step [OF r(3)])
  moreover have "extends db2 db' \<and> books_step db2 db' \<and> entry_amount db' KindPlatformTake (serviceLeaseLedgerRef U (sl_ID lease) KindPlatformTake) = Some (sint m)"
    using authorised_row [where cur = cur, OF r(4,5)] cur service_kinds(3) by (simp add: ledger_literal_def)
  ultimately show ?thesis using 1 extends_trans books_step_trans entry_amount_extends by blast
qed

lemma settle_money_settled:
  assumes run: "settle_money U g now lease auth cur b payables db = Inr db'" and cur: "Currency_Valid cur"
  shows "extends db db' \<and> books_step db db' \<and> settled U cur lease payables b db'"
proof -
  obtain pn sm db1 where c: "credit_suppliers U g auth cur (sl_ID lease) now payables 0 0 db = Inr (pn, sm, db1)"
    and rows: "settle_rows U g auth cur lease b (b - sm) db1 = Inr db'"
    and ok: "\<not> b \<le>s 0" "\<not> sm \<le>s 0" "\<not> b <s sm" "\<not> sl_ReservedBuyerMicros lease <s b"
    using run unfolding settle_money_def Let_def by (auto split: if_splits)
  obtain ms where 1: "extends db db1" "books_step db db1" "list_all2 (credited U cur (sl_ID lease) db1) (filter (\<lambda>p. snd p \<noteq> 0) payables) ms" "sint sm = sum_list ms"
    using credit_suppliers_rows [OF c cur] by auto
  have b: "0 < sint b" "0 < sint sm" "sint sm \<le> sint b" "sint b \<le> sint (sl_ReservedBuyerMicros lease)"
    using ok by (simp_all add: sle64 sless64 not_less not_le)
  then have "sint (b - sm) = sint b - sint sm" using sint64_bounds [of b] by (intro sint64_diff_in64) (auto simp: in64_def)
  moreover have "sint (- b) = - sint b" using b(1) by (intro sint_neg_positive) (simp add: sless64)
  note settle_rows_amounts [OF rows cur this]
  moreover have "list_all2 (credited U cur (sl_ID lease) db') (filter (\<lambda>p. snd p \<noteq> 0) payables) ms"
    using list.rel_mono_strong [OF 1(3)] credited_extends calculation by blast
  ultimately show ?thesis using 1(1,2,4) b extends_trans books_step_trans unfolding settled_def by auto
qed

lemma settleFinal_runs:
  assumes "settleFinalServiceLeaseTx U D g now lease meter db = Inr db'" "0 <s sl_ReservedBuyerMicros lease"
  obtains auth cur b payables where "ParseCurrency (pd_Currency (sl_Pricing lease)) = Inr cur"
    "LedgerMicrosFromNanos \<lparr>mn_currency = cur, mn_nanos = sl_BuyerChargeNanos lease\<rparr> = Inr b"
    "serviceLeaseSupplierPayables (sl_ID lease) meter = Inr payables" "settle_money U g now lease auth cur b payables db = Inr db'"
proof -
  have "\<not> sl_ReservedBuyerMicros lease \<le>s 0" using assms(2) by (simp add: not_sle_zero)
  then show ?thesis using assms(1) that unfolding settleFinalServiceLeaseTx_def Let_def by (auto split: if_splits)
qed

lemma settleFinal_step:
  assumes "settleFinalServiceLeaseTx U D g now lease meter db = Inr db'"
  shows "books_step db db'"
proof (cases "0 <s sl_ReservedBuyerMicros lease")
  case True
  then obtain auth cur b payables where "ParseCurrency (pd_Currency (sl_Pricing lease)) = Inr cur" "settle_money U g now lease auth cur b payables db = Inr db'"
    by (rule settleFinal_runs [OF assms])
  then show ?thesis using settle_money_settled ParseCurrency_valid by blast
next
  case False
  then have "db' = db" using assms by (auto simp: settleFinalServiceLeaseTx_def not_sle_zero [symmetric] split: if_splits)
  then show ?thesis by (simp add: books_step_refl)
qed

lemma zero_micros: "LedgerMicrosFromNanos \<lparr>mn_currency = cur, mn_nanos = 0\<rparr> = Inr b \<Longrightarrow> b = 0"
  by (auto simp: LedgerMicrosFromNanos_def Let_def go_div_def go_rem_def NanosPerMicro_def sle64 split: if_splits)

lemma unused_not_settled:
  assumes "0 <s sl_ReservedBuyerMicros lease" "sl_BuyerChargeNanos lease = 0"
  shows "settleFinalServiceLeaseTx U D g now lease meter db \<noteq> Inr db'"
proof
  assume "settleFinalServiceLeaseTx U D g now lease meter db = Inr db'"
  from settleFinal_runs [OF this assms(1)] obtain auth cur b payables where
    "LedgerMicrosFromNanos \<lparr>mn_currency = cur, mn_nanos = sl_BuyerChargeNanos lease\<rparr> = Inr b"
    and run: "settle_money U g now lease auth cur b payables db = Inr db'" by metis
  then have "b = 0" using assms(2) zero_micros by simp
  then show False using run by (auto simp: settle_money_def sle64 split: if_splits)
qed

text \<open>The meter leaves the frozen columns of a lease alone, and the attribution of other leases.\<close>

lemma meter_add_keeps:
  assumes "meter_add t lease add db = Inr (l, db')"
  shows "sl_ID l = sl_ID lease \<and> sl_ReservedBuyerMicros l = sl_ReservedBuyerMicros lease \<and> sl_State l = sl_State lease \<and>
    sl_Pricing l = sl_Pricing lease \<and> (\<forall>j. j \<noteq> sl_ID lease \<longrightarrow> supplier_deltas j db' = supplier_deltas j db)"
  using assms unfolding meter_add_def record_meter_def Let_def by (auto simp: supplier_deltas_def split: if_splits)

lemma meter_keeps:
  assumes "meterServiceLeaseTx t lease db = Inr (l, db')"
  shows "sl_ID l = sl_ID lease" "sl_ReservedBuyerMicros l = sl_ReservedBuyerMicros lease" "sl_State l = sl_State lease"
    "sl_Pricing l = sl_Pricing lease" "j \<noteq> sl_ID lease \<Longrightarrow> supplier_deltas j db' = supplier_deltas j db"
  using meter_cases [OF assms] meter_add_keeps [of _ lease _ db l db'] by auto

lemma mulDiv_zero: "mulDiv 0 b 1 False = Inr 0"
  by (simp add: mulDiv_rounded rounded_def round_div_def big_to_int64_Inr)

lemma meter_idle:
  assumes "meterServiceLeaseTx t lease db = Inr (l, db')" "sl_ActiveReplicas lease = 0" "sl_CumulativeReplicaNanos lease = 0"
  shows "sl_BuyerChargeNanos l = sl_BuyerChargeNanos lease"
proof -
  have "l = lease \<or> meter_add (if sl_ExpiresAt lease < t then sl_ExpiresAt lease else t) lease 0 db = Inr (l, db')"
    using assms unfolding meterServiceLeaseTx_def Let_def by (auto simp: mulDiv_zero split: if_splits sum.splits)
  then show ?thesis using assms(3) by (auto simp: meter_add_def Let_def sle64 split: if_splits)
qed

lemma unused_not_finalized:
  assumes row: "lease_of sys i = Some row" "sl_ActiveReplicas row = 0" "sl_CumulativeReplicaNanos row = 0" "sl_BuyerChargeNanos row = 0"
    "0 <s sl_ReservedBuyerMicros row" and open': "sl_State row \<noteq> ''COMPLETED''" "sl_State row \<noteq> ''CANCELLED''" "sl_ExpiresAt row \<le> now"
  shows "\<exists>e. finalizeExpiredServiceLease U D pgTime g now i sys = Inl e"
proof (cases "finalizeExpiredServiceLease U D pgTime g now i sys")
  case (Inr res)
  then obtain l m ledger where "meterServiceLeaseTx (sl_ExpiresAt row) row (ly_meter sys) = Inr (l, m)"
    "settleFinalServiceLeaseTx U D g now l m (lease_ledger sys) = Inr ledger"
    using row(1) open' unfolding finalizeExpiredServiceLease_def scanServiceLease_def by (auto split: if_splits)
  then show ?thesis using unused_not_settled [of l] meter_keeps(2) [of "sl_ExpiresAt row" row] meter_idle [of "sl_ExpiresAt row" row] row by auto
qed simp

section \<open>Histories of leases\<close>

definition terminal :: "ServiceLease \<Rightarrow> bool" where
  "terminal row \<longleftrightarrow> sl_State row = ''COMPLETED'' \<or> sl_State row = ''CANCELLED''"

definition beat :: "lease_deps \<Rightarrow> (int \<Rightarrow> int) \<Rightarrow> WorkerAuth \<Rightarrow> uuid \<Rightarrow> ServiceLeaseHeartbeat \<Rightarrow> int \<Rightarrow> lease_sys \<Rightarrow> lease_sys result" where
  "beat D pgTime auth leaseID hb now sys =
     bind_result (HeartbeatServiceLease D pgTime auth leaseID hb now (lease_of sys leaseID) (ly_meter sys)) (\<lambda>(row, meter).
       Inr (sys\<lparr>ly_rows := put_lease row (ly_rows sys), ly_meter := meter\<rparr>))"

text \<open>One transition: nothing about leases changes, or one open lease does, with its books.\<close>

definition lease_changed :: "ServiceLease \<Rightarrow> ServiceLease \<Rightarrow> lease_sys \<Rightarrow> lease_sys \<Rightarrow> bool" where
  "lease_changed row row' sys sys' \<longleftrightarrow> row \<in> set (ly_rows sys) \<and> \<not> terminal row \<and> sl_ID row' = sl_ID row \<and>
     ly_rows sys' = put_lease row' (ly_rows sys) \<and> (lease_books (row, ly_meter sys) \<longrightarrow> lease_books (row', ly_meter sys')) \<and>
     (\<forall>j. j \<noteq> sl_ID row \<longrightarrow> supplier_deltas j (ly_meter sys') = supplier_deltas j (ly_meter sys))"

definition row_step :: "(uuid \<Rightarrow> string) \<Rightarrow> lease_sys \<Rightarrow> lease_sys \<Rightarrow> bool" where
  "row_step U sys sys' \<longleftrightarrow> (prepaid_inv U (ly_ledger sys) \<longrightarrow> prepaid_inv U (ly_ledger sys')) \<and>
     (ly_rows sys' = ly_rows sys \<and> ly_meter sys' = ly_meter sys \<or> (\<exists>row row'. lease_changed row row' sys sys'))"

lemma row_step_refl: "row_step U sys sys"
  by (simp add: row_step_def)

lemma lease_of_row: "lease_of sys i = Some row \<Longrightarrow> row \<in> set (ly_rows sys) \<and> sl_ID row = i"
  by (auto simp: lease_of_def find_Some_iff)

lemma log_events_deltas [simp]: "supplier_deltas j (log_events i kinds db) = supplier_deltas j db"
  by (simp add: supplier_deltas_def log_events_def)

lemma lease_ledger_step: "books_step (ly_ledger sys) (lease_ledger sys)"
  using prepaid_books_cong [of "lease_ledger sys" "ly_ledger sys"] by (simp add: books_step_def lease_ledger_def)

text \<open>The row a transition writes: metered, with another state.\<close>

lemma metered_changed:
  assumes row: "row \<in> set (ly_rows sys)" "\<not> terminal row" and m: "meterServiceLeaseTx t row (ly_meter sys) = Inr (l, m1)"
    and id: "sl_ID l' = sl_ID l" and books: "lease_books (l, m1) \<Longrightarrow> lease_books (l', log_events (sl_ID l) kinds m1)"
    and sys': "ly_rows sys' = put_lease l' (ly_rows sys)" "ly_meter sys' = log_events (sl_ID l) kinds m1"
  shows "lease_changed row l' sys sys'"
  unfolding lease_changed_def
proof (intro conjI allI impI)
  show "sl_ID l' = sl_ID row" using meter_keeps(1) [OF m] id by simp
  show "lease_books (l', ly_meter sys')" if "lease_books (row, ly_meter sys)"
    unfolding sys'(2) by (rule books) (rule meter_books [OF that m])
  show "supplier_deltas j (ly_meter sys') = supplier_deltas j (ly_meter sys)" if "j \<noteq> sl_ID row" for j
    using meter_keeps(5) [OF m that] by (simp add: sys'(2))
qed (use row sys'(1) in simp_all)

lemma beat_step:
  assumes "beat D pgTime auth i hb now sys = Inr sys'"
  shows "row_step U sys sys'"
proof -
  obtain row where row: "lease_of sys i = Some row" using assms by (cases "lease_of sys i") (auto simp: beat_def HeartbeatServiceLease_def)
  obtain l' meter where hb: "HeartbeatServiceLease D pgTime auth i hb now (Some row) (ly_meter sys) = Inr (l', meter)"
    and sys': "sys' = sys\<lparr>ly_rows := put_lease l' (ly_rows sys), ly_meter := meter\<rparr>" using assms row by (auto simp: beat_def)
  obtain l m1 st n kinds where m: "meterServiceLeaseTx now row (ly_meter sys) = Inr (l, m1)" and open': "\<not> terminal row"
    and l': "l' = l\<lparr>sl_State := st, sl_ActiveReplicas := n, sl_UpgradeGeneration := hb_UpgradeGeneration hb,
              sl_LastWorkerHeartbeatAt := pgTime now, sl_LastMeteredAt := pgTime (sl_LastMeteredAt l)\<rparr>" "meter = log_events (sl_ID l) kinds m1"
    using hb unfolding HeartbeatServiceLease_def scanServiceLease_def bind_result_eq_Inr option.case terminal_def by (auto split: if_splits)
  have "lease_changed row l' sys sys'"
    by (rule metered_changed [OF conjunct1 [OF lease_of_row [OF row]] open' m, where kinds = kinds]) (simp_all add: l' sys' books_frame(1))
  then show ?thesis by (auto simp: row_step_def sys')
qed

lemma lose_worker_step:
  assumes "lose_worker D pgTime i sys = Inr (changed, sys')"
  shows "row_step U sys sys'"
proof -
  obtain row where row: "lease_of sys i = Some row" using assms by (cases "lease_of sys i") (auto simp: lose_worker_def markServiceLeaseWorkerLost_def)
  show ?thesis
  proof (cases changed)
    case False
    then show ?thesis using assms row_step_refl by (auto simp: lose_worker_def)
  next
    case True
    obtain l m1 where m: "meterServiceLeaseTx (sl_LastWorkerHeartbeatAt row) row (ly_meter sys) = Inr (l, m1)" and open': "\<not> terminal row"
      and sys': "sys' = sys\<lparr>ly_rows := put_lease (l\<lparr>sl_State := ''FAILOVER_REQUIRED'', sl_ActiveReplicas := 0,
          sl_LastMeteredAt := pgTime (sl_LastMeteredAt l)\<rparr>) (ly_rows sys), ly_meter := log_events (sl_ID l) [''WORKER_LOSS''] m1\<rparr>"
      using assms True row unfolding lose_worker_def markServiceLeaseWorkerLost_def scanServiceLease_def bind_result_eq_Inr option.case terminal_def
      by (auto split: if_splits)
    have "lease_changed row (l\<lparr>sl_State := ''FAILOVER_REQUIRED'', sl_ActiveReplicas := 0, sl_LastMeteredAt := pgTime (sl_LastMeteredAt l)\<rparr>) sys sys'"
      by (rule metered_changed [OF conjunct1 [OF lease_of_row [OF row]] open' m, where kinds = "[''WORKER_LOSS'']"]) (simp_all add: sys' books_frame(2))
    then show ?thesis by (auto simp: row_step_def sys')
  qed
qed

lemma sample_tables:
  assumes "recordServiceLeaseOfferSampleTx w p r sys = Inr sys'"
  shows "ly_rows sys' = ly_rows sys" "ly_meter sys' = ly_meter sys" "ly_ledger sys' = ly_ledger sys"
  using assms by (auto simp: recordServiceLeaseOfferSampleTx_def split: option.splits)

lemma close_tables:
  assumes "close_lease event t lease meter ledger sys = Inr sys'"
  shows "ly_rows sys' = put_lease lease (ly_rows sys)" "ly_meter sys' = log_events (sl_ID lease) [event] meter" "ly_ledger sys' = ledger"
proof -
  obtain sys1 where s: "recordServiceLeaseOfferSampleTx (sl_WorkerID lease) (sl_RuntimeProfileID lease) (sl_Region lease)
       (change_offer (sl_WorkerID lease) (sl_RuntimeProfileID lease) (sl_Region lease) (release_replicas (sl_MaximumReplicas lease))
         (sys\<lparr>ly_rows := put_lease lease (ly_rows sys), ly_finalized := ly_finalized sys @ [(sl_ID lease, t)]\<rparr>)) = Inr sys1"
    "sys' = sys1\<lparr>ly_meter := log_events (sl_ID lease) [event] meter, ly_ledger := ledger\<rparr>"
    using assms unfolding close_lease_def by (auto simp: ledger_commit_def split: if_splits)
  show "ly_rows sys' = put_lease lease (ly_rows sys)" "ly_meter sys' = log_events (sl_ID lease) [event] meter" "ly_ledger sys' = ledger"
    using sample_tables [OF s(1)] s(2) by (simp_all add: change_offer_def)
qed

lemma close_step:
  assumes row: "row \<in> set (ly_rows sys)" "\<not> terminal row" and m: "meterServiceLeaseTx t row (ly_meter sys) = Inr (l, m1)"
    and money: "books_step (lease_ledger sys) ledger"
    and lease: "sl_ID lease = sl_ID l" "lease_books (l, m1) \<Longrightarrow> lease_books (lease, log_events (sl_ID l) [event] m1)"
    and close: "close_lease event t' lease m1 ledger sys = Inr sys'"
  shows "row_step U sys sys'"
proof -
  have "lease_changed row lease sys sys'"
    by (rule metered_changed [OF row m, where kinds = "[event]"]) (use lease close_tables [OF close] in simp_all)
  moreover have "prepaid_inv U (ly_ledger sys')" if "prepaid_inv U (ly_ledger sys)"
    using books_step_inv [OF books_step_trans [OF lease_ledger_step money] that] close_tables(3) [OF close] by simp
  ultimately show ?thesis by (auto simp: row_step_def)
qed

lemma settle_if_used_step: "settle_if_used U D g now lease meter db msg = Inr db' \<Longrightarrow> books_step db db'"
  using settleFinal_step books_step_refl by (auto simp: settle_if_used_def split: if_splits)

lemma cancelled_books:
  "lease_books (l, m) \<Longrightarrow> lease_books (l\<lparr>sl_State := st, sl_ActiveReplicas := n, sl_LastMeteredAt := t\<rparr>, log_events (sl_ID l) [event] m)"
  by (rule books_frame(2))

lemma completed_books:
  assumes "lease_books (l, m)"
  shows "lease_books (l\<lparr>sl_State := st, sl_LastMeteredAt := t\<rparr>, log_events (sl_ID l) [event] m)"
  by (rule books_cong [THEN iffD2, OF _ _ _ _ _ _ _ _ assms]; simp add: log_events_def)

lemma cancel_step:
  assumes "CancelServiceLease U D pgTime g b i now sys = Inr (changed, sys')"
  shows "row_step U sys sys'"
proof (cases changed)
  case False
  then have "sys' = sys" using assms unfolding CancelServiceLease_def scanServiceLease_def by (auto split: if_splits option.splits)
  then show ?thesis by (simp add: row_step_refl)
next
  case True
  obtain row where row: "find (\<lambda>r. sl_ID r = i \<and> sl_BuyerID r = b) (ly_rows sys) = Some row"
    using assms unfolding CancelServiceLease_def by (auto split: if_splits option.splits)
  then have mem: "row \<in> set (ly_rows sys)" by (auto simp: find_Some_iff)
  obtain l m1 ledger where c: "\<not> terminal row" "meterServiceLeaseTx (cancel_cutoff now row) row (ly_meter sys) = Inr (l, m1)"
    "settle_if_used U D g now l m1 (lease_ledger sys) ''service lease cancellation violates frozen prepaid reservation'' = Inr ledger"
    "close_lease ''CANCELLED'' (pgTime now) (l\<lparr>sl_State := ''CANCELLED'', sl_ActiveReplicas := 0, sl_LastMeteredAt := pgTime (sl_LastMeteredAt l)\<rparr>) m1 ledger sys = Inr sys'"
    using assms True row unfolding CancelServiceLease_def scanServiceLease_def terminal_def by (auto split: if_splits)
  show ?thesis by (rule close_step [OF mem c(1,2) settle_if_used_step [OF c(3)] _ cancelled_books c(4)]) simp_all
qed

lemma terminate_step:
  assumes "TerminateServiceLeaseNoReplacement U D pgTime g now i sys = Inr (changed, sys')"
  shows "row_step U sys sys'"
proof (cases changed)
  case False
  then have "sys' = sys" using assms unfolding TerminateServiceLeaseNoReplacement_def scanServiceLease_def by (auto split: if_splits option.splits)
  then show ?thesis by (simp add: row_step_refl)
next
  case True
  obtain row where row: "lease_of sys i = Some row"
    using assms unfolding TerminateServiceLeaseNoReplacement_def by (auto split: if_splits option.splits)
  obtain l m1 ledger where c: "\<not> terminal row" "meterServiceLeaseTx (sl_LastMeteredAt row) row (ly_meter sys) = Inr (l, m1)"
    "settle_if_used U D g now l m1 (lease_ledger sys) ''service lease failover termination violates frozen prepaid reservation'' = Inr ledger"
    "close_lease ''FAILOVER_TERMINATED'' (pgTime now) (l\<lparr>sl_State := ''CANCELLED'', sl_ActiveReplicas := 0, sl_LastMeteredAt := pgTime (sl_LastMeteredAt l)\<rparr>) m1 ledger sys = Inr sys'"
    using assms True row unfolding TerminateServiceLeaseNoReplacement_def scanServiceLease_def terminal_def by (auto split: if_splits)
  show ?thesis by (rule close_step [OF conjunct1 [OF lease_of_row [OF row]] c(1,2) settle_if_used_step [OF c(3)] _ cancelled_books c(4)]) simp_all
qed

lemma finalize_step:
  assumes "finalizeExpiredServiceLease U D pgTime g now i sys = Inr (changed, sys')"
  shows "row_step U sys sys'"
proof (cases changed)
  case False
  then have "sys' = sys" using assms unfolding finalizeExpiredServiceLease_def scanServiceLease_def by (auto split: if_splits option.splits)
  then show ?thesis by (simp add: row_step_refl)
next
  case True
  obtain row where row: "lease_of sys i = Some row"
    using assms unfolding finalizeExpiredServiceLease_def by (auto split: option.splits)
  obtain l m1 ledger where c: "\<not> terminal row" "meterServiceLeaseTx (sl_ExpiresAt row) row (ly_meter sys) = Inr (l, m1)"
    "settleFinalServiceLeaseTx U D g now l m1 (lease_ledger sys) = Inr ledger"
    "close_lease ''EXPIRED'' (pgTime now) (l\<lparr>sl_State := ''COMPLETED'', sl_LastMeteredAt := pgTime (sl_LastMeteredAt l)\<rparr>) m1 ledger sys = Inr sys'"
    using assms True row unfolding finalizeExpiredServiceLease_def scanServiceLease_def terminal_def by (auto split: if_splits)
  show ?thesis by (rule close_step [OF conjunct1 [OF lease_of_row [OF row]] c(1,2) settleFinal_step [OF c(3)] _ completed_books c(4)]) simp_all
qed

lemma move_lease_step:
  assumes run: "move_lease pgTime now row w sys = Inr sys'" and row: "row \<in> set (ly_rows sys)" "\<not> terminal row"
  shows "row_step U sys sys'"
proof -
  let ?moved = "\<lambda>l. l\<lparr>sl_WorkerID := wo_worker w, sl_SupplierID := wo_supplier w, sl_State := ''ACTIVE'',
      sl_ActiveReplicas := sl_MinimumReplicas l, sl_LastMeteredAt := pgTime (sl_LastMeteredAt l),
      sl_LastWorkerHeartbeatAt := pgTime (sl_LastMeteredAt l)\<rparr> :: ServiceLease"
  obtain l m1 where m: "meterServiceLeaseTx now row (ly_meter sys) = Inr (l, m1)" using run unfolding move_lease_def by auto
  obtain sys1 where s: "recordServiceLeaseOfferSampleTx (wo_worker w) (sl_RuntimeProfileID l) (sl_Region l)
       (change_offer (wo_worker w) (sl_RuntimeProfileID l) (sl_Region l) (take_replicas (sl_MaximumReplicas l)) sys) = Inr sys1"
    "sys' = sys1\<lparr>ly_rows := put_lease (?moved l) (ly_rows sys1), ly_meter := log_events (sl_ID l) [''FAILOVER_COMPLETED''] m1\<rparr>"
    using run m unfolding move_lease_def by auto
  have "lease_books (?moved l, log_events (sl_ID l) [''FAILOVER_COMPLETED''] m1) = lease_books (l, m1)"
    by (rule books_cong) (simp_all add: log_events_def)
  then have "lease_changed row (?moved l) sys sys'"
    by (intro metered_changed [OF row m, where kinds = "[''FAILOVER_COMPLETED'']"]) (simp_all add: s(2) sample_tables [OF s(1)] change_offer_def)
  then show ?thesis by (auto simp: row_step_def s(2) sample_tables [OF s(1)] change_offer_def)
qed

lemma failover_step:
  assumes "FailoverServiceLease D pgTime locked now i sys = Inr (changed, sys')"
  shows "row_step U sys sys'"
proof -
  obtain row where row: "lease_of sys i = Some row" using assms unfolding FailoverServiceLease_def by (auto split: option.splits)
  have "sys' = sys \<or> (\<exists>w. move_lease pgTime now row w sys = Inr sys' \<and> sl_State row = ''FAILOVER_REQUIRED'')"
    using assms row unfolding FailoverServiceLease_def scanServiceLease_def by (auto split: if_splits option.splits)
  then show ?thesis using row_step_refl move_lease_step lease_of_row [OF row] by (fastforce simp: terminal_def)
qed

lemma sweep_steps:
  assumes "\<And>i s c s'. f i s = Inr (c, s') \<Longrightarrow> R s s'"
  shows "R\<^sup>*\<^sup>* sys (snd (sweep f is n sys))"
proof (induction "is" arbitrary: n sys)
  case (Cons i "is")
  show ?case
  proof (cases "f i sys")
    case (Inr p)
    then have "R sys (snd p)" using assms [of i sys "fst p" "snd p"] by simp
    then show ?thesis using Inr Cons.IH [of "snd p"] by (cases p) (auto intro: converse_rtranclp_into_rtranclp)
  qed simp
qed simp

lemma failover_each_steps:
  assumes "\<And>i s c s'. f i s = Inr (c, s') \<Longrightarrow> R s s'" "\<And>i s c s'. h i s = Inr (c, s') \<Longrightarrow> R s s'"
  shows "R\<^sup>*\<^sup>* sys (snd (failover_each f h is n sys))"
proof (induction "is" arbitrary: n sys)
  case (Cons i "is")
  obtain a b where n: "n = (a, b)" by (rule prod.exhaust)
  show ?case
  proof (cases "f i sys")
    case (Inr p)
    obtain moved s1 where p: "p = (moved, s1)" by (rule prod.exhaust)
    have 1: "R sys s1" using assms(1) Inr p by blast
    show ?thesis
    proof (cases "moved \<or> (\<exists>e. h i s1 = Inl e)")
      case True
      then show ?thesis using Inr p 1 n Cons.IH [of s1] by (auto intro: converse_rtranclp_into_rtranclp)
    next
      case False
      then obtain ok s2 where h: "h i s1 = Inr (ok, s2)" by (cases "h i s1") auto
      have "R\<^sup>*\<^sup>* sys s2" using 1 assms(2) [OF h] by auto
      then have "R\<^sup>*\<^sup>* sys (snd (failover_each f h is k s2))" for k using Cons.IH [of s2 k] by (rule rtranclp_trans)
      then show ?thesis using Inr p n False h by simp
    qed
  qed (simp add: n)
qed simp

text \<open>The operations on leases in any order, between any operations on prepaid balances.\<close>

datatype lifecycle_op =
    Beat_op WorkerAuth uuid ServiceLeaseHeartbeat int
  | Recover_op nat int
  | Failover_op "worker_offer \<Rightarrow> bool" nat int
  | Cancel_op uuid uuid int
  | Expire_op nat int
  | Balance_op prepaid_op

fun lifecycle_step ::
    "(uuid \<Rightarrow> string) \<Rightarrow> (topup_op list \<Rightarrow> topup_op list) \<Rightarrow> (refund_op list \<Rightarrow> refund_op list) \<Rightarrow> lease_deps \<Rightarrow> (int \<Rightarrow> int) \<Rightarrow>
     settlement \<times> lifecycle_op \<Rightarrow> lease_sys \<Rightarrow> lease_sys" where
  "lifecycle_step U by_credit by_key D pgTime (g, Beat_op auth i hb now) sys =
     (case beat D pgTime auth i hb now sys of Inl _ \<Rightarrow> sys | Inr sys' \<Rightarrow> sys')"
| "lifecycle_step U by_credit by_key D pgTime (g, Recover_op n now) sys = snd (RecoverServiceLeases D pgTime n now sys)"
| "lifecycle_step U by_credit by_key D pgTime (g, Failover_op locked n now) sys = snd (FailoverPendingServiceLeases U D pgTime g locked n now sys)"
| "lifecycle_step U by_credit by_key D pgTime (g, Cancel_op b i now) sys =
     (case CancelServiceLease U D pgTime g b i now sys of Inl _ \<Rightarrow> sys | Inr (_, sys') \<Rightarrow> sys')"
| "lifecycle_step U by_credit by_key D pgTime (g, Expire_op n now) sys = snd (FinalizeExpiredServiceLeases U D pgTime g n now sys)"
| "lifecycle_step U by_credit by_key D pgTime (g, Balance_op op) sys = sys\<lparr>ly_ledger := prepaid_step U by_credit by_key (g, op) (ly_ledger sys)\<rparr>"

lemma lifecycle_steps:
  assumes "\<And>u v. length (U u) = length (U v)" "\<And>xs :: topup_op list. mset (by_credit xs) = mset xs"
  shows "(row_step U)\<^sup>*\<^sup>* sys (lifecycle_step U by_credit by_key D pgTime p sys)"
proof -
  obtain g op where p: "p = (g, op)" by (rule prod.exhaust)
  show ?thesis
  proof (cases op)
    case (Beat_op auth i hb now)
    then show ?thesis using beat_step [of D pgTime auth i hb now sys] by (cases "beat D pgTime auth i hb now sys") (auto simp: p)
  next
    case (Recover_op n now)
    then show ?thesis using sweep_steps [of "lose_worker D pgTime" "row_step U", OF lose_worker_step] by (simp add: p RecoverServiceLeases_def)
  next
    case (Failover_op locked n now)
    then show ?thesis
      using failover_each_steps [of "FailoverServiceLease D pgTime locked now" "row_step U" "TerminateServiceLeaseNoReplacement U D pgTime g now",
        OF failover_step terminate_step] by (simp add: p FailoverPendingServiceLeases_def)
  next
    case (Cancel_op b i now)
    then show ?thesis using cancel_step [of U D pgTime g b i now sys]
      by (cases "CancelServiceLease U D pgTime g b i now sys") (auto simp: p)
  next
    case (Expire_op n now)
    then show ?thesis using sweep_steps [of "finalizeExpiredServiceLease U D pgTime g now" "row_step U", OF finalize_step]
      by (simp add: p FinalizeExpiredServiceLeases_def)
  next
    case (Balance_op op)
    have "row_step U sys (sys\<lparr>ly_ledger := prepaid_step U by_credit by_key (g, op) (ly_ledger sys)\<rparr>)"
      using invariant_machine.step_inv [OF prepaid_machine [OF assms]] by (simp add: row_step_def)
    then show ?thesis using Balance_op p by auto
  qed
qed

section \<open>Invariants of the system\<close>

definition sys_inv :: "(uuid \<Rightarrow> string) \<Rightarrow> lease_sys \<Rightarrow> bool" where
  "sys_inv U sys \<longleftrightarrow> distinct (map sl_ID (ly_rows sys)) \<and> (\<forall>row \<in> set (ly_rows sys). lease_books (row, ly_meter sys)) \<and>
     prepaid_inv U (ly_ledger sys)"

lemma books_deltas: "supplier_deltas (sl_ID l) db' = supplier_deltas (sl_ID l) db \<Longrightarrow> lease_books (l, db') = lease_books (l, db)"
  unfolding lease_books_def prod.case Let_def by simp

lemma put_lease_ids: "map sl_ID (put_lease lease rows) = map sl_ID rows"
  by (simp add: put_lease_def)

lemma put_lease_other: "r \<in> set rows \<Longrightarrow> sl_ID r \<noteq> sl_ID lease \<Longrightarrow> r \<in> set (put_lease lease rows)"
  by (auto simp: put_lease_def image_iff)

lemma put_lease_cases: "r \<in> set (put_lease lease rows) \<Longrightarrow> r = lease \<or> r \<in> set rows \<and> sl_ID r \<noteq> sl_ID lease"
  by (auto simp: put_lease_def split: if_splits)

lemma row_step_inv:
  assumes "row_step U sys sys'" "sys_inv U sys"
  shows "sys_inv U sys'"
proof (cases "ly_rows sys' = ly_rows sys \<and> ly_meter sys' = ly_meter sys")
  case True
  then show ?thesis using assms by (simp add: row_step_def sys_inv_def)
next
  case False
  then obtain row row' where c: "lease_changed row row' sys sys'" using assms(1) unfolding row_step_def by blast
  then have rows: "ly_rows sys' = put_lease row' (ly_rows sys)" "sl_ID row' = sl_ID row" by (simp_all add: lease_changed_def)
  have "lease_books (r, ly_meter sys')" if r: "r \<in> set (ly_rows sys')" for r
    using put_lease_cases [OF r [unfolded rows(1)]]
  proof
    assume "r = row'"
    then show ?thesis using c assms(2) by (simp add: lease_changed_def sys_inv_def)
  next
    assume "r \<in> set (ly_rows sys) \<and> sl_ID r \<noteq> sl_ID row'"
    then show ?thesis using c assms(2) rows(2) books_deltas [of r "ly_meter sys'" "ly_meter sys"] by (simp add: lease_changed_def sys_inv_def)
  qed
  moreover have "distinct (map sl_ID (ly_rows sys'))" using assms(2) unfolding rows(1) put_lease_ids sys_inv_def by simp
  ultimately show ?thesis using assms by (simp add: sys_inv_def row_step_def)
qed

lemma row_step_frozen:
  assumes "row_step U sys sys'" "distinct (map sl_ID (ly_rows sys))" "r \<in> set (ly_rows sys)" "terminal r"
  shows "r \<in> set (ly_rows sys')"
proof (cases "ly_rows sys' = ly_rows sys")
  case False
  then obtain row row' where c: "lease_changed row row' sys sys'" using assms(1) unfolding row_step_def by blast
  then have "r \<noteq> row" using assms(4) by (auto simp: lease_changed_def)
  then have "sl_ID r \<noteq> sl_ID row'" using c assms(2,3) by (auto simp: lease_changed_def distinct_map inj_on_def)
  then show ?thesis using c assms(3) put_lease_other by (simp add: lease_changed_def)
qed (use assms(3) in simp)

section \<open>A concrete system\<close>

text \<open>
  A buyer with five dollars holds two leases on one worker: lease 1 lost its worker before it
  served anything and expires first, lease 9 runs two replicas to its end.
\<close>

definition demo_rates :: ServiceLeasePricingAuthority where
  "demo_rates = demo_lease_authority\<lparr>sp_SupplierNanosPerReplicaHour := 1800000000000, sp_ResidencyNanosPerReplicaHour := 900000000000,
     sp_ControlPlaneNanosPerReplicaHour := 400000000000, sp_ContributionNanosPerReplicaHour := 500000000000\<rparr>"

definition demo_accepted :: "uuid \<Rightarrow> string \<Rightarrow> int64 \<Rightarrow> int \<Rightarrow> ServiceLease" where
  "demo_accepted i state replicas expires = (demo_lease_row state replicas)\<lparr>sl_ID := i, sl_ExpiresAt := expires, sl_PricingAcceptanceID := Some i,
     sl_ReservedBuyerMicros := 20, sl_Pricing := \<lparr>pd_ExecutionMode = pricingExecutionServiceLease, pd_Currency = ''usd'',
       pd_ServiceLease = Some demo_rates, pd_AcceptedCeilingNanos = Some 20000\<rparr>\<rparr>"

definition demo_offer :: worker_offer where
  "demo_offer = \<lparr>wo_worker = 3, wo_supplier = 4, wo_profile = ''p'', wo_sha = replicate 64 (CHR ''a''), wo_region = ''us'', wo_maximum = 4,
     wo_available = 0, wo_supplier_rate = 1800000000000, wo_residency_rate = 900000000000, wo_currency = Some ''usd'', wo_p95 = 1, wo_p99 = 0,
     wo_count = 5, wo_window = 60, wo_kind = ''DATA_PLANE_COMPLETIONS_V1'', wo_status = ''READY'', wo_last_seen = 0\<rparr>"

definition demo_sys :: lease_sys where
  "demo_sys = \<lparr>ly_rows = [demo_accepted 9 ''ACTIVE'' 2 9000, demo_accepted 1 ''FAILOVER_REQUIRED'' 0 5000], ly_meter = demo_lease_db,
     ly_offers = [demo_offer], ly_samples = [], ly_finalized = [], ly_ledger = demo_ledger\<rparr>"

definition demo_lifecycle :: "settlement \<times> lifecycle_op \<Rightarrow> lease_sys \<Rightarrow> lease_sys" where
  "demo_lifecycle = lifecycle_step demo_text (\<lambda>xs. xs) (\<lambda>xs. xs) demo_lease_deps micros"

definition demo_funding :: "(settlement \<times> lifecycle_op) list" where
  "demo_funding = map (Pair demo_settlement) [Balance_op (OpBeginTopup ''k'' 2 500), Balance_op (OpCreditTopup (Inr ()) ''k'' 2 demo_charge)]"

definition demo_closing :: "(settlement \<times> lifecycle_op) list" where
  "demo_closing = map (Pair demo_settlement) [Cancel_op 2 1 4000, Expire_op 10 10000]"

definition demo_closed :: lease_sys where
  "demo_closed = fold demo_lifecycle (demo_funding @ demo_closing) demo_sys"

lemma demo_closed_facts:
  "map (\<lambda>r. (sl_ID r, sl_State r, sl_BuyerChargeNanos r)) (ly_rows demo_closed) = [(9, ''COMPLETED'', 18000), (1, ''CANCELLED'', 0)] \<and>
   held_balance (ly_ledger demo_closed) (2, ''usd'') = 4999982"
  by code_simp

lemmas demo_closed_rows = demo_closed_facts [THEN conjunct1]
lemmas demo_closed_balance = demo_closed_facts [THEN conjunct2]

section \<open>Properties\<close>

definition fresh_lease :: "lease_db \<Rightarrow> ServiceLease \<Rightarrow> bool" where
  "fresh_lease db row \<longleftrightarrow> sl_CumulativeReplicaNanos row = 0 \<and> sl_BuyerChargeNanos row = 0 \<and> sl_SupplierPayableNanos row = 0 \<and>
     sl_KnownVariableCostNanos row = 0 \<and> sl_KnownContributionNanos row = 0 \<and> supplier_deltas (sl_ID row) db = []"

definition new_leases :: "lease_sys \<Rightarrow> bool" where
  "new_leases sys \<longleftrightarrow> distinct (map sl_ID (ly_rows sys)) \<and> list_all (fresh_lease (ly_meter sys)) (ly_rows sys) \<and> no_prepaid (ly_ledger sys)"

lemma new_leases_inv: "new_leases sys \<Longrightarrow> sys_inv U sys"
  using no_prepaid_inv by (auto simp: new_leases_def sys_inv_def list_all_iff fresh_lease_def lease_books_def Let_def)

lemma lifecycle_machine:
  assumes "\<And>u v. length (U u) = length (U v)" "\<And>xs :: topup_op list. mset (by_credit xs) = mset xs"
  shows "invariant_machine (lifecycle_step U by_credit by_key D pgTime) (sys_inv U)"
proof
  fix p sys assume inv: "sys_inv U sys"
  show "sys_inv U (lifecycle_step U by_credit by_key D pgTime p sys)"
    using lifecycle_steps [of U by_credit sys by_key D pgTime p, OF assms] inv
    by (induction rule: rtranclp_induct) (auto intro: row_step_inv)
qed

text \<open>
  C5. Through any history of heartbeats, lost workers, failovers, cancellations, expiries and
  prepaid operations the books of every lease balance: the buyer's charge is the supplier payable
  plus the known variable cost plus the contribution, within the accepted ceiling; the deltas
  attributed to suppliers are non-negative and add up to the payable; and every prepaid
  balance is the sum of its ledger rows, the terminal settlements included.
\<close>

theorem lease_lifecycle_books:
  assumes "new_leases sys0" "\<And>u v. length (U u) = length (U v)" "\<And>xs :: topup_op list. mset (by_credit xs) = mset xs"
    and sys: "sys = fold (lifecycle_step U by_credit by_key D pgTime) ops sys0" and lease: "lease \<in> set (ly_rows sys)"
  shows "sint (sl_BuyerChargeNanos lease) =
       sint (sl_SupplierPayableNanos lease) + sint (sl_KnownVariableCostNanos lease) + sint (sl_KnownContributionNanos lease) \<and>
     (sl_BuyerChargeNanos lease = 0 \<or> (\<exists>c. pd_AcceptedCeilingNanos (sl_Pricing lease) = Some c \<and> sint (sl_BuyerChargeNanos lease) \<le> sint c)) \<and>
     sum_list (supplier_deltas (sl_ID lease) (ly_meter sys)) = sint (sl_SupplierPayableNanos lease) \<and>
     list_all (\<lambda>x. 0 \<le> x) (supplier_deltas (sl_ID lease) (ly_meter sys)) \<and>
     held_balance (ly_ledger sys) k = prepaid_sum (ly_ledger sys) k"
proof -
  have inv: "sys_inv U sys" unfolding sys
    by (rule invariant_machine.run_inv [OF lifecycle_machine [OF assms(2,3)] new_leases_inv [OF assms(1)]])
  then have "lease_books (lease, ly_meter sys)" using lease by (simp add: sys_inv_def)
  then have books: "sint (sl_BuyerChargeNanos lease) =
       sint (sl_SupplierPayableNanos lease) + sint (sl_KnownVariableCostNanos lease) + sint (sl_KnownContributionNanos lease)"
    "sum_list (supplier_deltas (sl_ID lease) (ly_meter sys)) = sint (sl_SupplierPayableNanos lease)"
    "list_all (\<lambda>x. 0 \<le> x) (supplier_deltas (sl_ID lease) (ly_meter sys))" "0 \<le> sint (sl_CumulativeReplicaNanos lease)"
    and zero: "sint (sl_CumulativeReplicaNanos lease) = 0 \<longrightarrow> sl_SupplierPayableNanos lease = 0 \<and> sl_KnownVariableCostNanos lease = 0 \<and> sl_KnownContributionNanos lease = 0"
    and ceil: "0 < sint (sl_CumulativeReplicaNanos lease) \<longrightarrow> (\<exists>c. pd_AcceptedCeilingNanos (sl_Pricing lease) = Some c \<and> sint (sl_BuyerChargeNanos lease) \<le> sint c)"
    unfolding lease_books_def prod.case Let_def by blast+
  have "sl_BuyerChargeNanos lease = 0" if "sint (sl_CumulativeReplicaNanos lease) = 0"
    using zero that books(1) by (simp add: signed_eq_0_iff)
  then have "sl_BuyerChargeNanos lease = 0 \<or> (\<exists>c. pd_AcceptedCeilingNanos (sl_Pricing lease) = Some c \<and> sint (sl_BuyerChargeNanos lease) \<le> sint c)"
    using ceil books(4) by (cases "sint (sl_CumulativeReplicaNanos lease) = 0") auto
  moreover have "held_balance (ly_ledger sys) k = prepaid_sum (ly_ledger sys) k"
    using inv unfolding sys_inv_def prepaid_inv_def prepaid_books_def by blast
  ultimately show ?thesis using books by blast
qed

lemma demo_new: "new_leases demo_sys"
  by (simp add: new_leases_def demo_sys_def demo_accepted_def fresh_lease_def demo_lease_row_def demo_lease_db_def supplier_deltas_def demo_hyps)

theorem lease_lifecycle_books_witness:
  "sl_BuyerChargeNanos (hd (ly_rows demo_closed)) = 18000 \<and>
   18000 = sint (sl_SupplierPayableNanos (hd (ly_rows demo_closed))) + sint (sl_KnownVariableCostNanos (hd (ly_rows demo_closed))) +
     sint (sl_KnownContributionNanos (hd (ly_rows demo_closed))) \<and>
   prepaid_sum (ly_ledger demo_closed) (2, ''usd'') = 4999982"
proof -
  have charge: "sl_BuyerChargeNanos (hd (ly_rows demo_closed)) = 18000" and mem: "hd (ly_rows demo_closed) \<in> set (ly_rows demo_closed)"
    using demo_closed_rows by (cases "ly_rows demo_closed"; simp)+
  note lease_lifecycle_books [where U = demo_text, OF demo_new demo_hyps(2) refl demo_closed_def [unfolded demo_lifecycle_def] mem, of "(2, ''usd'')"]
  then show ?thesis using charge demo_closed_balance by simp
qed

text \<open>
  C19. A lease that is completed or cancelled is never touched again: no later operation changes any
  column of its row.
\<close>

theorem terminal_lease_frozen:
  assumes "new_leases sys0" "\<And>u v. length (U u) = length (U v)" "\<And>xs :: topup_op list. mset (by_credit xs) = mset xs"
    and sys: "sys = fold (lifecycle_step U by_credit by_key D pgTime) ops sys0" and "lease \<in> set (ly_rows sys)" "terminal lease"
  shows "lease \<in> set (ly_rows (fold (lifecycle_step U by_credit by_key D pgTime) later sys))"
proof -
  have inv: "sys_inv U sys" unfolding sys
    by (rule invariant_machine.run_inv [OF lifecycle_machine [OF assms(2,3)] new_leases_inv [OF assms(1)]])
  have "invariant_machine (lifecycle_step U by_credit by_key D pgTime) (\<lambda>s. sys_inv U s \<and> lease \<in> set (ly_rows s))"
  proof
    fix s p assume s: "sys_inv U s \<and> lease \<in> set (ly_rows s)"
    show "sys_inv U (lifecycle_step U by_credit by_key D pgTime p s) \<and> lease \<in> set (ly_rows (lifecycle_step U by_credit by_key D pgTime p s))"
      using lifecycle_steps [of U by_credit s by_key D pgTime p, OF assms(2,3)] s
    proof (induction rule: rtranclp_induct)
      case (step y z)
      then show ?case using row_step_inv row_step_frozen [OF step.hyps(2) _ _ assms(6)] by (simp add: sys_inv_def)
    qed
  qed
  from invariant_machine.run_inv [OF this] show ?thesis using inv assms(5) by blast
qed


theorem terminal_lease_frozen_witness:
  "hd (ly_rows demo_closed) \<in> set (ly_rows (demo_lifecycle (demo_settlement, Cancel_op 2 9 20000) demo_closed))"
proof -
  have mem: "hd (ly_rows demo_closed) \<in> set (ly_rows demo_closed)" and closed: "terminal (hd (ly_rows demo_closed))"
    using demo_closed_rows by (cases "ly_rows demo_closed"; simp add: terminal_def)+
  from terminal_lease_frozen [where U = demo_text and later = "[(demo_settlement, Cancel_op 2 9 20000)]",
      OF demo_new demo_hyps(2) refl demo_closed_def [unfolded demo_lifecycle_def] mem closed]
  show ?thesis by (simp add: demo_lifecycle_def)
qed

text \<open>
  C7. A settlement that succeeds conserves money: under the references of the lease the ledger holds
  one charge to the buyer, the equal prepaid debit, a positive credit for every supplier with
  payable time and the platform's share, and the charge is exactly the credits plus that
  share. The charge is within the prepaid reservation, and a replay finds the same rows.
\<close>

theorem lease_settlement_conserves:
  assumes "settleFinalServiceLeaseTx U D g now lease meter db = Inr db'" "0 <s sl_ReservedBuyerMicros lease"
  shows "\<exists>cur b payables. ParseCurrency (pd_Currency (sl_Pricing lease)) = Inr cur \<and>
    LedgerMicrosFromNanos \<lparr>mn_currency = cur, mn_nanos = sl_BuyerChargeNanos lease\<rparr> = Inr b \<and>
    serviceLeaseSupplierPayables (sl_ID lease) meter = Inr payables \<and> settled U cur lease payables b db'"
proof -
  obtain auth cur b payables where r: "ParseCurrency (pd_Currency (sl_Pricing lease)) = Inr cur"
    "LedgerMicrosFromNanos \<lparr>mn_currency = cur, mn_nanos = sl_BuyerChargeNanos lease\<rparr> = Inr b"
    "serviceLeaseSupplierPayables (sl_ID lease) meter = Inr payables" "settle_money U g now lease auth cur b payables db = Inr db'"
    by (rule settleFinal_runs [OF assms])
  have "settled U cur lease payables b db'" using settle_money_settled [OF r(4) ParseCurrency_valid [OF r(1)]] by blast
  then show ?thesis using r(1-3) by blast
qed

definition demo_used :: "ServiceLease \<times> lease_db" where
  "demo_used = projr (meterServiceLeaseTx 9000 (demo_accepted 9 ''ACTIVE'' 2 9000) demo_lease_db)"

definition demo_funded :: ledger_db where
  "demo_funded = lease_ledger (fold demo_lifecycle demo_funding demo_sys)"

definition demo_settle :: "ledger_db result" where
  "demo_settle = settleFinalServiceLeaseTx demo_text demo_lease_deps demo_settlement 10000 (fst demo_used) (snd demo_used) demo_funded"

theorem lease_settlement_conserves_witness:
  "isOK demo_settle \<and> (\<exists>cur b payables. sint b = 18 \<and> serviceLeaseSupplierPayables 9 (snd demo_used) = Inr payables \<and>
     settled demo_text cur (fst demo_used) payables b (projr demo_settle))"
proof -
  have ok: "isOK demo_settle" by code_simp
  then have run: "settleFinalServiceLeaseTx demo_text demo_lease_deps demo_settlement 10000 (fst demo_used) (snd demo_used) demo_funded = Inr (projr demo_settle)"
    by (simp add: demo_settle_def isOK_def split: sum.splits)
  have row: "0 <s sl_ReservedBuyerMicros (fst demo_used)" "sl_ID (fst demo_used) = 9" by code_simp+
  have micros: "LedgerMicrosFromNanos \<lparr>mn_currency = cur, mn_nanos = sl_BuyerChargeNanos (fst demo_used)\<rparr> = Inr b \<Longrightarrow> sint b = 18" for cur b
  proof -
    have "sl_BuyerChargeNanos (fst demo_used) = 18000" by code_simp
    then show "LedgerMicrosFromNanos \<lparr>mn_currency = cur, mn_nanos = sl_BuyerChargeNanos (fst demo_used)\<rparr> = Inr b \<Longrightarrow> sint b = 18"
      by (auto simp: LedgerMicrosFromNanos_def Let_def go_div_def go_rem_def NanosPerMicro_def sle64 signed_divide_int_def signed_modulo_int_def split: if_splits)
  qed
  show ?thesis using lease_settlement_conserves [OF run row(1)] ok micros unfolding row(2) by blast
qed

text \<open>
  C22. An accepted lease that was never used cannot be finalised after its term: the settlement refuses
  a charge of zero, which cancellation and termination skip. The sweep stops there, so while that
  lease is the first to expire no later lease is completed, and its reservation stays.
\<close>

theorem unused_lease_blocks_sweep:
  assumes "expired_leases n now sys = i # rest" "lease_of sys i = Some row"
    and "sl_ActiveReplicas row = 0" "sl_CumulativeReplicaNanos row = 0" "sl_BuyerChargeNanos row = 0" "0 <s sl_ReservedBuyerMicros row"
    and "sl_State row = ''FAILOVER_REQUIRED''" "sl_ExpiresAt row \<le> now"
  shows "\<exists>e. FinalizeExpiredServiceLeases U D pgTime g n now sys = ((0, Some e), sys)"
proof -
  obtain e where "finalizeExpiredServiceLease U D pgTime g now i sys = Inl e"
    using unused_not_finalized [OF assms(2-6) _ _ assms(8), of U D pgTime g] assms(7) by auto
  moreover have "\<not> n < 1" using assms(1) by (cases n) (simp_all add: expired_leases_def)
  ultimately show ?thesis using assms(1) by (simp add: FinalizeExpiredServiceLeases_def)
qed

theorem unused_lease_blocks_sweep_witness:
  "expired_leases 10 10000 demo_sys = [1, 9] \<and>
   (\<exists>e. FinalizeExpiredServiceLeases demo_text demo_lease_deps micros demo_settlement 10 10000 demo_sys = ((0, Some e), demo_sys)) \<and>
   isOK (CancelServiceLease demo_text demo_lease_deps micros demo_settlement 2 1 10000 demo_sys)"
proof -
  have e: "expired_leases 10 10000 demo_sys = 1 # [9]" by code_simp
  have "lease_of demo_sys 1 = Some (demo_accepted 1 ''FAILOVER_REQUIRED'' 0 5000)"
    by (simp add: lease_of_def demo_sys_def demo_accepted_def)
  note b = unused_lease_blocks_sweep [OF e this]
  have "\<exists>e. FinalizeExpiredServiceLeases demo_text demo_lease_deps micros demo_settlement 10 10000 demo_sys = ((0, Some e), demo_sys)"
    by (rule b) (simp_all add: demo_accepted_def demo_lease_row_def sless64)
  moreover have "isOK (CancelServiceLease demo_text demo_lease_deps micros demo_settlement 2 1 10000 demo_sys)" by code_simp
  ultimately show ?thesis using e by blast
qed

end
