(* ===== verification/Spec2Isabelle.thy ===== *)
theory Spec2Isabelle
  imports Execution_Envelope Liveness_Index Verification_Safety Api_Key_Cache Lease_Settlement
begin

text \<open>
  Merc is a compute market: buyers submit jobs, a Go control plane (\<^verbatim>\<open>src/src/control\<close>) splits
  them into tasks, suppliers' workers execute the tasks, and the control plane verifies the
  results and settles the money. This development models parts of the control plane whose
  correctness is a matter of logic rather than of I/O, and proves what they promise.

  \<^bold>\<open>Parts and theories.\<close>

  \<^item> \<^verbatim>\<open>Go_Prelude\<close>: what the models use of Go. \<^verbatim>\<open>int64\<close> is \<^verbatim>\<open>64 word\<close> with wrapping addition and
    truncating division, errors are values of a sum type (sentinels, messages and wraps, with
    \<^verbatim>\<open>errors.Is\<close>), and \<^verbatim>\<open>strings.TrimSpace\<close> and integer printing are defined. It also holds the
    interfaces of the library: \<^verbatim>\<open>invariant_machine\<close> (an invariant kept by every operation holds
    after every history), \<^verbatim>\<open>safe_system\<close> (the same from many initial states),
    \<^verbatim>\<open>conserving_carry\<close> (what is posted and what is carried add up to what came in) and
    \<^verbatim>\<open>checked_money\<close> (an addition is exact or refused).
  \<^item> \<^verbatim>\<open>Sql_Tx\<close>: SQL transactions as state transformers with rollback, \<^verbatim>\<open>bigint\<close> arithmetic that
    errs on overflow, and \<^verbatim>\<open>consistent_store\<close>: if every transaction body keeps the
    consistency predicate, every history of committed and rolled-back transactions does.
  \<^item> \<^verbatim>\<open>Currency\<close> (\<^verbatim>\<open>currency.go\<close>): currencies, decimal parsing, minor-unit amounts, and the
    process-wide settlement currency as a state machine. Parsing accepts exactly the decimal
    numerals in range and returns their value; conversions and sums are exact or refused.
  \<^item> \<^verbatim>\<open>Money_Nanos\<close> (\<^verbatim>\<open>money_nanos.go\<close>): nano-unit money, the 128-bit \<^verbatim>\<open>mulDiv\<close> with its big-integer
    fallback, realtime token charges and the remainder carry. The results are the mathematical
    quotients with the stated rounding; the carry loses nothing.
  \<^item> \<^verbatim>\<open>Execution_Envelope\<close> (\<^verbatim>\<open>execution_envelope.go\<close>): prepaid envelopes from which requests
    reserve, capture and release, over the tables of \<^verbatim>\<open>schema.sql\<close> they use. Every history keeps
    spent plus reserved within the cap and equal to the sums over the spends; a repeated spend
    replays; a raced one fails.
  \<^item> \<^verbatim>\<open>Liveness_Index\<close> (\<^verbatim>\<open>liveness_index.go\<close>): the timing wheel of live devices with its packed
    membership words. The live-slot walk returns exactly the live slots; a tick runs its loop for
    the missed seconds, 64 at most.
  \<^item> \<^verbatim>\<open>Go_Float\<close> and \<^verbatim>\<open>Reputation\<close> (\<^verbatim>\<open>reputation.go\<close>, check probability of \<^verbatim>\<open>verification.go\<close>):
    binary32 and binary64 rounding on rationals (round to nearest even, without the exponent
    bounds, which the values in play never reach), supplier reputation and the probability of
    a check.
  \<^item> \<^verbatim>\<open>Verification_Class\<close> (\<^verbatim>\<open>verification_class.go\<close>): which tasks are always checked.
  \<^item> \<^verbatim>\<open>Votes\<close> (\<^verbatim>\<open>verification.go\<close>): independent votes, build classes, probe seeds, agreement and
    majority.
  \<^item> \<^verbatim>\<open>Verification_Plan\<close> (\<^verbatim>\<open>verification.go\<close>, \<^verbatim>\<open>verification_plan.go\<close>, and parts of
    \<^verbatim>\<open>verification_processor.go\<close>, \<^verbatim>\<open>result_validation.go\<close>, \<^verbatim>\<open>verification_apply.go\<close>): the decision
    procedure over an abstract store, the recorder that turns its writes into effects, the
    decisions for unusable artifacts, and the shape check. \<^verbatim>\<open>Verification_Safety\<close> holds its
    theorems: the planner's effects are canonical and allowed (a Hoare-style calculus over the
    handlers), tie-breaks punish only a minority of the winner's build class, probes decide
    alone, and two of the planner's decisions are refused by the check they must pass.
  \<^item> \<^verbatim>\<open>Api_Key_Cache\<close> (\<^verbatim>\<open>api_key_cache.go\<close>, and from \<^verbatim>\<open>store.go\<close> the lookup, minting and revocation
    of keys): the three maps of the cache, and lookups, revocations and tombstones of one process
    as interleaved steps. Lookups run in calls that other requests of the same key join, as
    \<^verbatim>\<open>singleflight\<close> documents it. A cached answer is at most 250 ms old and not invalidated since;
    a revocation that no call overlaps is final; one that a call overlaps can be undone by it
    for that long, and its answer handed to requests that join it.
  \<^item> \<^verbatim>\<open>Ledger\<close> (\<^verbatim>\<open>ledger_write.go\<close>, \<^verbatim>\<open>liability_authority.go\<close>): the check every ledger entry
    passes, the three inserts with the checks, unique indexes and deferred currency triggers of
    the table in \<^verbatim>\<open>schema.sql\<close>, and the citation of a liability. An accepted row is in the
    settlement currency in force or has a source with a currency of its own.
  \<^item> \<^verbatim>\<open>Prepaid\<close> (\<^verbatim>\<open>store_prepaid.go\<close>, shape checks of \<^verbatim>\<open>billing.go\<close>): top-ups, debits, restores
    and refunds of prepaid balances. Every history keeps each balance equal to the sum of its
    ledger rows and each top-up's refunds within what it collected; a new refund is exact; a
    replayed task debit can fail for lack of balance.
  \<^item> \<^verbatim>\<open>Service_Lease\<close> (\<^verbatim>\<open>service_lease_pricing.go\<close>, and from \<^verbatim>\<open>service_leases.go\<close> the meter,
    heartbeats and lost workers): reserved capacity billed by replica time. Every history keeps
    the books exact and within the ceiling; a heartbeat can bill a lease that waits for
    failover, and the microseconds of a timestamp make the charge depend on the cadence.
  \<^item> \<^verbatim>\<open>Lease_Settlement\<close> (from \<^verbatim>\<open>service_leases.go\<close> settlement, cancellation, termination, expiry,
    failover and the sweeps): leases, meter, offers and ledger as one system. Every history
    keeps the books of leases and balances, terminal leases never change, a settlement splits
    the charge exactly, and an expired lease without usage stops the expiry sweep.

  \<^bold>\<open>How code corresponds to definitions.\<close> Structs are records with the fields the operations
  read, enums and tagged values are datatypes, maps are association lists or functions, and
  every early return is a branch. A method of a locked object is one atomic step. A handler
  that writes through a store takes and returns the store's state. Error texts are shortened
  to the part that tells the branches apart.

  \<^bold>\<open>Parameters.\<close> SHA-1 ids, HMAC, JSON encoding, the embedding comparison, object storage, the
  reads of the verification store, the digest and cost-shape check of a lease's pricing,
  the resolution at which a timestamp is stored, the text of a UUID, the orders a query asks for,
  the binding of Stripe cash events, the open exposure of a buyer and the rows other transactions
  lock are arguments. Of the text of a UUID the theorems assume a fixed length, of the order of
  top-ups that it permutes. Where ids must not collide, the theorem
  assumes it of the ids at hand, and its witness gives concrete ones.

  \<^bold>\<open>Bounds.\<close> No fuel is used: every loop is structural or has a termination proof. The live
  index's tick is bounded by the 64 buckets of its wheel.

  \<^bold>\<open>Not modelled.\<close> HTTP, process start-up, telemetry, evidence files, the SQL outside the
  envelope, key, ledger, prepaid and lease tables, admission of leases, prepaid reservations, disputes,
  payouts, Stripe calls, pricing on floating-point scores, the project compiler, the
  realtime proxy, and the Rust agent: they are I/O, or their logic lives in SQL and external
  services.
\<close>

end
